(* ===== verification/Prelude.thy ===== *)
theory Prelude
  imports Main "HOL-Library.Word"
begin

text \<open>
  Shared vocabulary of the development: the machine types of the C++ sources, the
  positional reading of arrays of machine words as natural numbers (little-endian byte
  strings and the 32-bit limbs of big integers are both of this shape), and the
  endian-conversion helpers of \<^verbatim>\<open>src/common.h\<close>, on which every encoder and
  every hash function of the program rests.
\<close>

unbundle bit_operations_syntax

section \<open>Machine types\<close>

type_synonym u8 = "8 word"
type_synonym u16 = "16 word"
type_synonym u32 = "32 word"
type_synonym u64 = "64 word"
type_synonym bytes = "u8 list"

named_theorems endian_simps \<open>unfolding rules of the endian helpers\<close>
named_theorems enc_length \<open>lengths of encoded byte strings\<close>

section \<open>Words as digits of a natural number\<close>

definition wval :: "'a::len word list \<Rightarrow> nat" where
  "wval ws = horner_sum unat (2 ^ LENGTH('a)) ws"

primrec wdigits :: "nat \<Rightarrow> nat \<Rightarrow> 'a::len word list" where
  "wdigits 0 n = []"
| "wdigits (Suc k) n = of_nat n # wdigits k (n div 2 ^ LENGTH('a))"

lemma wval_Nil [simp]: "wval [] = 0"
  by (simp add: wval_def)

lemma wval_Cons [simp]:
  "wval (w # ws) = unat w + 2 ^ LENGTH('a) * wval ws" for w :: "'a::len word"
  by (simp add: wval_def)

lemma wval_append:
  "wval (us @ vs) = wval us + 2 ^ (LENGTH('a) * length us) * wval vs"
  for us :: "'a::len word list"
  by (induction us) (simp_all add: algebra_simps power_add)

lemma wval_less: "wval ws < 2 ^ (LENGTH('a) * length ws)" for ws :: "'a::len word list"
proof (induction ws)
  case Nil
  then show ?case by simp
next
  case (Cons w ws)
  have "unat w < 2 ^ LENGTH('a)" by (rule unsigned_less)
  moreover have "2 ^ LENGTH('a) * (wval ws + 1) \<le> 2 ^ LENGTH('a) * 2 ^ (LENGTH('a) * length ws)"
    using Cons.IH by (intro mult_le_mono2) simp
  ultimately have "unat w + 2 ^ LENGTH('a) * wval ws < 2 ^ LENGTH('a) * 2 ^ (LENGTH('a) * length ws)"
    unfolding distrib_left by linarith
  then show ?case by (simp add: power_add)
qed

lemma length_wdigits [simp]: "length (wdigits k n) = k"
  by (induction k arbitrary: n) simp_all

lemma wdigits_numeral:
  "wdigits (numeral k) n = (of_nat n :: 'a::len word) # wdigits (pred_numeral k) (n div 2 ^ LENGTH('a))"
  by (simp add: numeral_eq_Suc)

lemma wval_wdigits: "wval (wdigits k n :: 'a::len word list) = n mod 2 ^ (LENGTH('a) * k)"
proof (induction k arbitrary: n)
  case 0
  then show ?case by simp
next
  case (Suc k)
  have "n mod 2 ^ LENGTH('a) + 2 ^ LENGTH('a) * (n div 2 ^ LENGTH('a) mod 2 ^ (LENGTH('a) * k))
      = n mod (2 ^ LENGTH('a) * 2 ^ (LENGTH('a) * k))"
    by (simp add: mod_mult2_eq)
  then show ?case
    by (simp add: Suc.IH unat_of_nat power_add)
qed

lemma wdigits_wval [simp]: "wdigits (length ws) (wval ws) = ws"
  by (induction ws) (simp_all add: word_unat_eq_iff unat_of_nat)

lemma wdigits_wval_length: "length ws = k \<Longrightarrow> wdigits k (wval ws) = ws"
  using wdigits_wval by blast

lemma wval_inject: "length us = length vs \<Longrightarrow> wval us = wval vs \<longleftrightarrow> us = vs"
  by (metis wdigits_wval)

lemma wval_eq_0_iff: "wval ws = 0 \<longleftrightarrow> (\<forall>w \<in> set ws. w = 0)"
  by (induction ws) (simp_all add: unat_eq_0)

lemma wval_replicate_0 [simp]: "wval (replicate n 0) = 0"
  by (simp add: wval_eq_0_iff)

lemma wval_update:
  "i < length ws \<Longrightarrow> wval (ws[i := v]) + 2 ^ (LENGTH('a) * i) * unat (ws ! i)
     = wval ws + 2 ^ (LENGTH('a) * i) * unat v" for ws :: "'a::len word list"
proof (induction ws arbitrary: i)
  case Nil
  then show ?case by simp
next
  case (Cons w ws)
  show ?case
  proof (cases i)
    case 0
    then show ?thesis by simp
  next
    case (Suc j)
    with Cons.prems have j: "j < length ws" by simp
    have "2 ^ LENGTH('a) * (wval (ws[j := v]) + 2 ^ (LENGTH('a) * j) * unat (ws ! j))
        = 2 ^ LENGTH('a) * (wval ws + 2 ^ (LENGTH('a) * j) * unat v)"
      by (simp only: Cons.IH [OF j])
    then show ?thesis
      using Suc by (simp add: algebra_simps power_add)
  qed
qed

text \<open>Bit \<open>n\<close> of the number is bit \<open>n mod w\<close> of digit \<open>n div w\<close>.\<close>

lemma bit_wval_iff:
  "bit (wval ws) n \<longleftrightarrow> n div LENGTH('a) < length ws \<and> bit (ws ! (n div LENGTH('a))) (n mod LENGTH('a))"
  for ws :: "'a::len word list"
proof (induction ws arbitrary: n)
  case Nil
  then show ?case by simp
next
  case (Cons w ws)
  have lt: "unat w < 2 ^ LENGTH('a)" by (rule unsigned_less)
  have tk: "take_bit LENGTH('a) (unat w) = unat w"
    using lt by (simp add: take_bit_nat_eq_self)
  have or: "unat w + 2 ^ LENGTH('a) * wval ws = unat w OR push_bit LENGTH('a) (wval ws)"
  proof -
    have "push_bit LENGTH('a) (wval ws) + unat w = push_bit LENGTH('a) (wval ws) OR unat w"
    proof (rule disjunctive_add)
      fix m
      show "\<not> bit (push_bit LENGTH('a) (wval ws)) m \<or> \<not> bit (unat w) m"
        by (auto simp: bit_push_bit_iff bit_unsigned_iff dest: bit_imp_le_length)
    qed
    then show ?thesis by (simp add: push_bit_eq_mult or.commute mult.commute add.commute)
  qed
  show ?case
  proof (cases "n < LENGTH('a)")
    case True
    then show ?thesis
      unfolding wval_Cons or
      by (simp add: bit_or_iff bit_push_bit_iff bit_unsigned_iff)
  next
    case False
    then have "bit (wval (w # ws)) n = bit (wval ws) (n - LENGTH('a))"
      unfolding wval_Cons or
      by (auto simp: bit_or_iff bit_push_bit_iff bit_unsigned_iff dest: bit_imp_le_length)
    moreover have "n div LENGTH('a) = Suc ((n - LENGTH('a)) div LENGTH('a))"
      using False by (simp add: le_div_geq)
    moreover have "n mod LENGTH('a) = (n - LENGTH('a)) mod LENGTH('a)"
      using False by (simp add: le_mod_geq)
    ultimately show ?thesis using Cons.IH by simp
  qed
qed


section \<open>Endian helpers of common.h\<close>

text \<open>
  A pointer into a byte buffer is the list of the bytes from that address on; the reads
  copy the first 2, 4 or 8 of them with \<^verbatim>\<open>memcpy\<close> and then fix the byte order, the
  writes produce the bytes that \<^verbatim>\<open>memcpy\<close> stores.
\<close>

definition ReadLE16 :: "bytes \<Rightarrow> u16" where
  "ReadLE16 ptr = of_nat (wval (take 2 ptr))"

definition ReadLE32 :: "bytes \<Rightarrow> u32" where
  "ReadLE32 ptr = of_nat (wval (take 4 ptr))"

definition ReadLE64 :: "bytes \<Rightarrow> u64" where
  "ReadLE64 ptr = of_nat (wval (take 8 ptr))"

definition WriteLE16 :: "u16 \<Rightarrow> bytes" where
  "WriteLE16 x = wdigits 2 (unat x)"

definition WriteLE32 :: "u32 \<Rightarrow> bytes" where
  "WriteLE32 x = wdigits 4 (unat x)"

definition WriteLE64 :: "u64 \<Rightarrow> bytes" where
  "WriteLE64 x = wdigits 8 (unat x)"

definition ReadBE32 :: "bytes \<Rightarrow> u32" where
  "ReadBE32 ptr = of_nat (wval (rev (take 4 ptr)))"

definition ReadBE64 :: "bytes \<Rightarrow> u64" where
  "ReadBE64 ptr = of_nat (wval (rev (take 8 ptr)))"

definition WriteBE32 :: "u32 \<Rightarrow> bytes" where
  "WriteBE32 x = rev (wdigits 4 (unat x))"

definition WriteBE64 :: "u64 \<Rightarrow> bytes" where
  "WriteBE64 x = rev (wdigits 8 (unat x))"

text \<open>\<open>CountBits\<close>: the portable loop, which shifts the argument right until it is zero.\<close>

function CountBits_loop :: "u64 \<Rightarrow> nat \<Rightarrow> nat" where
  "CountBits_loop x ret = (if x = 0 then ret else CountBits_loop (drop_bit 1 x) (Suc ret))"
  by pat_completeness auto
termination
proof (relation "measure (\<lambda>(x, ret). unat x)", goal_cases)
  case 1
  then show ?case by simp
next
  case (2 x ret)
  then have "0 < unat x" by (simp add: unat_gt_0)
  moreover have "unat (drop_bit 1 x) = unat x div 2"
    by (simp only: unat_drop_bit_eq) (simp add: drop_bit_eq_div)
  ultimately show ?case by simp
qed

declare CountBits_loop.simps [simp del]

definition CountBits :: "u64 \<Rightarrow> nat" where
  "CountBits x = CountBits_loop x 0"

lemmas [endian_simps] =
  ReadLE16_def ReadLE32_def ReadLE64_def WriteLE16_def WriteLE32_def WriteLE64_def
  ReadBE32_def ReadBE64_def WriteBE32_def WriteBE64_def

lemma length_WriteLE16 [simp, enc_length]: "length (WriteLE16 x) = 2"
  by (simp add: WriteLE16_def)

lemma length_WriteLE32 [simp, enc_length]: "length (WriteLE32 x) = 4"
  by (simp add: WriteLE32_def)

lemma length_WriteLE64 [simp, enc_length]: "length (WriteLE64 x) = 8"
  by (simp add: WriteLE64_def)

lemma length_WriteBE32 [simp, enc_length]: "length (WriteBE32 x) = 4"
  by (simp add: WriteBE32_def)

lemma length_WriteBE64 [simp, enc_length]: "length (WriteBE64 x) = 8"
  by (simp add: WriteBE64_def)

lemma of_nat_wval_wdigits:
  "LENGTH('a) = 8 * k \<Longrightarrow> of_nat (wval (wdigits k (unat x) :: bytes)) = x" for x :: "'a::len word"
proof -
  assume k: "LENGTH('a) = 8 * k"
  have "unat x < 2 ^ LENGTH('a)" by (rule unsigned_less)
  with k show ?thesis by (simp add: wval_wdigits)
qed

lemma wdigits_of_nat_wval:
  "length bs = k \<Longrightarrow> LENGTH('a) = 8 * k \<Longrightarrow> wdigits k (unat (of_nat (wval bs) :: 'a::len word)) = bs"
  for bs :: bytes
  using wval_less [of bs] by (simp add: unat_of_nat wdigits_wval_length)

lemma ReadLE16_WriteLE16 [simp]: "ReadLE16 (WriteLE16 x @ bs) = x"
  by (simp add: ReadLE16_def WriteLE16_def of_nat_wval_wdigits)

lemma ReadLE32_WriteLE32 [simp]: "ReadLE32 (WriteLE32 x @ bs) = x"
  by (simp add: ReadLE32_def WriteLE32_def of_nat_wval_wdigits)

lemma ReadLE64_WriteLE64 [simp]: "ReadLE64 (WriteLE64 x @ bs) = x"
  by (simp add: ReadLE64_def WriteLE64_def of_nat_wval_wdigits)

lemma ReadBE32_WriteBE32 [simp]: "ReadBE32 (WriteBE32 x @ bs) = x"
  by (simp add: ReadBE32_def WriteBE32_def of_nat_wval_wdigits)

lemma ReadBE64_WriteBE64 [simp]: "ReadBE64 (WriteBE64 x @ bs) = x"
  by (simp add: ReadBE64_def WriteBE64_def of_nat_wval_wdigits)

lemma WriteLE16_ReadLE16: "2 \<le> length bs \<Longrightarrow> WriteLE16 (ReadLE16 bs) = take 2 bs"
  by (simp add: ReadLE16_def WriteLE16_def wdigits_of_nat_wval min_absorb2)

lemma WriteLE32_ReadLE32: "4 \<le> length bs \<Longrightarrow> WriteLE32 (ReadLE32 bs) = take 4 bs"
  by (simp add: ReadLE32_def WriteLE32_def wdigits_of_nat_wval min_absorb2)

lemma WriteLE64_ReadLE64: "8 \<le> length bs \<Longrightarrow> WriteLE64 (ReadLE64 bs) = take 8 bs"
  by (simp add: ReadLE64_def WriteLE64_def wdigits_of_nat_wval min_absorb2)

lemma WriteBE32_ReadBE32: "4 \<le> length bs \<Longrightarrow> WriteBE32 (ReadBE32 bs) = take 4 bs"
  by (simp add: ReadBE32_def WriteBE32_def wdigits_of_nat_wval min_absorb2)

lemma unat_ReadLE32: "unat (ReadLE32 bs) = wval (take 4 bs)"
proof -
  have "wval (take 4 bs) < 2 ^ (8 * length (take 4 bs))"
    using wval_less [of "take 4 bs"] by simp
  also have "\<dots> \<le> 2 ^ (8 * 4)" by (rule power_increasing) simp_all
  finally show ?thesis by (simp add: ReadLE32_def unat_of_nat)
qed

lemma unat_ReadLE16: "unat (ReadLE16 bs) = wval (take 2 bs)"
proof -
  have "wval (take 2 bs) < 2 ^ (8 * length (take 2 bs))"
    using wval_less [of "take 2 bs"] by simp
  also have "\<dots> \<le> 2 ^ (8 * 2)" by (rule power_increasing) simp_all
  finally show ?thesis by (simp add: ReadLE16_def unat_of_nat)
qed

text \<open>Reading a byte string as 32-bit limbs does not change the number it denotes.\<close>

lemma wval_limbs32:
  "length bs = 4 * n \<Longrightarrow> wval (map (\<lambda>x. ReadLE32 (drop (4 * x) bs)) [0..<n]) = wval bs"
proof (induction n arbitrary: bs)
  case 0
  then show ?case by simp
next
  case (Suc n)
  have *: "map (\<lambda>x. ReadLE32 (drop (4 * x) bs)) [0..<Suc n]
      = ReadLE32 bs # map (\<lambda>x. ReadLE32 (drop (4 * x) (drop 4 bs))) [0..<n]"
    by (simp add: map_upt_Suc add.commute del: upt_Suc)
  have "wval (map (\<lambda>x. ReadLE32 (drop (4 * x) (drop 4 bs))) [0..<n]) = wval (drop 4 bs)"
    by (rule Suc.IH) (use Suc.prems in simp)
  moreover have "wval bs = wval (take 4 bs) + 2 ^ 32 * wval (drop 4 bs)"
    using wval_append [of "take 4 bs" "drop 4 bs"] Suc.prems by (simp add: min_absorb2)
  ultimately show ?case
    unfolding * by (simp add: unat_ReadLE32)
qed

lemma CountBits_loop_correct:
  "drop_bit n x = 0 \<Longrightarrow> (\<And>m. m < n \<Longrightarrow> drop_bit m x \<noteq> 0) \<Longrightarrow> CountBits_loop x ret = ret + n"
proof (induction n arbitrary: x ret)
  case 0
  then show ?case by (simp add: CountBits_loop.simps)
next
  case (Suc n)
  from Suc.prems(2) [of 0] have nz: "x \<noteq> 0" by simp
  have "CountBits_loop (drop_bit 1 x) (Suc ret) = Suc ret + n"
  proof (rule Suc.IH)
    show "drop_bit n (drop_bit 1 x) = 0" using Suc.prems(1) by (simp add: drop_bit_drop_bit)
  next
    fix m assume "m < n"
    then show "drop_bit m (drop_bit 1 x) \<noteq> 0"
      using Suc.prems(2) [of "Suc m"] by (simp add: drop_bit_drop_bit)
  qed
  with nz show ?case by (simp add: CountBits_loop.simps [of x ret])
qed

end
