(* ===== verification/Arith_Uint256.thy ===== *)
theory Arith_Uint256
  imports Prelude
begin
text \<open>
  The big-integer class \<^verbatim>\<open>base_uint<BITS>\<close> of \<^verbatim>\<open>src/arith_uint256.h\<close> and
  \<^verbatim>\<open>src/arith_uint256.cpp\<close>, and its 256-bit instance with the compact difficulty
  encoding. An object is its limb array \<open>pn\<close>, a list of \<open>WIDTH\<close> words of 32 bits, least
  significant first; every operation is written on the limbs as the code has it, carries
  included, for any width. The abstraction function is \<open>wval\<close>, and the lemmas show that each
  operation computes the arithmetic operation modulo \<open>2 ^ (32 * WIDTH)\<close>.
\<close>

type_synonym base_uint = "u32 list"

datatype uint_error = DivisionByZero

section \<open>The operations on limbs\<close>

definition WIDTH256 :: nat where
  "WIDTH256 = 8"

definition base_uint_of_u64 :: "nat \<Rightarrow> u64 \<Rightarrow> base_uint" where
  "base_uint_of_u64 width b = ucast b # ucast (drop_bit 32 b) # replicate (width - 2) 0"

definition base_uint_is_zero :: "base_uint \<Rightarrow> bool" where
  "base_uint_is_zero pn = list_all (\<lambda>w. w = 0) pn"

definition base_uint_not :: "base_uint \<Rightarrow> base_uint" where
  "base_uint_not pn = map NOT pn"

primrec base_uint_incr :: "base_uint \<Rightarrow> base_uint" where
  "base_uint_incr [] = []"
| "base_uint_incr (w # ws) = (if w + 1 = 0 then (w + 1) # base_uint_incr ws else (w + 1) # ws)"

primrec base_uint_decr :: "base_uint \<Rightarrow> base_uint" where
  "base_uint_decr [] = []"
| "base_uint_decr (w # ws) = (if w - 1 = - 1 then (w - 1) # base_uint_decr ws else (w - 1) # ws)"

definition base_uint_neg :: "base_uint \<Rightarrow> base_uint" where
  "base_uint_neg pn = base_uint_incr (base_uint_not pn)"

fun base_uint_add_loop :: "u64 \<Rightarrow> base_uint \<Rightarrow> base_uint \<Rightarrow> base_uint" where
  "base_uint_add_loop carry (p # pn) (b # bs) =
     (let n = carry + ucast p + ucast b
      in ucast (n AND 0xffffffff) # base_uint_add_loop (drop_bit 32 n) pn bs)"
| "base_uint_add_loop carry pn bs = []"

definition base_uint_add :: "base_uint \<Rightarrow> base_uint \<Rightarrow> base_uint" where
  "base_uint_add pn b = base_uint_add_loop 0 pn b"

definition base_uint_sub :: "base_uint \<Rightarrow> base_uint \<Rightarrow> base_uint" where
  "base_uint_sub pn b = base_uint_add pn (base_uint_neg b)"

primrec base_uint_mul32_loop :: "u32 \<Rightarrow> u64 \<Rightarrow> base_uint \<Rightarrow> base_uint" where
  "base_uint_mul32_loop b32 carry [] = []"
| "base_uint_mul32_loop b32 carry (p # pn) =
     (let n = carry + ucast b32 * ucast p
      in ucast (n AND 0xffffffff) # base_uint_mul32_loop b32 (drop_bit 32 n) pn)"

definition base_uint_mul32 :: "base_uint \<Rightarrow> u32 \<Rightarrow> base_uint" where
  "base_uint_mul32 pn b32 = base_uint_mul32_loop b32 0 pn"

text \<open>
  The inner loop of the full multiplication walks \<open>pn[i + j]\<close> and \<open>b.pn[i]\<close> in step until
  \<open>i + j\<close> leaves the array; its arguments are the suffix of \<open>pn\<close> from index \<open>j\<close> and \<open>b.pn\<close>.
\<close>

fun base_uint_mul_inner :: "u32 \<Rightarrow> u64 \<Rightarrow> base_uint \<Rightarrow> base_uint \<Rightarrow> base_uint" where
  "base_uint_mul_inner aj carry (p # pn) (b # bs) =
     (let n = carry + ucast p + ucast aj * ucast b
      in ucast (n AND 0xffffffff) # base_uint_mul_inner aj (drop_bit 32 n) pn bs)"
| "base_uint_mul_inner aj carry pn bs = []"

definition base_uint_mul :: "base_uint \<Rightarrow> base_uint \<Rightarrow> base_uint" where
  "base_uint_mul a b =
     fold (\<lambda>j pn. take j pn @ base_uint_mul_inner (a ! j) 0 (drop j pn) b)
       [0..<length a] (replicate (length a) 0)"

definition base_uint_shl :: "base_uint \<Rightarrow> nat \<Rightarrow> base_uint" where
  "base_uint_shl a shift0 =
     (let k = shift0 div 32; shift = shift0 mod 32 in
      fold (\<lambda>i pn.
          let pn = (if i + k + 1 < length a \<and> shift \<noteq> 0
                    then pn[i + k + 1 := pn ! (i + k + 1) OR drop_bit (32 - shift) (a ! i)] else pn)
          in (if i + k < length a then pn[i + k := pn ! (i + k) OR push_bit shift (a ! i)] else pn))
        [0..<length a] (replicate (length a) 0))"

definition base_uint_shr :: "base_uint \<Rightarrow> nat \<Rightarrow> base_uint" where
  "base_uint_shr a shift0 =
     (let k = shift0 div 32; shift = shift0 mod 32 in
      fold (\<lambda>i pn.
          let pn = (if k + 1 \<le> i \<and> shift \<noteq> 0
                    then pn[i - k - 1 := pn ! (i - k - 1) OR push_bit (32 - shift) (a ! i)] else pn)
          in (if k \<le> i then pn[i - k := pn ! (i - k) OR drop_bit shift (a ! i)] else pn))
        [0..<length a] (replicate (length a) 0))"

text \<open>\<open>CompareTo\<close> scans from the most significant limb: its loop runs over the reversed arrays.\<close>

fun base_uint_compare_loop :: "base_uint \<Rightarrow> base_uint \<Rightarrow> int" where
  "base_uint_compare_loop (p # ps) (b # bs) =
     (if p < b then - 1 else if b < p then 1 else base_uint_compare_loop ps bs)"
| "base_uint_compare_loop ps bs = 0"

definition base_uint_CompareTo :: "base_uint \<Rightarrow> base_uint \<Rightarrow> int" where
  "base_uint_CompareTo pn b = base_uint_compare_loop (rev pn) (rev b)"

definition base_uint_EqualTo :: "base_uint \<Rightarrow> u64 \<Rightarrow> bool" where
  "base_uint_EqualTo pn b =
     (if list_ex (\<lambda>w. w \<noteq> 0) (drop 2 pn) then False
      else if ucast (pn ! 1) \<noteq> drop_bit 32 b then False
      else if ucast (pn ! 0) \<noteq> b AND 0xffffffff then False
      else True)"

text \<open>\<open>bits\<close>: the limb scan from the top, then the bit scan from bit 31 down to bit 1.\<close>

primrec base_uint_bits_limb :: "nat \<Rightarrow> u32 \<Rightarrow> nat \<Rightarrow> nat" where
  "base_uint_bits_limb 0 w pos = 32 * pos + 1"
| "base_uint_bits_limb (Suc n) w pos =
     (if w AND push_bit (Suc n) 1 \<noteq> 0 then 32 * pos + Suc n + 1 else base_uint_bits_limb n w pos)"

primrec base_uint_bits_loop :: "base_uint \<Rightarrow> nat" where
  "base_uint_bits_loop [] = 0"
| "base_uint_bits_loop (w # ws) =
     (if w \<noteq> 0 then base_uint_bits_limb 31 w (length ws) else base_uint_bits_loop ws)"

definition base_uint_bits :: "base_uint \<Rightarrow> nat" where
  "base_uint_bits pn = base_uint_bits_loop (rev pn)"

primrec base_uint_div_loop ::
    "nat \<Rightarrow> base_uint \<Rightarrow> base_uint \<Rightarrow> base_uint \<Rightarrow> base_uint \<times> base_uint" where
  "base_uint_div_loop 0 dv num pn = (pn, num)"
| "base_uint_div_loop (Suc shift) dv num pn =
     (if 0 \<le> base_uint_CompareTo num dv
      then base_uint_div_loop shift (base_uint_shr dv 1) (base_uint_sub num dv)
             (pn[shift div 32 := pn ! (shift div 32) OR push_bit (shift mod 32) 1])
      else base_uint_div_loop shift (base_uint_shr dv 1) num pn)"

definition base_uint_div :: "base_uint \<Rightarrow> base_uint \<Rightarrow> uint_error + base_uint" where
  "base_uint_div a b =
     (let num_bits = base_uint_bits a; div_bits = base_uint_bits b in
      if div_bits = 0 then Inl DivisionByZero
      else if num_bits < div_bits then Inr (replicate (length a) 0)
      else let shift = num_bits - div_bits
           in Inr (fst (base_uint_div_loop (Suc shift) (base_uint_shl b shift) a
                          (replicate (length a) 0))))"

definition base_uint_GetLow64 :: "base_uint \<Rightarrow> u64" where
  "base_uint_GetLow64 pn = ucast (pn ! 0) OR push_bit 32 (ucast (pn ! 1))"

definition SetCompact :: "u32 \<Rightarrow> base_uint \<times> bool \<times> bool" where
  "SetCompact nCompact =
     (let nSize = unat (drop_bit 24 nCompact);
          nWord = nCompact AND 0x007fffff;
          nWord = (if nSize \<le> 3 then drop_bit (8 * (3 - nSize)) nWord else nWord);
          this = (if nSize \<le> 3 then base_uint_of_u64 WIDTH256 (ucast nWord)
                  else base_uint_shl (base_uint_of_u64 WIDTH256 (ucast nWord)) (8 * (nSize - 3)));
          fNegative = (nWord \<noteq> 0 \<and> nCompact AND 0x00800000 \<noteq> 0);
          fOverflow = (nWord \<noteq> 0 \<and> (34 < nSize \<or> 0xff < nWord \<and> 33 < nSize \<or> 0xffff < nWord \<and> 32 < nSize))
      in (this, fNegative, fOverflow))"

definition GetCompact :: "base_uint \<Rightarrow> bool \<Rightarrow> u32 option" where
  "GetCompact this fNegative =
     (let nSize = (base_uint_bits this + 7) div 8;
          nCompact = (if nSize \<le> 3 then ucast (push_bit (8 * (3 - nSize)) (base_uint_GetLow64 this))
                      else ucast (base_uint_GetLow64 (base_uint_shr this (8 * (nSize - 3)))));
          (nCompact, nSize) =
            (if nCompact AND 0x00800000 \<noteq> 0 then (drop_bit 8 nCompact, nSize + 1) else (nCompact, nSize))
      in if nCompact AND NOT 0x007fffff \<noteq> (0 :: u32) then None
         else if \<not> nSize < 256 then None
         else let nCompact = nCompact OR push_bit 24 (word_of_nat nSize);
                  nCompact = nCompact OR
                    (if fNegative \<and> nCompact AND 0x007fffff \<noteq> 0 then 0x00800000 else 0)
              in Some nCompact)"

definition ArithToUint256 :: "base_uint \<Rightarrow> bytes" where
  "ArithToUint256 a = concat (map WriteLE32 a)"

definition UintToArith256 :: "bytes \<Rightarrow> base_uint" where
  "UintToArith256 a = map (\<lambda>x. ReadLE32 (drop (x * 4) a)) [0..<WIDTH256]"

section \<open>Carry arithmetic\<close>

lemma digit_carry_step:
  "(n mod b) + b * ((n div b + x) mod m) = (n + b * x) mod (b * m)" for n b x m :: nat
proof (cases "b = 0")
  case True
  then show ?thesis by simp
next
  case False
  then show ?thesis by (simp add: mod_mult2_eq add.commute)
qed

lemma unat_low32 [simp]: "unat (ucast (n AND 0xffffffff :: u64) :: u32) = unat n mod 2 ^ 32"
proof -
  have "n AND 0xffffffff = take_bit 32 n"
    by (simp add: take_bit_eq_mask mask_numeral)
  then have "unat (ucast (n AND 0xffffffff) :: u32) = take_bit 32 (unat n)"
    by (simp only: unsigned_ucast_eq unsigned_take_bit_eq take_bit_take_bit) simp
  then show ?thesis by (simp add: take_bit_eq_mod)
qed

lemma unat_high32 [simp]: "unat (drop_bit 32 n :: u64) = unat n div 2 ^ 32"
  by (simp only: unat_drop_bit_eq) (simp add: drop_bit_eq_div)

lemma unat_u32_less: "unat (p :: u32) < 2 ^ 32"
  using unsigned_less [of p] by simp

lemma unat_ucast_32_64 [simp]: "unat (ucast (p :: u32) :: u64) = unat p"
  using unat_u32_less [of p] by (simp add: unsigned_ucast_eq take_bit_nat_eq_self_iff)

lemma unat_minus_1_32 [simp]: "unat (- 1 :: u32) = 0xffffffff"
  by (simp add: unsigned_minus_1_eq_mask mask_eq_exp_minus_1)

lemma unat_add_step:
  "unat c \<le> 1 \<Longrightarrow> unat (c + ucast p + ucast b :: u64) = unat c + unat (p :: u32) + unat (b :: u32)"
  using unat_u32_less [of p] unat_u32_less [of b] by (simp add: unat_word_ariths)

lemma unat_mul_step:
  assumes "unat c < 2 ^ 32"
  shows "unat (c + ucast p + ucast a * ucast b :: u64) = unat c + unat (p :: u32) + unat (a :: u32) * unat (b :: u32)"
    and "unat c + unat p + unat a * unat b < 2 ^ 64"
proof -
  have "unat a \<le> 2 ^ 32 - 1" "unat b \<le> 2 ^ 32 - 1"
    using unat_u32_less [of a] unat_u32_less [of b] by simp_all
  then have "unat a * unat b \<le> (2 ^ 32 - 1) * (2 ^ 32 - 1)" by (rule mult_le_mono)
  with assms unat_u32_less [of p] show bound: "unat c + unat p + unat a * unat b < 2 ^ 64" by simp
  then show "unat (c + ucast p + ucast a * ucast b :: u64) = unat c + unat p + unat a * unat b"
    by (simp add: unat_word_ariths mod_simps)
qed

section \<open>Addition, negation, increment\<close>

lemma length_base_uint_add_loop [simp]:
  "length pn = length b \<Longrightarrow> length (base_uint_add_loop c pn b) = length pn"
  by (induction c pn b rule: base_uint_add_loop.induct) (simp_all add: Let_def)

lemma wval_base_uint_add_loop:
  "length pn = length b \<Longrightarrow> unat c \<le> 1 \<Longrightarrow>
   wval (base_uint_add_loop c pn b) = (unat c + wval pn + wval b) mod 2 ^ (32 * length pn)"
proof (induction c pn b rule: base_uint_add_loop.induct)
  case (1 carry p pn b bs)
  define n where "n = carry + ucast p + ucast b"
  have n: "unat n = unat carry + unat p + unat b"
    unfolding n_def using "1.prems"(2) by (rule unat_add_step)
  then have "unat (drop_bit 32 n) \<le> 1"
    using "1.prems"(2) unat_u32_less [of p] unat_u32_less [of b] by simp
  with "1.IH" [OF n_def] "1.prems"(1)
  have "wval (base_uint_add_loop (drop_bit 32 n) pn bs)
      = (unat n div 2 ^ 32 + (wval pn + wval bs)) mod 2 ^ (32 * length pn)"
    by (simp add: add.assoc)
  moreover have "wval (base_uint_add_loop carry (p # pn) (b # bs))
      = unat n mod 2 ^ 32 + 2 ^ 32 * wval (base_uint_add_loop (drop_bit 32 n) pn bs)"
    unfolding base_uint_add_loop.simps Let_def n_def [symmetric] wval_Cons unat_low32 by simp
  ultimately have "wval (base_uint_add_loop carry (p # pn) (b # bs))
      = (unat n + 2 ^ 32 * (wval pn + wval bs)) mod (2 ^ 32 * 2 ^ (32 * length pn))"
    by (simp only: digit_carry_step)
  also have "unat n + 2 ^ 32 * (wval pn + wval bs) = unat carry + wval (p # pn) + wval (b # bs)"
    by (simp add: n distrib_left)
  also have "2 ^ 32 * 2 ^ (32 * length pn) = (2 ^ (32 * length (p # pn)) :: nat)"
    by (simp add: power_add)
  finally show ?case .
qed auto

lemma length_base_uint_add [simp]: "length pn = length b \<Longrightarrow> length (base_uint_add pn b) = length pn"
  by (simp add: base_uint_add_def)

lemma wval_base_uint_add:
  "length pn = length b \<Longrightarrow> wval (base_uint_add pn b) = (wval pn + wval b) mod 2 ^ (32 * length pn)"
  by (simp add: base_uint_add_def wval_base_uint_add_loop)

lemma length_base_uint_incr [simp]: "length (base_uint_incr pn) = length pn"
  by (induction pn) simp_all

lemma wval_base_uint_incr: "wval (base_uint_incr pn) = (wval pn + 1) mod 2 ^ (32 * length pn)"
proof (induction pn)
  case Nil
  then show ?case by simp
next
  case (Cons w ws)
  have pw: "2 ^ (32 * length (w # ws)) = (2 ^ 32 * 2 ^ (32 * length ws) :: nat)"
    by (simp add: power_add)
  show ?case
  proof (cases "w + 1 = 0")
    case True
    then have "w = - 1" by (simp add: eq_neg_iff_add_eq_0)
    then have w: "unat w + 1 = 2 ^ 32" by simp
    have "wval (base_uint_incr (w # ws)) = 2 ^ 32 * ((wval ws + 1) mod 2 ^ (32 * length ws))"
      using True by (simp add: Cons.IH)
    also have "\<dots> = (2 ^ 32 * (wval ws + 1)) mod (2 ^ 32 * 2 ^ (32 * length ws))"
      by (simp only: mult_mod_right)
    also have "2 ^ 32 * (wval ws + 1) = wval (w # ws) + 1"
      using w by (simp add: distrib_left)
    finally show ?thesis by (simp only: pw)
  next
    case False
    then have w: "unat (w + 1) = unat w + 1"
      by (metis add.commute unat_1 unatSuc Suc_eq_plus1_left Suc_eq_plus1)
    have "wval ((w + 1) # ws) = wval (w # ws) + 1" by (simp add: w)
    moreover have "wval ((w + 1) # ws) < 2 ^ (32 * length (w # ws))"
      using wval_less [of "(w + 1) # ws"] by simp
    ultimately show ?thesis using False by simp
  qed
qed

lemma length_base_uint_decr [simp]: "length (base_uint_decr pn) = length pn"
  by (induction pn) simp_all

lemma length_base_uint_not [simp]: "length (base_uint_not pn) = length pn"
  by (simp add: base_uint_not_def)

lemma wval_base_uint_not: "wval (base_uint_not pn) + wval pn + 1 = 2 ^ (32 * length pn)"
proof (induction pn)
  case Nil
  then show ?case by (simp add: base_uint_not_def)
next
  case (Cons w ws)
  have w: "unat (NOT w) + unat w + 1 = 2 ^ 32"
  proof -
    have "NOT w = (- 1) - w" by (simp add: not_eq_complement)
    then have "unat (NOT w) = 2 ^ 32 - 1 - unat w" by (simp add: unat_sub)
    then show ?thesis using unat_u32_less [of w] by simp
  qed
  have "wval (base_uint_not (w # ws)) + wval (w # ws) + 1
      = (unat (NOT w) + unat w + 1) + 2 ^ 32 * (wval (base_uint_not ws) + wval ws)"
    by (simp add: base_uint_not_def distrib_left)
  also have "\<dots> = 2 ^ 32 * (wval (base_uint_not ws) + wval ws + 1)"
    unfolding w by simp
  also have "\<dots> = 2 ^ (32 * length (w # ws))"
    unfolding Cons.IH by (simp add: power_add)
  finally show ?case .
qed

lemma length_base_uint_neg [simp]: "length (base_uint_neg pn) = length pn"
  by (simp add: base_uint_neg_def)

lemma wval_base_uint_neg: "wval (base_uint_neg pn) = (2 ^ (32 * length pn) - wval pn) mod 2 ^ (32 * length pn)"
proof -
  have "wval (base_uint_not pn) + 1 = 2 ^ (32 * length pn) - wval pn"
    using wval_base_uint_not [of pn] by simp
  then show ?thesis by (simp only: base_uint_neg_def wval_base_uint_incr length_base_uint_not)
qed

lemma length_base_uint_sub [simp]: "length pn = length b \<Longrightarrow> length (base_uint_sub pn b) = length pn"
  by (simp add: base_uint_sub_def)

lemma wval_base_uint_sub:
  assumes "length pn = length b"
  shows "wval (base_uint_sub pn b) = (wval pn + (2 ^ (32 * length pn) - wval b)) mod 2 ^ (32 * length pn)"
  using assms by (simp only: base_uint_sub_def wval_base_uint_add wval_base_uint_neg length_base_uint_neg mod_add_right_eq)

lemma wval_base_uint_sub_le:
  assumes "length pn = length b" "wval b \<le> wval pn"
  shows "wval (base_uint_sub pn b) = wval pn - wval b"
proof -
  have pn: "wval pn < 2 ^ (32 * length pn)" using wval_less [of pn] by simp
  have "wval pn + (2 ^ (32 * length pn) - wval b) = (wval pn - wval b) + 2 ^ (32 * length pn)"
    using assms(2) pn by simp
  then show ?thesis
    using pn by (simp only: wval_base_uint_sub [OF assms(1)] mod_add_self2) simp
qed

section \<open>Multiplication\<close>

lemma length_base_uint_mul_inner [simp]:
  "length pn \<le> length b \<Longrightarrow> length (base_uint_mul_inner aj c pn b) = length pn"
  by (induction aj c pn b rule: base_uint_mul_inner.induct) (simp_all add: Let_def)

lemma wval_base_uint_mul_inner:
  "length pn \<le> length b \<Longrightarrow> unat c < 2 ^ 32 \<Longrightarrow>
   wval (base_uint_mul_inner aj c pn b) = (unat c + wval pn + unat aj * wval b) mod 2 ^ (32 * length pn)"
proof (induction aj c pn b rule: base_uint_mul_inner.induct)
  case (1 aj carry p pn b bs)
  define n where "n = carry + ucast p + ucast aj * ucast b"
  have n: "unat n = unat carry + unat p + unat aj * unat b" and nb: "unat n < 2 ^ 64"
    using unat_mul_step [OF "1.prems"(2), of p aj b] by (simp_all add: n_def)
  have "unat n div 2 ^ 32 < 2 ^ 32"
    using nb by (simp add: less_mult_imp_div_less)
  then have "unat (drop_bit 32 n) < 2 ^ 32" by (simp only: unat_high32)
  with "1.IH" [OF n_def] "1.prems"(1)
  have "wval (base_uint_mul_inner aj (drop_bit 32 n) pn bs)
      = (unat n div 2 ^ 32 + (wval pn + unat aj * wval bs)) mod 2 ^ (32 * length pn)"
    by (simp add: add.assoc)
  moreover have "wval (base_uint_mul_inner aj carry (p # pn) (b # bs))
      = unat n mod 2 ^ 32 + 2 ^ 32 * wval (base_uint_mul_inner aj (drop_bit 32 n) pn bs)"
    unfolding base_uint_mul_inner.simps Let_def n_def [symmetric] wval_Cons unat_low32 by simp
  ultimately have "wval (base_uint_mul_inner aj carry (p # pn) (b # bs))
      = (unat n + 2 ^ 32 * (wval pn + unat aj * wval bs)) mod (2 ^ 32 * 2 ^ (32 * length pn))"
    by (simp only: digit_carry_step)
  also have "unat n + 2 ^ 32 * (wval pn + unat aj * wval bs)
      = unat carry + wval (p # pn) + unat aj * wval (b # bs)"
    by (simp add: n distrib_left)
  also have "2 ^ 32 * 2 ^ (32 * length pn) = (2 ^ (32 * length (p # pn)) :: nat)"
    by (simp add: power_add)
  finally show ?case .
qed auto

lemma wval_base_uint_mul_step:
  assumes "length pn \<le> length b" "j < length pn"
  shows "wval (take j pn @ base_uint_mul_inner aj 0 (drop j pn) b)
       = (wval pn + 2 ^ (32 * j) * unat aj * wval b) mod 2 ^ (32 * length pn)"
proof -
  let ?W = "length pn"
  have inner: "wval (base_uint_mul_inner aj 0 (drop j pn) b)
      = (wval (drop j pn) + unat aj * wval b) mod 2 ^ (32 * (?W - j))"
    using assms by (simp add: wval_base_uint_mul_inner)
  have W: "(2 ^ (32 * j) * 2 ^ (32 * (?W - j)) :: nat) = 2 ^ (32 * ?W)"
    using assms(2) by (simp flip: power_add)
  have tk: "wval (take j pn) < 2 ^ (32 * j)"
    using wval_less [of "take j pn"] assms(2) by (simp add: min_absorb2)
  have pn: "wval pn = wval (take j pn) + 2 ^ (32 * j) * wval (drop j pn)"
    using wval_append [of "take j pn" "drop j pn"] assms(2) by (simp add: min_absorb2)
  have "wval (take j pn @ base_uint_mul_inner aj 0 (drop j pn) b)
      = wval (take j pn) + 2 ^ (32 * j) * ((wval (drop j pn) + unat aj * wval b) mod 2 ^ (32 * (?W - j)))"
    unfolding wval_append inner using assms(2) by (simp add: min_absorb2)
  also have "\<dots> = (wval (take j pn) + 2 ^ (32 * j) * (wval (drop j pn) + unat aj * wval b))
      mod (2 ^ (32 * j) * 2 ^ (32 * (?W - j)))"
    using digit_carry_step [of "wval (take j pn)" "2 ^ (32 * j)"] tk by simp
  also have "wval (take j pn) + 2 ^ (32 * j) * (wval (drop j pn) + unat aj * wval b)
      = wval pn + 2 ^ (32 * j) * unat aj * wval b"
    by (subst pn) (simp only: distrib_left mult.assoc add.assoc)
  finally show ?thesis by (simp only: W)
qed

text \<open>
  After \<open>j\<close> iterations of the outer loop the accumulator holds the product of \<open>b\<close> with the \<open>j\<close>
  low limbs of \<open>a\<close>, modulo the width.
\<close>

lemma base_uint_mul_outer:
  assumes "length a \<le> length b" "j \<le> length a"
  shows "length (fold (\<lambda>j pn. take j pn @ base_uint_mul_inner (a ! j) 0 (drop j pn) b) [0..<j]
            (replicate (length a) 0)) = length a
       \<and> wval (fold (\<lambda>j pn. take j pn @ base_uint_mul_inner (a ! j) 0 (drop j pn) b) [0..<j]
            (replicate (length a) 0)) = (wval (take j a) * wval b) mod 2 ^ (32 * length a)"
  (is "length (?F j) = _ \<and> _")
  using assms(2)
proof (induction j)
  case 0
  then show ?case by simp
next
  case (Suc j)
  let ?P = "?F j" and ?W = "length a"
  from Suc have j: "j < ?W" and len: "length ?P = ?W"
    and val: "wval ?P = (wval (take j a) * wval b) mod 2 ^ (32 * ?W)" by simp_all
  have step: "?F (Suc j) = take j ?P @ base_uint_mul_inner (a ! j) 0 (drop j ?P) b" by simp
  have "wval (?F (Suc j)) = (wval ?P + 2 ^ (32 * j) * unat (a ! j) * wval b) mod 2 ^ (32 * ?W)"
    unfolding step using wval_base_uint_mul_step [of ?P b j "a ! j"] assms(1) j by (simp only: len)
  also have "\<dots> = (wval (take j a) * wval b + 2 ^ (32 * j) * unat (a ! j) * wval b) mod 2 ^ (32 * ?W)"
    unfolding val by (rule mod_add_left_eq)
  also have "wval (take j a) * wval b + 2 ^ (32 * j) * unat (a ! j) * wval b = wval (take (Suc j) a) * wval b"
    using j by (simp only: take_Suc_conv_app_nth wval_append) (simp add: min_absorb2 distrib_right)
  finally have "wval (?F (Suc j)) = (wval (take (Suc j) a) * wval b) mod 2 ^ (32 * ?W)" .
  moreover have "length (?F (Suc j)) = ?W"
    unfolding step using assms(1) j len by simp
  ultimately show ?case by simp
qed

lemma length_base_uint_mul: "length a = length b \<Longrightarrow> length (base_uint_mul a b) = length a"
  using base_uint_mul_outer [of a b "length a"] by (simp add: base_uint_mul_def)

lemma wval_base_uint_mul:
  "length a = length b \<Longrightarrow> wval (base_uint_mul a b) = (wval a * wval b) mod 2 ^ (32 * length a)"
  using base_uint_mul_outer [of a b "length a"] by (simp add: base_uint_mul_def)

lemma length_base_uint_mul32 [simp]: "length (base_uint_mul32 pn b32) = length pn"
proof -
  have "length (base_uint_mul32_loop b32 c pn) = length pn" for c
    by (induction pn arbitrary: c) (simp_all add: Let_def)
  then show ?thesis by (simp add: base_uint_mul32_def)
qed

lemma wval_base_uint_mul32_loop:
  "unat c < 2 ^ 32 \<Longrightarrow>
   wval (base_uint_mul32_loop b32 c pn) = (unat c + unat b32 * wval pn) mod 2 ^ (32 * length pn)"
proof (induction pn arbitrary: c)
  case Nil
  then show ?case by simp
next
  case (Cons p pn)
  define n where "n = c + ucast b32 * ucast p"
  have n: "unat n = unat c + unat b32 * unat p" and nb: "unat n < 2 ^ 64"
    using unat_mul_step [OF Cons.prems, of 0 b32 p] by (simp_all add: n_def)
  have "unat n div 2 ^ 32 < 2 ^ 32"
    using nb by (simp add: less_mult_imp_div_less)
  then have "unat (drop_bit 32 n) < 2 ^ 32" by (simp only: unat_high32)
  then have "wval (base_uint_mul32_loop b32 (drop_bit 32 n) pn)
      = (unat n div 2 ^ 32 + unat b32 * wval pn) mod 2 ^ (32 * length pn)"
    by (simp only: Cons.IH unat_high32)
  moreover have "wval (base_uint_mul32_loop b32 c (p # pn))
      = unat n mod 2 ^ 32 + 2 ^ 32 * wval (base_uint_mul32_loop b32 (drop_bit 32 n) pn)"
    unfolding base_uint_mul32_loop.simps Let_def n_def [symmetric] wval_Cons unat_low32 by simp
  ultimately have "wval (base_uint_mul32_loop b32 c (p # pn))
      = (unat n + 2 ^ 32 * (unat b32 * wval pn)) mod (2 ^ 32 * 2 ^ (32 * length pn))"
    by (simp only: digit_carry_step)
  also have "unat n + 2 ^ 32 * (unat b32 * wval pn) = unat c + unat b32 * wval (p # pn)"
    by (simp add: n distrib_left)
  also have "2 ^ 32 * 2 ^ (32 * length pn) = (2 ^ (32 * length (p # pn)) :: nat)"
    by (simp add: power_add)
  finally show ?case .
qed

lemma wval_base_uint_mul32: "wval (base_uint_mul32 pn b32) = (wval pn * unat b32) mod 2 ^ (32 * length pn)"
  by (simp add: base_uint_mul32_def wval_base_uint_mul32_loop mult.commute)

section \<open>Comparison and bit length\<close>

lemma lex_digit_less:
  fixes x y p b m :: nat
  assumes "x < m" "p < b"
  shows "x + m * p < y + m * b"
proof -
  have "x + m * p < m + m * p" using assms(1) by simp
  also have "\<dots> = m * Suc p" by simp
  also have "\<dots> \<le> m * b" using assms(2) by (intro mult_le_mono2) simp
  finally show ?thesis by simp
qed

lemma base_uint_compare_loop_correct:
  "length ps = length bs \<Longrightarrow>
   base_uint_compare_loop ps bs = sgn (int (wval (rev ps)) - int (wval (rev bs)))"
proof (induction ps bs rule: base_uint_compare_loop.induct)
  case (1 p ps b bs)
  let ?M = "2 ^ (32 * length ps) :: nat"
  have len: "length ps = length bs" using "1.prems" by simp
  have x: "wval (rev ps) < ?M" "wval (rev bs) < ?M"
    using wval_less [of "rev ps"] wval_less [of "rev bs"] len by simp_all
  have v: "wval (rev (p # ps)) = wval (rev ps) + ?M * unat p"
    "wval (rev (b # bs)) = wval (rev bs) + ?M * unat b"
    using len by (simp_all add: wval_append)
  consider "p < b" | "b < p" | "p = b" by fastforce
  then show ?case
  proof cases
    case 1
    then have "wval (rev (p # ps)) < wval (rev (b # bs))"
      unfolding v by (intro lex_digit_less x) (simp add: word_less_nat_alt)
    with 1 show ?thesis by (simp only: base_uint_compare_loop.simps if_True) (simp add: sgn_if)
  next
    case 2
    then have "wval (rev (b # bs)) < wval (rev (p # ps))"
      unfolding v by (intro lex_digit_less x) (simp add: word_less_nat_alt)
    with 2 show ?thesis by (simp add: sgn_if del: rev.simps)
  next
    case 3
    with "1.IH" len v show ?thesis by simp
  qed
qed auto

lemma base_uint_CompareTo_correct:
  "length a = length b \<Longrightarrow> base_uint_CompareTo a b = sgn (int (wval a) - int (wval b))"
  by (simp add: base_uint_CompareTo_def base_uint_compare_loop_correct)

lemma base_uint_compare_simps:
  assumes "length a = length b"
  shows "base_uint_CompareTo a b < 0 \<longleftrightarrow> wval a < wval b"
    and "base_uint_CompareTo a b \<le> 0 \<longleftrightarrow> wval a \<le> wval b"
    and "0 < base_uint_CompareTo a b \<longleftrightarrow> wval b < wval a"
    and "0 \<le> base_uint_CompareTo a b \<longleftrightarrow> wval b \<le> wval a"
    and "base_uint_CompareTo a b = 0 \<longleftrightarrow> a = b"
  using assms wval_inject [OF assms]
  by (auto simp: base_uint_CompareTo_correct sgn_if)

definition bit_length_of :: "nat \<Rightarrow> nat \<Rightarrow> bool" where
  "bit_length_of v n \<longleftrightarrow> (if n = 0 then v = 0 else 2 ^ (n - 1) \<le> v \<and> v < 2 ^ n)"

lemma bit_length_of_Suc: "bit_length_of v (Suc n) \<longleftrightarrow> 2 ^ n \<le> v \<and> v < 2 ^ Suc n"
  by (simp add: bit_length_of_def)

lemma bit_length_of_unique: "bit_length_of v m \<Longrightarrow> bit_length_of v n \<Longrightarrow> m = n"
proof (induction m n rule: linorder_wlog)
  case (le a b)
  show ?case
  proof (rule ccontr)
    assume "a \<noteq> b"
    with le have "a \<le> b - 1" "0 < b" by simp_all
    then have "(2::nat) ^ a \<le> 2 ^ (b - 1)" by (intro power_increasing) simp_all
    moreover have "v < 2 ^ a" using le(2) by (auto simp: bit_length_of_def split: if_splits)
    moreover have "2 ^ (b - 1) \<le> v" using le(3) \<open>0 < b\<close> by (simp add: bit_length_of_def)
    ultimately show False by linarith
  qed
qed auto

lemma base_uint_bits_limb_correct:
  "w \<noteq> 0 \<Longrightarrow> unat w < 2 ^ Suc n \<Longrightarrow> \<exists>k. base_uint_bits_limb n w pos = 32 * pos + Suc k \<and> bit_length_of (unat w) (Suc k)"
proof (induction n)
  case 0
  then have "unat w = 1" by (simp add: unat_eq_0 less_2_cases_iff)
  then show ?case by (auto simp: bit_length_of_def)
next
  case (Suc n)
  show ?case
  proof (cases "bit w (Suc n)")
    case True
    then have "bit (unat w) (Suc n)" by (simp add: bit_unsigned_iff bit_imp_le_length)
    then have "2 ^ Suc n \<le> unat w"
      by (metis bit_nat_iff div_less drop_bit_eq_div even_drop_bit_iff_not_bit even_zero linorder_not_less)
    with Suc.prems(2) have "bit_length_of (unat w) (Suc (Suc n))" by (simp add: bit_length_of_def)
    moreover have "w AND push_bit (Suc n) 1 \<noteq> 0"
      using True by (simp only: push_bit_of_1 and_exp_eq_0_iff_not_bit) simp
    ultimately show ?thesis by (intro exI [of _ "Suc n"]) (simp del: push_bit_Suc)
  next
    case False
    then have z: "w AND push_bit (Suc n) 1 = 0"
      by (simp only: push_bit_of_1 and_exp_eq_0_iff_not_bit) simp
    have "unat w < 2 ^ Suc n"
    proof (rule ccontr)
      assume "\<not> unat w < 2 ^ Suc n"
      with Suc.prems(2) have "unat w div 2 ^ Suc n = 1"
        by (intro div_nat_eqI) simp_all
      then have "bit (unat w) (Suc n)" by (simp only: bit_iff_odd) simp
      with False show False by (simp add: bit_unsigned_iff)
    qed
    with Suc.IH Suc.prems(1) z show ?thesis by (simp del: push_bit_Suc)
  qed
qed

lemma base_uint_bits_loop_correct: "bit_length_of (wval (rev ws)) (base_uint_bits_loop ws)"
proof (induction ws)
  case Nil
  then show ?case by (simp add: bit_length_of_def)
next
  case (Cons w ws)
  let ?L = "32 * length ws"
  have v: "wval (rev (w # ws)) = wval (rev ws) + 2 ^ ?L * unat w" by (simp add: wval_append)
  show ?case
  proof (cases "w = 0")
    case True
    with Cons v show ?thesis by simp
  next
    case False
    then obtain k where k: "base_uint_bits_limb 31 w (length ws) = ?L + Suc k" "bit_length_of (unat w) (Suc k)"
      using base_uint_bits_limb_correct [of w 31 "length ws"] unat_u32_less [of w] by auto
    have lo: "wval (rev ws) < 2 ^ ?L" using wval_less [of "rev ws"] by simp
    have "2 ^ ?L * 2 ^ k \<le> 2 ^ ?L * unat w" using k(2) by (simp add: bit_length_of_Suc)
    moreover have "2 ^ ?L * (unat w + 1) \<le> 2 ^ ?L * 2 ^ Suc k"
      using k(2) unfolding bit_length_of_Suc by (intro mult_le_mono2) simp
    ultimately have "2 ^ (?L + k) \<le> wval (rev (w # ws)) \<and> wval (rev (w # ws)) < 2 ^ (?L + Suc k)"
      unfolding v power_add distrib_left using lo by linarith
    then have "bit_length_of (wval (rev (w # ws))) (Suc (?L + k))" by (simp only: bit_length_of_Suc) simp
    with False k(1) show ?thesis by simp
  qed
qed

lemma base_uint_bits_correct: "bit_length_of (wval pn) (base_uint_bits pn)"
  using base_uint_bits_loop_correct [of "rev pn"] by (simp add: base_uint_bits_def)

lemma base_uint_bits_le: "base_uint_bits pn \<le> 32 * length pn"
proof (rule ccontr)
  assume "\<not> ?thesis"
  then have lt: "32 * length pn \<le> base_uint_bits pn - 1" "0 < base_uint_bits pn" by simp_all
  then have "(2::nat) ^ (32 * length pn) \<le> 2 ^ (base_uint_bits pn - 1)" by (intro power_increasing) simp_all
  also have "\<dots> \<le> wval pn" using base_uint_bits_correct [of pn] lt(2) by (simp add: bit_length_of_def)
  finally show False using wval_less [of pn] by simp
qed

section \<open>Shifts\<close>

text \<open>The limb of a left shift as the code assembles it: the low part and the bits carried in.\<close>

definition shl_limb :: "base_uint \<Rightarrow> nat \<Rightarrow> nat \<Rightarrow> nat \<Rightarrow> nat \<Rightarrow> u32" where
  "shl_limb a k shift n j =
     (if k \<le> j \<and> j - k < n then push_bit shift (a ! (j - k)) else 0) OR
     (if shift \<noteq> 0 \<and> k + 1 \<le> j \<and> j - k - 1 < n then drop_bit (32 - shift) (a ! (j - k - 1)) else 0)"

definition shr_limb :: "base_uint \<Rightarrow> nat \<Rightarrow> nat \<Rightarrow> nat \<Rightarrow> nat \<Rightarrow> u32" where
  "shr_limb a k shift n j =
     (if j + k < n then drop_bit shift (a ! (j + k)) else 0) OR
     (if shift \<noteq> 0 \<and> j + k + 1 < n then push_bit (32 - shift) (a ! (j + k + 1)) else 0)"

lemma div_mod_limb:
  "r < 32 \<Longrightarrow> (32 * q + r) div 32 = q \<and> (32 * q + r) mod 32 = r" for q r :: nat
  by simp

lemma shl_limb_Suc:
  "shl_limb a k t (Suc n) j =
     (if j = n + k then shl_limb a k t n j OR push_bit t (a ! n)
      else if j = n + k + 1 \<and> t \<noteq> 0 then shl_limb a k t n j OR drop_bit (32 - t) (a ! n)
      else shl_limb a k t n j)"
proof -
  consider "j = n + k" | "j = n + k + 1" | "j < n + k" | "j > n + k + 1" by linarith
  then show ?thesis
    by cases (auto simp: shl_limb_def or.commute)
qed

lemma shr_limb_Suc:
  "shr_limb a k t (Suc n) j =
     (if j + k = n then shr_limb a k t n j OR drop_bit t (a ! n)
      else if j + k + 1 = n \<and> t \<noteq> 0 then shr_limb a k t n j OR push_bit (32 - t) (a ! n)
      else shr_limb a k t n j)"
proof -
  consider "n = j + k" | "n = j + k + 1" | "n < j + k" | "n > j + k + 1" by linarith
  then show ?thesis
    by cases (auto simp: shr_limb_def or.commute)
qed

lemma shl_fold_limbs:
  fixes a :: base_uint
  assumes "n \<le> length a"
  shows "fold (\<lambda>i pn.
          let pn = (if i + k + 1 < length a \<and> t \<noteq> 0
                    then pn[i + k + 1 := pn ! (i + k + 1) OR drop_bit (32 - t) (a ! i)] else pn)
          in (if i + k < length a then pn[i + k := pn ! (i + k) OR push_bit t (a ! i)] else pn))
        [0..<n] (replicate (length a) 0) = map (shl_limb a k t n) [0..<length a]"
  using assms
proof (induction n)
  case 0
  show ?case by (rule nth_equalityI) (simp_all add: shl_limb_def)
next
  case (Suc n)
  then show ?case
    by (auto intro!: nth_equalityI simp: Let_def nth_list_update shl_limb_Suc)
qed

lemma shr_limb_step:
  fixes k t :: nat
  assumes "n < length a"
  defines "pn \<equiv> map (shr_limb a k t n) [0..<length a]"
  shows "(let pn = (if k + 1 \<le> n \<and> t \<noteq> 0
                    then pn[n - k - 1 := pn ! (n - k - 1) OR push_bit (32 - t) (a ! n)] else pn)
          in (if k \<le> n then pn[n - k := pn ! (n - k) OR drop_bit t (a ! n)] else pn))
        = map (shr_limb a k t (Suc n)) [0..<length a]"
proof (rule nth_equalityI, goal_cases)
  case 1
  show ?case by (simp add: Let_def pn_def)
next
  case (2 j)
  then have j: "j < length a" by (simp add: Let_def pn_def split: if_splits)
  then show ?case
    using assms by (auto simp: Let_def nth_list_update shr_limb_Suc)
qed

lemma shr_fold_limbs:
  fixes a :: base_uint
  assumes "n \<le> length a"
  shows "fold (\<lambda>i pn.
          let pn = (if k + 1 \<le> i \<and> t \<noteq> 0
                    then pn[i - k - 1 := pn ! (i - k - 1) OR push_bit (32 - t) (a ! i)] else pn)
          in (if k \<le> i then pn[i - k := pn ! (i - k) OR drop_bit t (a ! i)] else pn))
        [0..<n] (replicate (length a) 0) = map (shr_limb a k t n) [0..<length a]"
  using assms
proof (induction n)
  case 0
  show ?case by (rule nth_equalityI) (simp_all add: shr_limb_def)
next
  case (Suc n)
  then have "n \<le> length a" "n < length a" by simp_all
  show ?case
    by (simp only: upt_Suc_append le0 fold_append fold_simps o_apply Suc.IH [OF \<open>n \<le> length a\<close>]
        shr_limb_step [OF \<open>n < length a\<close>])
qed

lemma base_uint_shl_limbs:
  "base_uint_shl a s = map (shl_limb a (s div 32) (s mod 32) (length a)) [0..<length a]"
  unfolding base_uint_shl_def Let_def
  using shl_fold_limbs [of "length a" a "s div 32" "s mod 32"] by (simp only: Let_def order_refl simp_thms)

lemma base_uint_shr_limbs:
  "base_uint_shr a s = map (shr_limb a (s div 32) (s mod 32) (length a)) [0..<length a]"
  unfolding base_uint_shr_def Let_def
  using shr_fold_limbs [of "length a" a "s div 32" "s mod 32"] by (simp only: Let_def order_refl simp_thms)

lemma length_base_uint_shl [simp]: "length (base_uint_shl a s) = length a"
  by (simp add: base_uint_shl_limbs)

lemma length_base_uint_shr [simp]: "length (base_uint_shr a s) = length a"
  by (simp add: base_uint_shr_limbs)

lemma nth_base_uint_shl: "j < length a \<Longrightarrow> base_uint_shl a s ! j = shl_limb a (s div 32) (s mod 32) (length a) j"
  by (simp add: base_uint_shl_limbs)

lemma nth_base_uint_shr: "j < length a \<Longrightarrow> base_uint_shr a s ! j = shr_limb a (s div 32) (s mod 32) (length a) j"
  by (simp add: base_uint_shr_limbs)

lemma bit_shl_limb:
  assumes "j < length a" "r < 32" "t < 32"
  shows "bit (shl_limb a k t (length a) j) r \<longleftrightarrow>
    32 * k + t \<le> 32 * j + r \<and> bit (a ! ((32 * j + r - (32 * k + t)) div 32)) ((32 * j + r - (32 * k + t)) mod 32)"
proof -
  consider "j < k" | "k \<le> j" "t \<le> r" | "k \<le> j" "r < t" "j = k" | "k < j" "r < t" by linarith
  then show ?thesis
  proof cases
    case 1
    with assms show ?thesis by (simp add: shl_limb_def)
  next
    case 2
    have "32 * j + r - (32 * k + t) = 32 * (j - k) + (r - t)" using 2 by (simp add: diff_mult_distrib2)
    moreover have "(32 * (j - k) + (r - t)) div 32 = j - k" "(32 * (j - k) + (r - t)) mod 32 = r - t"
      using assms by simp_all
    moreover have "\<not> bit (drop_bit (32 - t) (a ! (j - k - 1)) :: u32) r" if "t \<noteq> 0"
      using 2 assms that by (auto simp: bit_drop_bit_eq dest: bit_imp_le_length)
    ultimately show ?thesis
      using 2 assms by (auto simp: shl_limb_def bit_simps)
  next
    case 3
    with assms show ?thesis by (auto simp: shl_limb_def bit_simps)
  next
    case 4
    have e: "32 * j + r - (32 * k + t) = 32 * (j - k - 1) + (32 + r - t)"
      using 4 assms by (simp add: diff_mult_distrib2)
    have "32 + r - t < 32" using assms 4 by linarith
    note div_mod_limb [OF this, of "j - k - 1"]
    moreover have "32 - t + r = 32 + r - t" using assms by simp
    moreover have "32 * k + t \<le> 32 * j + r" using 4 assms by linarith
    ultimately show ?thesis
      using 4 assms unfolding e by (auto simp: shl_limb_def bit_simps)
  qed
qed

lemma bit_shr_limb:
  assumes "j < length a" "r < 32" "t < 32"
  shows "bit (shr_limb a k t (length a) j) r \<longleftrightarrow>
    (32 * (j + k) + (r + t)) div 32 < length a \<and>
      bit (a ! ((32 * (j + k) + (r + t)) div 32)) ((32 * (j + k) + (r + t)) mod 32)"
proof (cases "r + t < 32")
  case True
  have "\<not> bit (push_bit (32 - t) (a ! (j + k + 1)) :: u32) r"
    using True by (auto simp: bit_simps)
  then show ?thesis
    using True assms div_mod_limb [OF True, of "j + k"]
    by (auto simp: shr_limb_def bit_or_iff bit_drop_bit_eq o_def add.commute [of t r])
next
  case False
  have lt: "r + t - 32 < 32" using assms by linarith
  have e: "32 * (j + k) + (r + t) = 32 * (j + k + 1) + (r + t - 32)" using False by simp
  have "\<not> bit (drop_bit t (a ! (j + k)) :: u32) r"
    using False by (auto simp: bit_drop_bit_eq dest: bit_imp_le_length)
  moreover have "r - (32 - t) = r + t - 32" "t \<noteq> 0" using assms False by auto
  ultimately show ?thesis
    using False assms div_mod_limb [OF lt, of "j + k + 1"] unfolding e
    by (auto simp: shr_limb_def bit_or_iff bit_push_bit_iff)
qed

lemma wval_base_uint_shl:
  "wval (base_uint_shl a s) = take_bit (32 * length a) (push_bit s (wval a))"
proof (rule bit_eqI)
  fix n :: nat
  have s: "s = 32 * (s div 32) + s mod 32" by simp
  have n: "32 * (n div 32) + n mod 32 = n" by simp
  show "bit (wval (base_uint_shl a s)) n = bit (take_bit (32 * length a) (push_bit s (wval a))) n"
  proof (cases "n div 32 < length a")
    case True
    have "n < 32 * length a" using True by linarith
    moreover have "(n - s) div 32 < length a" using True by linarith
    ultimately show ?thesis
      using True bit_shl_limb [of "n div 32" a "n mod 32" "s mod 32" "s div 32"]
      unfolding n s [symmetric] by (auto simp: bit_wval_iff bit_simps nth_base_uint_shl)
  next
    case False
    then have "\<not> n < 32 * length a" by linarith
    with False show ?thesis by (simp add: bit_wval_iff bit_simps)
  qed
qed

lemma wval_base_uint_shr: "wval (base_uint_shr a s) = drop_bit s (wval a)"
proof (rule bit_eqI)
  fix n :: nat
  have e: "32 * (n div 32 + s div 32) + (n mod 32 + s mod 32) = s + n" by simp
  show "bit (wval (base_uint_shr a s)) n = bit (drop_bit s (wval a)) n"
  proof (cases "n div 32 < length a")
    case True
    then show ?thesis
      using bit_shr_limb [of "n div 32" a "n mod 32" "s mod 32" "s div 32"]
      unfolding e by (auto simp: bit_wval_iff bit_simps nth_base_uint_shr)
  next
    case False
    then have "\<not> (s + n) div 32 < length a" by linarith
    with False show ?thesis by (simp add: bit_wval_iff bit_simps)
  qed
qed

section \<open>Division\<close>

lemma wval_set_bit:
  fixes pn :: base_uint
  assumes "s < 32 * length pn" "2 ^ Suc s dvd wval pn"
  shows "wval (pn[s div 32 := pn ! (s div 32) OR push_bit (s mod 32) 1]) = wval pn + 2 ^ s"
proof -
  have k: "s div 32 < length pn" using assms(1) by linarith
  have "wval (pn[s div 32 := pn ! (s div 32) OR push_bit (s mod 32) 1]) = wval pn OR 2 ^ s"
  proof (rule bit_eqI)
    fix n :: nat
    have "n = s \<longleftrightarrow> n div 32 = s div 32 \<and> n mod 32 = s mod 32"
      by (metis div_mult_mod_eq)
    then show "bit (wval (pn[s div 32 := pn ! (s div 32) OR push_bit (s mod 32) 1])) n = bit (wval pn OR 2 ^ s) n"
      using k by (auto simp: bit_wval_iff bit_or_iff bit_exp_iff nth_list_update bit_push_bit_iff bit_1_iff)
  qed
  also have "\<dots> = wval pn + 2 ^ s"
  proof (rule disjunctive_add_eq_or [symmetric])
    have "\<not> bit (wval pn) s"
      using assms(2) by (auto simp: bit_iff_odd mult.assoc mult.left_commute [of 2])
    then show "wval pn AND 2 ^ s = 0"
      by (intro bit_eqI) (auto simp: bit_and_iff bit_exp_iff)
  qed
  finally show ?thesis .
qed

lemma base_uint_div_loop_correct:
  assumes "length dv = length num" "length pn = length num" "n \<le> 32 * length num"
    and "\<And>s. n = Suc s \<Longrightarrow> wval dv = D * 2 ^ s"
    and "wval num < D * 2 ^ n" "2 ^ n dvd wval pn" "0 < D"
  shows "wval (fst (base_uint_div_loop n dv num pn)) = wval pn + wval num div D
       \<and> wval (snd (base_uint_div_loop n dv num pn)) = wval num mod D
       \<and> length (fst (base_uint_div_loop n dv num pn)) = length num"
  using assms
proof (induction n arbitrary: dv num pn)
  case 0
  then show ?case by simp
next
  case (Suc s)
  have dv: "wval dv = D * 2 ^ s" using Suc.prems(4) by simp
  have next_dv: "wval (base_uint_shr dv 1) = D * 2 ^ t" if "s = Suc t" for t
    using that dv by (simp add: wval_base_uint_shr drop_bit_eq_div)
  show ?case
  proof (cases "wval dv \<le> wval num")
    case True
    let ?num = "base_uint_sub num dv"
      and ?pn = "pn[s div 32 := pn ! (s div 32) OR push_bit (s mod 32) 1]"
    have num: "wval ?num = wval num - D * 2 ^ s"
      using True Suc.prems(1) dv by (simp add: wval_base_uint_sub_le)
    have pn: "wval ?pn = wval pn + 2 ^ s"
      using Suc.prems by (intro wval_set_bit) simp_all
    have "2 ^ s dvd wval ?pn"
      unfolding pn using Suc.prems(6) by (auto dest: dvd_mult_right)
    moreover have "wval ?num < D * 2 ^ s" using Suc.prems(5) True unfolding num dv by simp
    moreover have "wval num = wval ?num + D * 2 ^ s" using True unfolding num dv by simp
    then have "wval num div D = 2 ^ s + wval ?num div D" "wval num mod D = wval ?num mod D"
      using Suc.prems(7) by simp_all
    ultimately show ?thesis
      using Suc.IH [of "base_uint_shr dv 1" ?num ?pn] Suc.prems True next_dv pn
      by (simp add: base_uint_compare_simps)
  next
    case False
    have "2 ^ s dvd wval pn" using Suc.prems(6) by (auto dest: dvd_mult_right)
    then show ?thesis
      using Suc.IH [of "base_uint_shr dv 1" num pn] Suc.prems False next_dv dv
      by (simp add: base_uint_compare_simps)
  qed
qed

lemma base_uint_div_by_zero: "wval b = 0 \<Longrightarrow> base_uint_div a b = Inl DivisionByZero"
  using base_uint_bits_correct [of b] bit_length_of_unique [of 0 0 "base_uint_bits b"]
  by (simp add: base_uint_div_def bit_length_of_def [of 0 0])

lemma wval_base_uint_div:
  assumes "length a = length b" "0 < wval b"
  shows "\<exists>q. base_uint_div a b = Inr q \<and> wval q = wval a div wval b \<and> length q = length a"
proof -
  define m where "m = base_uint_bits a"
  define n where "n = base_uint_bits b"
  have ba: "bit_length_of (wval a) m" and bb: "bit_length_of (wval b) n"
    by (simp_all add: m_def n_def base_uint_bits_correct)
  have n0: "n \<noteq> 0" using bb assms(2) by (auto simp: bit_length_of_def split: if_splits)
  have lo: "2 ^ (n - 1) \<le> wval b" and hi: "wval a < 2 ^ m"
    using ba bb n0 by (auto simp: bit_length_of_def split: if_splits)
  show ?thesis
  proof (cases "m < n")
    case True
    have "(2::nat) ^ m \<le> 2 ^ (n - 1)" using True by (intro power_increasing) auto
    then have "wval a < wval b" using lo hi by linarith
    then show ?thesis
      using True n0 unfolding base_uint_div_def m_def n_def by (simp add: Let_def wval_replicate_0)
  next
    case False
    define s where "s = m - n"
    have m: "m = n + s" using False by (simp add: s_def)
    have m_le: "m \<le> 32 * length a" by (simp add: m_def base_uint_bits_le)
    have b_lt: "wval b < 2 ^ n" using bb n0 by (simp add: bit_length_of_def)
    have "wval b * 2 ^ s < 2 ^ m"
      using b_lt by (simp add: m power_add)
    also have "(2::nat) ^ m \<le> 2 ^ (32 * length b)" using m_le assms(1) by (intro power_increasing) simp_all
    finally have dv: "wval (base_uint_shl b s) = wval b * 2 ^ s"
      by (simp add: wval_base_uint_shl push_bit_eq_mult take_bit_nat_eq_self)
    have "wval a < wval b * 2 ^ Suc s"
    proof -
      have "(2::nat) ^ m = 2 ^ (n - 1) * 2 ^ Suc s"
        using n0 unfolding m by (cases n) (simp_all add: power_add)
      also have "\<dots> \<le> wval b * 2 ^ Suc s" using lo by (intro mult_le_mono1)
      finally show ?thesis using hi by linarith
    qed
    moreover have "Suc s \<le> 32 * length a" using m_le m n0 by linarith
    ultimately have "wval (fst (base_uint_div_loop (Suc s) (base_uint_shl b s) a (replicate (length a) 0)))
        = wval a div wval b"
      and "length (fst (base_uint_div_loop (Suc s) (base_uint_shl b s) a (replicate (length a) 0))) = length a"
      using base_uint_div_loop_correct [of "base_uint_shl b s" a "replicate (length a) 0" "Suc s" "wval b"]
        assms dv by (simp_all add: wval_replicate_0)
    moreover have "base_uint_div a b =
        Inr (fst (base_uint_div_loop (Suc s) (base_uint_shl b s) a (replicate (length a) 0)))"
      using n0 False by (simp only: base_uint_div_def m_def [symmetric] n_def [symmetric] s_def Let_def if_False)
    ultimately show ?thesis by blast
  qed
qed

section \<open>The compact encoding\<close>

definition compact_exponent :: "u32 \<Rightarrow> nat" where
  "compact_exponent c = unat c div 2 ^ 24"

definition compact_mantissa :: "u32 \<Rightarrow> nat" where
  "compact_mantissa c = unat c mod 2 ^ 23"

definition compact_value :: "u32 \<Rightarrow> nat" where
  "compact_value c =
     (if compact_exponent c \<le> 3 then compact_mantissa c div 256 ^ (3 - compact_exponent c)
      else compact_mantissa c * 256 ^ (compact_exponent c - 3))"

lemma power_256: "(256 :: nat) ^ n = 2 ^ (8 * n)"
  by (simp add: power_mult)

lemma unat_compact_word: "unat (c AND 0x007fffff :: u32) = compact_mantissa c"
proof -
  have "c AND 0x007fffff = take_bit 23 c"
    by (simp add: take_bit_eq_mask mask_numeral)
  then have "unat (c AND 0x007fffff) = take_bit 23 (unat c)" by (simp only: unsigned_take_bit_eq)
  then show ?thesis by (simp add: compact_mantissa_def take_bit_eq_mod)
qed

lemma unat_compact_size: "unat (drop_bit 24 c :: u32) = compact_exponent c"
  by (simp only: unat_drop_bit_eq) (simp add: drop_bit_eq_div compact_exponent_def)

lemma wval_base_uint_of_u64: "2 \<le> width \<Longrightarrow> wval (base_uint_of_u64 width b) = unat b"
proof -
  have "unat (ucast b :: u32) = unat b mod 2 ^ 32"
    by (simp add: unsigned_ucast_eq take_bit_eq_mod)
  moreover have "unat (ucast (drop_bit 32 b) :: u32) = unat b div 2 ^ 32"
  proof -
    have "unat b div 2 ^ 32 < 2 ^ 32" using unsigned_less [of b] by (simp add: div_less_iff_less_mult)
    then show ?thesis
      by (simp only: unsigned_ucast_eq unat_high32) (simp add: take_bit_nat_eq_self_iff)
  qed
  ultimately show ?thesis
    by (simp only: base_uint_of_u64_def wval_Cons wval_replicate_0) simp
qed

lemma length_base_uint_of_u64 [simp]: "2 \<le> width \<Longrightarrow> length (base_uint_of_u64 width b) = width"
  by (simp add: base_uint_of_u64_def)

lemma unat_base_uint_GetLow64:
  assumes "2 \<le> length pn"
  shows "unat (base_uint_GetLow64 pn) = wval pn mod 2 ^ 64"
proof -
  obtain p q ws where pn: "pn = p # q # ws" using assms by (metis Suc_le_length_iff numeral_2_eq_2)
  have e: "wval pn = (unat p + 2 ^ 32 * unat q) + 2 ^ 64 * wval ws" by (simp add: pn)
  have lt: "unat p + 2 ^ 32 * unat q < 2 ^ 64" using unat_u32_less [of p] unat_u32_less [of q] by simp
  have "unat (ucast p OR push_bit 32 (ucast q) :: u64) = unat p OR take_bit 64 (push_bit 32 (unat q))"
    by (simp add: unsigned_or_eq unsigned_push_bit_eq)
  also have "take_bit 64 (push_bit 32 (unat q)) = push_bit 32 (unat q)"
    using unat_u32_less [of q] by (simp add: take_bit_nat_eq_self_iff push_bit_eq_mult)
  also have "unat p OR push_bit 32 (unat q) = unat p + push_bit 32 (unat q)"
  proof (rule disjunctive_add_eq_or [symmetric], rule bit_eqI)
    fix n show "bit (unat p AND push_bit 32 (unat q)) n = bit 0 n"
      by (auto simp: bit_simps dest: bit_imp_le_length)
  qed
  finally show ?thesis
    using lt unfolding e by (simp only: pn base_uint_GetLow64_def) (simp add: push_bit_eq_mult mult.commute)
qed

lemma fst_SetCompact:
  "wval (fst (SetCompact c)) = compact_value c mod 2 ^ 256" "length (fst (SetCompact c)) = 8"
proof -
  have m: "compact_mantissa c < 2 ^ 23" by (simp add: compact_mantissa_def)
  show "wval (fst (SetCompact c)) = compact_value c mod 2 ^ 256"
  proof (cases "compact_exponent c \<le> 3")
    case True
    have "unat (drop_bit (8 * (3 - compact_exponent c)) (c AND 0x007fffff)) = compact_value c"
      using True by (simp only: unat_drop_bit_eq unat_compact_word compact_value_def) (simp add: drop_bit_eq_div power_256)
    moreover have "compact_value c < 2 ^ 23"
      using True m by (auto simp: compact_value_def intro: le_less_trans [OF div_le_dividend])
    ultimately show ?thesis
      using True by (simp add: SetCompact_def Let_def unat_compact_size WIDTH256_def wval_base_uint_of_u64)
  next
    case False
    then show ?thesis
      by (simp add: SetCompact_def Let_def unat_compact_size WIDTH256_def wval_base_uint_of_u64 
           wval_base_uint_shl unat_compact_word compact_value_def power_256 take_bit_eq_mod push_bit_eq_mult)
  qed
  show "length (fst (SetCompact c)) = 8"
    by (simp add: SetCompact_def Let_def WIDTH256_def)
qed

lemma compact_overflow_iff:
  fixes m e :: nat
  assumes "m < 2 ^ 23" "3 < e"
  shows "2 ^ 256 \<le> m * 256 ^ (e - 3) \<longleftrightarrow>
    m \<noteq> 0 \<and> (34 < e \<or> 0xff < m \<and> 33 < e \<or> 0xffff < m \<and> 32 < e)"
proof -
  have big: "(2::nat) ^ 256 = 256 ^ k * 256 ^ (32 - k)" if "k \<le> 32" for k
  proof -
    have "8 * k + 8 * (32 - k) = 256" using that by simp
    then show ?thesis by (simp only: power_256 power_add [symmetric])
  qed
  consider "e \<le> 32" | "e = 33" | "e = 34" | "34 < e" by linarith
  then show ?thesis
  proof cases
    case 1
    have "m * 256 ^ (e - 3) < 256 ^ 3 * 256 ^ (e - 3)" using assms(1) by simp
    also have "\<dots> \<le> 256 ^ 3 * 256 ^ 29" using 1 by (intro mult_le_mono2 power_increasing) auto
    also have "\<dots> = 2 ^ 256" using big [of 3] by simp
    finally show ?thesis using 1 by (simp only: not_le [symmetric]) simp
  next
    case 2
    then show ?thesis unfolding big [of 2, simplified] by auto
  next
    case 3
    then show ?thesis unfolding big [of 1, simplified] by auto
  next
    case 4
    have "m \<noteq> 0 \<Longrightarrow> 1 * 256 ^ 32 \<le> m * 256 ^ (e - 3)"
      using 4 by (intro mult_le_mono power_increasing) auto
    moreover have "1 * 256 ^ 32 = (2::nat) ^ 256" by simp
    ultimately show ?thesis using 4 by (cases "m = 0") (simp_all only: mult_0, simp_all)
  qed
qed

lemma SetCompact_overflow:
  "snd (snd (SetCompact c)) \<longleftrightarrow> 2 ^ 256 \<le> compact_value c"
proof -
  have m: "compact_mantissa c < 2 ^ 23" by (simp add: compact_mantissa_def)
  let ?w = "c AND 0x007fffff"
  have cmp: "?w \<noteq> 0 \<longleftrightarrow> compact_mantissa c \<noteq> 0" "0xff < ?w \<longleftrightarrow> 0xff < compact_mantissa c"
    "0xffff < ?w \<longleftrightarrow> 0xffff < compact_mantissa c"
    by (simp_all add: word_less_nat_alt unat_compact_word unat_eq_0 [symmetric])
  show ?thesis
  proof (cases "compact_exponent c \<le> 3")
    case True
    have "compact_value c < 2 ^ 23"
      using True m by (auto simp: compact_value_def intro: le_less_trans [OF div_le_dividend])
    then have "\<not> 2 ^ 256 \<le> compact_value c" by simp
    with True show ?thesis
      by (simp only: SetCompact_def Let_def unat_compact_size snd_conv) simp
  next
    case False
    then have "snd (snd (SetCompact c)) \<longleftrightarrow> compact_mantissa c \<noteq> 0 \<and>
       (34 < compact_exponent c \<or> 0xff < compact_mantissa c \<and> 33 < compact_exponent c \<or>
        0xffff < compact_mantissa c \<and> 32 < compact_exponent c)"
      by (simp only: SetCompact_def Let_def unat_compact_size cmp snd_conv if_False)
    with False compact_overflow_iff [OF m, of "compact_exponent c"] show ?thesis
      by (simp add: compact_value_def)
  qed
qed

lemma and_sign_bit: "c AND 0x00800000 \<noteq> 0 \<longleftrightarrow> bit c 23" for c :: u32
proof -
  have "(0x00800000 :: u32) = 2 ^ 23" by simp
  then show ?thesis by (simp only: and_exp_eq_0_iff_not_bit) simp
qed

lemma SetCompact_negative:
  "fst (snd (SetCompact c)) \<longleftrightarrow> compact_value c \<noteq> 0 \<and> bit c 23"
proof -
  have "unat (drop_bit (8 * (3 - compact_exponent c)) (c AND 0x007fffff)) = compact_value c"
    if "compact_exponent c \<le> 3"
    using that by (simp only: unat_drop_bit_eq unat_compact_word compact_value_def) (simp add: drop_bit_eq_div power_256)
  then have a: "drop_bit (8 * (3 - compact_exponent c)) (c AND 0x007fffff) \<noteq> 0 \<longleftrightarrow> compact_value c \<noteq> 0"
    if "compact_exponent c \<le> 3"
    using that by (metis unat_eq_0)
  have b: "c AND 0x007fffff \<noteq> 0 \<longleftrightarrow> compact_mantissa c \<noteq> 0"
    by (simp add: unat_compact_word [symmetric] unat_eq_0)
  show ?thesis
  proof (cases "compact_exponent c \<le> 3")
    case True
    then show ?thesis
      by (simp only: SetCompact_def Let_def unat_compact_size and_sign_bit a snd_conv fst_conv if_True)
  next
    case False
    then show ?thesis
      by (simp only: SetCompact_def Let_def unat_compact_size and_sign_bit b snd_conv fst_conv if_False)
         (simp add: compact_value_def)
  qed
qed

text \<open>The size in bytes that \<open>GetCompact\<close> computes from the bit length.\<close>

definition byte_length_of :: "nat \<Rightarrow> nat \<Rightarrow> bool" where
  "byte_length_of v n \<longleftrightarrow> v < 256 ^ n \<and> (0 < n \<longrightarrow> 256 ^ (n - 1) \<le> v)"

lemma byte_length_of_bits: "bit_length_of v b \<Longrightarrow> byte_length_of v ((b + 7) div 8)"
proof (cases "b = 0")
  case True
  assume "bit_length_of v b"
  with True show ?thesis by (simp add: bit_length_of_def byte_length_of_def)
next
  case False
  assume v: "bit_length_of v b"
  let ?n = "(b + 7) div 8"
  have "(2::nat) ^ b \<le> 2 ^ (8 * ?n)" "(2::nat) ^ (8 * (?n - 1)) \<le> 2 ^ (b - 1)"
    using False by (intro power_increasing; simp; linarith)+
  moreover have "2 ^ (b - 1) \<le> v" "v < 2 ^ b" using v False by (simp_all add: bit_length_of_def)
  ultimately have "v < 2 ^ (8 * ?n)" "2 ^ (8 * (?n - 1)) \<le> v" by linarith+
  then show ?thesis by (simp only: byte_length_of_def power_256 simp_thms)
qed

lemma byte_length_of_unique: "byte_length_of v m \<Longrightarrow> byte_length_of v n \<Longrightarrow> m = n"
proof (induction m n rule: linorder_wlog)
  case (le m n)
  show ?case
  proof (rule ccontr)
    assume "m \<noteq> n"
    with le have "(256::nat) ^ m \<le> 256 ^ (n - 1)" "0 < n" by (auto intro!: power_increasing)
    moreover have "v < 256 ^ m" "0 < n \<longrightarrow> 256 ^ (n - 1) \<le> v" using le by (simp_all add: byte_length_of_def)
    ultimately show False by linarith
  qed
next
  case (sym m n)
  then show ?case by blast
qed

definition compact_scaled :: "nat \<Rightarrow> nat \<Rightarrow> nat" where
  "compact_scaled v n = (if n \<le> 3 then v * 256 ^ (3 - n) else v div 256 ^ (n - 3))"

definition compact_pair :: "nat \<Rightarrow> nat \<Rightarrow> nat \<times> nat" where
  "compact_pair v n = (if 2 ^ 23 \<le> compact_scaled v n then (compact_scaled v n div 256, n + 1) else (compact_scaled v n, n))"

lemma compact_scaled_bounds:
  assumes "byte_length_of v n"
  shows "compact_scaled v n < 2 ^ 24" "0 < n \<Longrightarrow> 2 ^ 16 \<le> compact_scaled v n"
proof -
  have up: "(256::nat) ^ 3 = 256 ^ (3 - n) * 256 ^ n" if "n \<le> 3" using that by (simp only: power_add [symmetric]) simp
  have dn: "(256::nat) ^ n = 256 ^ 3 * 256 ^ (n - 3)" if "\<not> n \<le> 3" using that by (simp only: power_add [symmetric]) simp
  show "compact_scaled v n < 2 ^ 24"
  proof (cases "n \<le> 3")
    case True
    have "v * 256 ^ (3 - n) < 256 ^ n * 256 ^ (3 - n)"
      using assms by (simp add: byte_length_of_def)
    with up [OF True] True show ?thesis by (simp add: compact_scaled_def mult.commute)
  next
    case False
    then have "v div 256 ^ (n - 3) < 256 ^ 3"
      using assms dn by (simp add: byte_length_of_def div_less_iff_less_mult)
    with False show ?thesis by (simp add: compact_scaled_def)
  qed
  show "2 ^ 16 \<le> compact_scaled v n" if "0 < n"
  proof (cases "n \<le> 3")
    case True
    have "(256::nat) ^ (n - 1) * 256 ^ (3 - n) \<le> v * 256 ^ (3 - n)"
      using assms that by (intro mult_le_mono1) (simp add: byte_length_of_def)
    moreover have "(256::nat) ^ (n - 1) * 256 ^ (3 - n) = 256 ^ 2" using that True by (simp only: power_add [symmetric]) simp
    ultimately have "256 ^ 2 \<le> v * 256 ^ (3 - n)" by linarith
    then show ?thesis using True by (simp only: compact_scaled_def) simp
  next
    case False
    then have "n - 1 = 2 + (n - 3)" by simp
    then have "(256::nat) ^ (n - 1) = 256 ^ 2 * 256 ^ (n - 3)" by (simp only: power_add)
    then have "256 ^ 2 \<le> v div 256 ^ (n - 3)"
      using assms that by (simp add: byte_length_of_def less_eq_div_iff_mult_less_eq)
    with False show ?thesis by (simp add: compact_scaled_def)
  qed
qed

lemma GetCompact_nat:
  assumes a: "length a = 8" and n: "byte_length_of (wval a) n"
  shows "\<exists>c. GetCompact a False = Some c \<and> unat c = fst (compact_pair (wval a) n) + 2 ^ 24 * snd (compact_pair (wval a) n)"
    and "\<exists>c. GetCompact a neg = Some c"
proof -
  let ?v = "wval a" and ?s = "compact_scaled (wval a) n"
  have size: "(base_uint_bits a + 7) div 8 = n"
    using byte_length_of_unique [OF byte_length_of_bits [OF base_uint_bits_correct] n] .
  have n_le: "n \<le> 32" using base_uint_bits_le [of a] a size by linarith
  have s24: "?s < 2 ^ 24" by (rule compact_scaled_bounds(1) [OF n])
  define w :: u32 where "w = (if n \<le> 3 then ucast (push_bit (8 * (3 - n)) (base_uint_GetLow64 a))
                      else ucast (base_uint_GetLow64 (base_uint_shr a (8 * (n - 3)))))"
  have w: "unat w = ?s"
  proof (cases "n \<le> 3")
    case True
    have "wval a < 256 ^ n" using n by (simp add: byte_length_of_def)
    also have "(256::nat) ^ n \<le> 256 ^ 3" using True by (intro power_increasing) auto
    finally have low: "unat (base_uint_GetLow64 a) = ?v" using a by (simp add: unat_base_uint_GetLow64)
    have "unat (push_bit (8 * (3 - n)) (base_uint_GetLow64 a)) = take_bit 64 (push_bit (8 * (3 - n)) ?v)"
      by (simp only: unsigned_push_bit_eq low) simp
    also have "push_bit (8 * (3 - n)) ?v = ?s" using True by (simp add: push_bit_eq_mult power_256 compact_scaled_def)
    also have "take_bit 64 ?s = ?s" using s24 by (simp add: take_bit_nat_eq_self_iff)
    finally show ?thesis
      using True s24 by (simp add: w_def unsigned_ucast_eq take_bit_nat_eq_self_iff)
  next
    case False
    have "wval (base_uint_shr a (8 * (n - 3))) = ?s"
      using False by (simp add: wval_base_uint_shr drop_bit_eq_div power_256 compact_scaled_def)
    with False s24 a show ?thesis
      by (simp add: w_def unsigned_ucast_eq unat_base_uint_GetLow64 take_bit_eq_mod)
  qed
  have sign: "bit w 23 \<longleftrightarrow> 2 ^ 23 \<le> ?s"
  proof -
    have "?s div 2 ^ 23 < 2" using s24 by simp
    then have "odd (?s div 2 ^ 23) \<longleftrightarrow> ?s div 2 ^ 23 \<noteq> 0"
      by (metis One_nat_def less_2_cases_iff odd_one even_zero)
    moreover have "bit w 23 \<longleftrightarrow> odd (?s div 2 ^ 23)"
      unfolding w [symmetric] bit_iff_odd [symmetric] by (simp add: bit_unsigned_iff)
    ultimately show ?thesis by (simp add: div_eq_0_iff not_less)
  qed
  define nC where "nC = (if w AND 0x00800000 \<noteq> 0 then drop_bit 8 w else w)"
  define nS where "nS = (if w AND 0x00800000 \<noteq> 0 then n + 1 else n)"
  have nC: "unat nC = fst (compact_pair ?v n)" "nS = snd (compact_pair ?v n)"
    unfolding nC_def nS_def and_sign_bit sign compact_pair_def
    by (simp_all only: unat_drop_bit_eq w if_split_asm split: if_split) (simp_all add: drop_bit_eq_div w unat_drop_bit_eq)
  have C23: "unat nC < 2 ^ 23" unfolding nC using s24 by (auto simp: compact_pair_def)
  have nS: "nS \<le> 33" using n_le by (simp add: nS_def)
  have "take_bit 23 nC = nC"
    using C23 by (simp only: word_unat_eq_iff unsigned_take_bit_eq take_bit_nat_eq_self_iff)
  then have "nC AND mask 23 = nC" by (simp only: take_bit_eq_mask)
  then have "nC AND NOT (mask 23) = 0"
    by (metis and.assoc and_zero_eq bit.conj_cancel_right)
  then have assert1: "nC AND NOT 0x007fffff = 0" by (simp add: mask_numeral)
  have GC: "GetCompact a f = Some (let c = nC OR push_bit 24 (word_of_nat nS) in
      c OR (if f \<and> c AND 0x007fffff \<noteq> 0 then 0x00800000 else 0))" for f
    using assert1 nS
    unfolding GetCompact_def size w_def [symmetric] nC_def nS_def Let_def
    by (cases "w AND 0x00800000 \<noteq> 0") (simp_all only: if_True if_False prod.case simp_thms, simp_all)
  then show "\<exists>c. GetCompact a neg = Some c" by blast
  have "unat (nC OR push_bit 24 (word_of_nat nS)) = unat nC OR take_bit 32 (push_bit 24 nS)"
    using nS by (simp add: unsigned_or_eq unsigned_push_bit_eq unat_of_nat)
  also have "take_bit 32 (push_bit 24 nS) = push_bit 24 nS"
    using nS by (simp add: take_bit_nat_eq_self_iff push_bit_eq_mult)
  also have "unat nC OR push_bit 24 nS = unat nC + push_bit 24 nS"
  proof (rule disjunctive_add_eq_or [symmetric], rule bit_eqI)
    fix k
    have "\<not> bit (unat nC) k" if "24 \<le> k"
    proof -
      have "(2::nat) ^ 23 \<le> 2 ^ k" using that by (intro power_increasing) auto
      with C23 show ?thesis by (simp add: bit_iff_odd)
    qed
    then show "bit (unat nC AND push_bit 24 nS) k = bit 0 k"
      by (auto simp: bit_simps)
  qed
  finally show "\<exists>c. GetCompact a False = Some c \<and> unat c = fst (compact_pair (wval a) n) + 2 ^ 24 * snd (compact_pair (wval a) n)"
    by (simp add: GC Let_def nC push_bit_eq_mult)
qed

lemma bit_unat_iff: "bit c n \<longleftrightarrow> odd (unat c div 2 ^ n)" for c :: "'a::len word"
  unfolding bit_iff_odd [symmetric] by (auto simp: bit_unsigned_iff dest: bit_imp_le_length)

lemma compact_pair_less: "byte_length_of v n \<Longrightarrow> fst (compact_pair v n) < 2 ^ 23"
  using compact_scaled_bounds(1) [of v n] by (auto simp: compact_pair_def)

lemma compact_fields:
  assumes "unat c = m + 2 ^ 24 * e" "m < 2 ^ 23"
  shows "compact_exponent c = e" "compact_mantissa c = m" "\<not> bit c 23"
proof -
  have "m + 2 ^ 24 * e = m + 2 ^ 23 * (2 * e)" by simp
  then show m: "compact_mantissa c = m" using assms by (simp only: compact_mantissa_def mod_mult_self2 mod_less)
  show "compact_exponent c = e" using assms by (simp add: compact_exponent_def)
  have "bit c 23 \<longleftrightarrow> odd (unat c div 2 ^ 23)" by (rule bit_unat_iff)
  also have "unat c div 2 ^ 23 = 2 * e"
    using assms by (simp only: \<open>m + 2 ^ 24 * e = m + 2 ^ 23 * (2 * e)\<close>) simp
  finally show "\<not> bit c 23" by simp
qed

lemma compact_pair_value:
  assumes "byte_length_of v n" "unat c = fst (compact_pair v n) + 2 ^ 24 * snd (compact_pair v n)"
  shows "compact_value c = v div 256 ^ (snd (compact_pair v n) - 3) * 256 ^ (snd (compact_pair v n) - 3)"
proof -
  let ?n = "snd (compact_pair v n)"
  note f = compact_fields [OF assms(2) compact_pair_less [OF assms(1)]]
  consider (lo) "n \<le> 3" "compact_scaled v n < 2 ^ 23" | (lo1) "n \<le> 2" "2 ^ 23 \<le> compact_scaled v n"
    | (mid) "n = 3" "2 ^ 23 \<le> compact_scaled v n" | (hi) "3 < n" "compact_scaled v n < 2 ^ 23"
    | (hi1) "3 < n" "2 ^ 23 \<le> compact_scaled v n" by linarith
  then show ?thesis
  proof cases
    case lo
    then have "compact_pair v n = (v * 256 ^ (3 - n), n)" by (simp add: compact_pair_def compact_scaled_def)
    then show ?thesis using f lo by (simp add: compact_value_def)
  next
    case lo1
    then have "compact_pair v n = (v * 256 ^ (3 - n) div 256, n + 1)" by (simp add: compact_pair_def compact_scaled_def)
    moreover have "v * 256 ^ (3 - n) div 256 = v * 256 ^ (3 - (n + 1))"
    proof -
      have "3 - n = Suc (3 - (n + 1))" using lo1 by simp
      then show ?thesis by simp
    qed
    ultimately show ?thesis using f lo1 by (simp add: compact_value_def)
  next
    case mid
    then have "compact_pair v n = (v div 256, 4)" by (simp add: compact_pair_def compact_scaled_def)
    then show ?thesis using f by (simp add: compact_value_def)
  next
    case hi
    then have "compact_pair v n = (v div 256 ^ (n - 3), n)" by (simp add: compact_pair_def compact_scaled_def)
    then show ?thesis using f hi by (simp add: compact_value_def)
  next
    case hi1
    then have "compact_pair v n = (v div 256 ^ (n - 3) div 256, n + 1)" by (simp add: compact_pair_def compact_scaled_def)
    moreover have "v div 256 ^ (n - 3) div 256 = v div 256 ^ (n + 1 - 3)"
    proof -
      have "n + 1 - 3 = Suc (n - 3)" using hi1 by simp
      then show ?thesis by (simp add: div_mult2_eq [symmetric] mult.commute)
    qed
    ultimately show ?thesis using f hi1 by (simp add: compact_value_def)
  qed
qed

text \<open>The size that the sign rule selects: the mantissa keeps at least 15 significant bits.\<close>

lemma compact_pair_size:
  assumes "byte_length_of v n" "3 < snd (compact_pair v n)"
  shows "2 ^ 15 * 256 ^ (snd (compact_pair v n) - 3) \<le> v"
proof -
  have v: "0 < n \<Longrightarrow> 256 ^ (n - 1) \<le> v" using assms(1) by (simp add: byte_length_of_def)
  show ?thesis
  proof (cases "2 ^ 23 \<le> compact_scaled v n")
    case True
    then have n: "3 \<le> n" "snd (compact_pair v n) = n + 1" using assms(2) by (simp_all add: compact_pair_def)
    have "compact_scaled v n = v div 256 ^ (n - 3)" using n(1) by (auto simp: compact_scaled_def)
    then have "2 ^ 23 * 256 ^ (n - 3) \<le> v"
      using True by (simp only: less_eq_div_iff_mult_less_eq zero_less_power zero_less_numeral)
    moreover have "n + 1 - 3 = Suc (n - 3)" using n(1) by simp
    ultimately show ?thesis using n by simp
  next
    case False
    then have n: "3 < n" "snd (compact_pair v n) = n" using assms(2) by (simp_all add: compact_pair_def)
    have "n - 1 = 2 + (n - 3)" using n by simp
    then have "(256::nat) ^ (n - 1) = 256 ^ 2 * 256 ^ (n - 3)" by (simp only: power_add)
    moreover have "(2::nat) ^ 15 * 256 ^ (n - 3) \<le> 256 ^ 2 * 256 ^ (n - 3)" by simp
    ultimately show ?thesis using n v by simp
  qed
qed

lemma GetCompact_SetCompact:
  assumes "length a = WIDTH256"
  shows "\<exists>c. GetCompact a False = Some c
     \<and> wval (fst (SetCompact c)) \<le> wval a
     \<and> (wval a - wval (fst (SetCompact c))) * 2 ^ 15 \<le> wval a
     \<and> \<not> fst (snd (SetCompact c)) \<and> \<not> snd (snd (SetCompact c))"
proof -
  have len: "length a = 8" using assms by (simp add: WIDTH256_def)
  obtain n where n: "byte_length_of (wval a) n" using byte_length_of_bits [OF base_uint_bits_correct] by blast
  let ?e = "snd (compact_pair (wval a) n) - 3" and ?v = "wval a"
  obtain c where c: "GetCompact a False = Some c"
    "unat c = fst (compact_pair ?v n) + 2 ^ 24 * snd (compact_pair ?v n)"
    using GetCompact_nat(1) [OF len n] by blast
  have val: "compact_value c = ?v div 256 ^ ?e * 256 ^ ?e" by (rule compact_pair_value [OF n c(2)])
  then have le: "compact_value c \<le> ?v" by simp
  moreover have "?v < 2 ^ 256" using wval_less [of a] len by simp
  ultimately have lt: "compact_value c < 2 ^ 256" by linarith
  then have set: "wval (fst (SetCompact c)) = compact_value c" by (simp add: fst_SetCompact)
  have "?v - compact_value c = ?v mod 256 ^ ?e" by (simp add: val minus_div_mult_eq_mod)
  moreover have "?v mod 256 ^ ?e * 2 ^ 15 \<le> ?v"
  proof (cases "3 < snd (compact_pair ?v n)")
    case True
    have "?v mod 256 ^ ?e \<le> 256 ^ ?e" by (simp add: less_imp_le)
    then have "?v mod 256 ^ ?e * 2 ^ 15 \<le> 2 ^ 15 * 256 ^ ?e" by (simp add: mult.commute)
    also have "\<dots> \<le> ?v" by (rule compact_pair_size [OF n True])
    finally show ?thesis .
  qed simp
  moreover have "\<not> bit c 23" by (rule compact_fields(3) [OF c(2) compact_pair_less [OF n]])
  moreover have "\<not> snd (snd (SetCompact c))" using lt by (simp only: SetCompact_overflow not_le)
  ultimately show ?thesis using c(1) le by (auto simp: set SetCompact_negative)
qed

lemma SetCompact_GetCompact:
  assumes "2 ^ 15 \<le> compact_mantissa c" "3 \<le> compact_exponent c" "\<not> bit c 23" "\<not> snd (snd (SetCompact c))"
  shows "GetCompact (fst (SetCompact c)) False = Some c"
proof -
  let ?m = "compact_mantissa c" and ?e = "compact_exponent c" and ?a = "fst (SetCompact c)"
  have m: "?m < 2 ^ 23" by (simp add: compact_mantissa_def)
  have val: "compact_value c = ?m * 256 ^ (?e - 3)" using assms(2) by (auto simp: compact_value_def)
  have "compact_value c < 2 ^ 256" using assms(4) by (simp only: SetCompact_overflow not_le)
  then have v: "wval ?a = ?m * 256 ^ (?e - 3)" by (simp add: fst_SetCompact val)
  define n where "n = (if ?m < 2 ^ 16 then ?e - 1 else ?e)"
  have p1: "(256::nat) ^ (?e - 1) = 2 ^ 16 * 256 ^ (?e - 3)"
  proof -
    have "?e - 1 = 2 + (?e - 3)" using assms(2) by simp
    then show ?thesis by (simp only: power_add) simp
  qed
  have p0: "(256::nat) ^ ?e = 2 ^ 24 * 256 ^ (?e - 3)"
  proof -
    have "?e = 3 + (?e - 3)" using assms(2) by simp
    then have "(256::nat) ^ ?e = 256 ^ 3 * 256 ^ (?e - 3)" by (metis power_add)
    then show ?thesis by simp
  qed
  have p2: "(256::nat) ^ (?e - 2) = 2 ^ 8 * 256 ^ (?e - 3)"
  proof -
    have "?e - 2 = 1 + (?e - 3)" using assms(2) by simp
    then show ?thesis by (simp only: power_add) simp
  qed
  have n: "byte_length_of (wval ?a) n"
  proof (cases "?m < 2 ^ 16")
    case True
    then have "?e - 1 - 1 = ?e - 2" "n = ?e - 1" by (simp_all add: n_def)
    with True assms(1) show ?thesis by (simp only: byte_length_of_def v p1 p2) simp
  next
    case False
    then have "n = ?e" by (simp add: n_def)
    with False m show ?thesis by (simp only: byte_length_of_def v p0 p1) simp
  qed
  have pair: "compact_pair (wval ?a) n = (?m, ?e)"
  proof (cases "?m < 2 ^ 16")
    case True
    have "compact_scaled (wval ?a) (?e - 1) = ?m * 256"
    proof -
      consider "?e = 3" | k where "?e = 4 + k"
        using assms(2) that(1) that(2) [of "?e - 4"] by linarith
      then show ?thesis
        by cases (auto simp: compact_scaled_def v power_add)
    qed
    with True assms show ?thesis by (simp add: compact_pair_def n_def)
  next
    case False
    then show ?thesis using m assms(2) by (auto simp: compact_pair_def n_def compact_scaled_def v)
  qed
  have "even (unat c div 2 ^ 23)"
    using assms(3) by (simp only: bit_unat_iff not_not)
  then have "unat c mod 2 ^ 24 = ?m"
    using mod_mult2_eq [of "unat c" "2 ^ 23" 2] by (simp add: compact_mantissa_def even_iff_mod_2_eq_zero)
  then have "unat c = ?m + 2 ^ 24 * ?e"
    by (metis compact_exponent_def mod_mult_div_eq)
  with pair GetCompact_nat(1) [OF fst_SetCompact(2) n] show ?thesis
    by (auto simp: word_unat_eq_iff)
qed

section \<open>Conversion to and from the byte form\<close>

lemma length_ArithToUint256: "length (ArithToUint256 a) = 4 * length a"
  by (induction a) (simp_all add: ArithToUint256_def)

lemma wval_ArithToUint256: "wval (ArithToUint256 a) = wval a"
proof (induction a)
  case Nil
  then show ?case by (simp add: ArithToUint256_def)
next
  case (Cons w a)
  have "wval (WriteLE32 w) = unat w"
    using unat_u32_less [of w] by (simp add: WriteLE32_def wval_wdigits)
  with Cons show ?case by (simp add: ArithToUint256_def wval_append)
qed

lemma wval_UintToArith256: "length a = 32 \<Longrightarrow> wval (UintToArith256 a) = wval a"
  using wval_limbs32 [of a 8] by (simp add: UintToArith256_def WIDTH256_def mult.commute)

lemma length_UintToArith256 [simp]: "length (UintToArith256 a) = 8"
  by (simp add: UintToArith256_def WIDTH256_def)

lemma ArithToUint256_UintToArith256: "length a = 32 \<Longrightarrow> ArithToUint256 (UintToArith256 a) = a"
  by (simp add: wval_inject [symmetric] length_ArithToUint256 wval_ArithToUint256 wval_UintToArith256)

lemma UintToArith256_ArithToUint256: "length a = 8 \<Longrightarrow> UintToArith256 (ArithToUint256 a) = a"
  by (simp add: wval_inject [symmetric] length_ArithToUint256 wval_ArithToUint256 wval_UintToArith256)

section \<open>Properties\<close>

text \<open>
  Addition, subtraction and multiplication of two big integers of the same width compute the
  arithmetic operation modulo \<open>2 ^ (32 * WIDTH)\<close>, for every width: the carry chains of
  \<open>operator+=\<close>, \<open>operator-=\<close> and \<open>operator*=\<close> lose nothing but the final carry.
\<close>

theorem base_uint_ring:
  assumes "length a = length b"
  shows "wval (base_uint_add a b) = (wval a + wval b) mod 2 ^ (32 * length a)
    \<and> wval (base_uint_sub a b) = (wval a + (2 ^ (32 * length a) - wval b)) mod 2 ^ (32 * length a)
    \<and> wval (base_uint_mul a b) = (wval a * wval b) mod 2 ^ (32 * length a)"
  using assms by (simp only: wval_base_uint_add wval_base_uint_sub wval_base_uint_mul simp_thms)

theorem base_uint_ring_witness:
  "wval (base_uint_add [0xffffffff, 1] [1, 0]) = (wval [0xffffffff, 1 :: u32] + wval [1, 0 :: u32]) mod 2 ^ 64
    \<and> wval (base_uint_mul [0xffffffff, 1] [1, 0]) = (wval [0xffffffff, 1 :: u32] * wval [1, 0 :: u32]) mod 2 ^ 64"
  using base_uint_ring [of "[0xffffffff, 1]" "[1, 0]"] by simp

text \<open>
  The shifts \<open>operator<<=\<close> and \<open>operator>>=\<close>, which move whole limbs and then the bits across
  the limb borders, are multiplication (modulo the width) and division by the power of two, for
  every shift count, counts beyond the width included.
\<close>

theorem base_uint_shifts:
  "wval (base_uint_shl a s) = (wval a * 2 ^ s) mod 2 ^ (32 * length a)
    \<and> wval (base_uint_shr a s) = wval a div 2 ^ s"
  by (simp add: wval_base_uint_shl wval_base_uint_shr take_bit_eq_mod push_bit_eq_mult drop_bit_eq_div)

text \<open>
  C32. Long division (\<open>operator/=\<close>) of two big integers of the same width throws exactly for a
  zero divisor; otherwise its shift-and-subtract loop ends with the exact quotient.
\<close>

theorem base_uint_div_correct:
  assumes "length a = length b"
  shows "if wval b = 0 then base_uint_div a b = Inl DivisionByZero
    else \<exists>q. base_uint_div a b = Inr q \<and> length q = length a \<and> wval q = wval a div wval b"
  using assms wval_base_uint_div [of a b] by (auto simp: base_uint_div_by_zero)

theorem base_uint_div_correct_witness:
  "\<exists>q. base_uint_div [5, 7] [3, 0] = Inr q \<and> length q = length [5, 7 :: u32] \<and> wval q = wval [5, 7 :: u32] div wval [3, 0 :: u32]"
  using base_uint_div_correct [of "[5, 7]" "[3, 0]"] by simp

text \<open>
  Decoding a compact target: the value is the mantissa scaled by the exponent, modulo
  \<open>2 ^ 256\<close>; the overflow flag is set exactly when that value does not fit in 256 bits, and the
  negative flag exactly when the value is not zero and the sign bit is set.
\<close>

theorem SetCompact_correct:
  "wval (fst (SetCompact c)) = compact_value c mod 2 ^ 256
    \<and> (snd (snd (SetCompact c)) \<longleftrightarrow> 2 ^ 256 \<le> compact_value c)
    \<and> (fst (snd (SetCompact c)) \<longleftrightarrow> compact_value c \<noteq> 0 \<and> bit c 23)"
  by (simp only: fst_SetCompact SetCompact_overflow SetCompact_negative simp_thms)

text \<open>
  C33. Encoding a 256-bit target never trips the assertions of \<open>GetCompact\<close>, and decoding the
  result gives a target that is not larger, is neither negative nor overflowing, and keeps at
  least 15 significant bits of the original.
\<close>

theorem GetCompact_precision:
  assumes "length a = WIDTH256"
  shows "\<exists>c. GetCompact a False = Some c
     \<and> wval (fst (SetCompact c)) \<le> wval a
     \<and> (wval a - wval (fst (SetCompact c))) * 2 ^ 15 \<le> wval a
     \<and> \<not> fst (snd (SetCompact c)) \<and> \<not> snd (snd (SetCompact c))"
  using assms by (rule GetCompact_SetCompact)

theorem GetCompact_precision_witness:
  "\<exists>c. GetCompact [0, 0, 0, 0, 0, 0, 0x12345678, 0] False = Some c
     \<and> wval (fst (SetCompact c)) \<le> wval [0, 0, 0, 0, 0, 0, 0x12345678, 0 :: u32]"
  using GetCompact_precision [of "[0, 0, 0, 0, 0, 0, 0x12345678, 0]"] by (auto simp: WIDTH256_def)

text \<open>
  Round trip on normal-form compact targets: a non-negative, non-overflowing compact number
  with at least 15 significant mantissa bits and exponent at least 3 is reproduced exactly by
  decoding and encoding.
\<close>

theorem compact_roundtrip:
  assumes "2 ^ 15 \<le> compact_mantissa c" "3 \<le> compact_exponent c" "\<not> bit c 23" "\<not> snd (snd (SetCompact c))"
  shows "GetCompact (fst (SetCompact c)) False = Some c"
  using assms by (rule SetCompact_GetCompact)

theorem compact_roundtrip_witness: "GetCompact (fst (SetCompact 0x1d00ffff)) False = Some 0x1d00ffff"
proof (rule compact_roundtrip)
  show "2 ^ 15 \<le> compact_mantissa 0x1d00ffff" "3 \<le> compact_exponent 0x1d00ffff" "\<not> bit (0x1d00ffff :: u32) 23"
    by (simp_all add: compact_mantissa_def compact_exponent_def)
  show "\<not> snd (snd (SetCompact 0x1d00ffff))"
    unfolding SetCompact_overflow by (simp add: compact_value_def compact_mantissa_def compact_exponent_def)
qed

end
