(* ===== verification/Sha256.thy ===== *)
theory Sha256
  imports Prelude
begin

text \<open>
  The SHA-256 block function of \<^verbatim>\<open>src/sha256_cpu.cpp\<close>: the boolean functions, one round,
  the unrolled 64-round transformation and the unrolled double hash of 64 bytes
  (\<^verbatim>\<open>TransformD64\<close>). The unrolled code is a list with one entry for each source line, run
  by an interpreter that updates the eight registers and the sixteen schedule words in place.
  The reference is the compression function of FIPS 180-4, with the message schedule as a list
  of 64 words and the working variables shifted at each step.
\<close>

unbundle bit_operations_syntax

section \<open>The boolean functions and one round\<close>

definition Ch :: "u32 \<Rightarrow> u32 \<Rightarrow> u32 \<Rightarrow> u32" where
  "Ch x y z = z XOR (x AND (y XOR z))"

definition Maj :: "u32 \<Rightarrow> u32 \<Rightarrow> u32 \<Rightarrow> u32" where
  "Maj x y z = (x AND y) OR (z AND (x OR y))"

definition Sigma0 :: "u32 \<Rightarrow> u32" where
  "Sigma0 x = (drop_bit 2 x OR push_bit 30 x) XOR (drop_bit 13 x OR push_bit 19 x)
                XOR (drop_bit 22 x OR push_bit 10 x)"

definition Sigma1 :: "u32 \<Rightarrow> u32" where
  "Sigma1 x = (drop_bit 6 x OR push_bit 26 x) XOR (drop_bit 11 x OR push_bit 21 x)
                XOR (drop_bit 25 x OR push_bit 7 x)"

definition sigma0 :: "u32 \<Rightarrow> u32" where
  "sigma0 x = (drop_bit 7 x OR push_bit 25 x) XOR (drop_bit 18 x OR push_bit 14 x) XOR drop_bit 3 x"

definition sigma1 :: "u32 \<Rightarrow> u32" where
  "sigma1 x = (drop_bit 17 x OR push_bit 15 x) XOR (drop_bit 19 x OR push_bit 13 x) XOR drop_bit 10 x"

text \<open>\<open>Round\<close> returns the two registers it takes by reference, \<open>d\<close> and \<open>h\<close>.\<close>

definition Round :: "u32 \<Rightarrow> u32 \<Rightarrow> u32 \<Rightarrow> u32 \<Rightarrow> u32 \<Rightarrow> u32 \<Rightarrow> u32 \<Rightarrow> u32 \<Rightarrow> u32 \<Rightarrow> u32 \<times> u32" where
  "Round a b c d e f g h k =
     (let t1 = h + Sigma1 e + Ch e f g + k;
          t2 = Sigma0 a + Maj a b c
      in (d + t1, t1 + t2))"

definition sha256_Initialize :: "u32 list" where
  "sha256_Initialize = [0x6a09e667, 0xbb67ae85, 0x3c6ef372, 0xa54ff53a,
                        0x510e527f, 0x9b05688c, 0x1f83d9ab, 0x5be0cd19]"

section \<open>The unrolled rounds\<close>

text \<open>
  A source line is \<open>RND regs k act\<close>: the registers passed to \<open>Round\<close> in their order, the round
  constant, and what the last argument does with the schedule words: nothing, load a word of the
  chunk, add to a word, assign a word, or only use a sum.
\<close>

datatype wterm = TC u32 | TW nat | TS0 nat | TS1 nat

datatype waction = NoW | WLoad nat nat | WInc nat "wterm list" | WSet nat "wterm list" | WSum "wterm list"

datatype round_instr = RND "nat list" u32 waction

abbreviation "abcdefgh \<equiv> [0, 1, 2, 3, 4, 5, 6, 7 :: nat]"
abbreviation "habcdefg \<equiv> [7, 0, 1, 2, 3, 4, 5, 6 :: nat]"
abbreviation "ghabcdef \<equiv> [6, 7, 0, 1, 2, 3, 4, 5 :: nat]"
abbreviation "fghabcde \<equiv> [5, 6, 7, 0, 1, 2, 3, 4 :: nat]"
abbreviation "efghabcd \<equiv> [4, 5, 6, 7, 0, 1, 2, 3 :: nat]"
abbreviation "defghabc \<equiv> [3, 4, 5, 6, 7, 0, 1, 2 :: nat]"
abbreviation "cdefghab \<equiv> [2, 3, 4, 5, 6, 7, 0, 1 :: nat]"
abbreviation "bcdefgha \<equiv> [1, 2, 3, 4, 5, 6, 7, 0 :: nat]"

fun wterm_val :: "u32 list \<Rightarrow> wterm \<Rightarrow> u32" where
  "wterm_val w (TC c) = c"
| "wterm_val w (TW i) = w ! i"
| "wterm_val w (TS0 i) = sigma0 (w ! i)"
| "wterm_val w (TS1 i) = sigma1 (w ! i)"

definition wsum :: "u32 list \<Rightarrow> wterm list \<Rightarrow> u32" where
  "wsum w ts = sum_list (map (wterm_val w) ts)"

text \<open>The value of the last argument of a line and the schedule words after it.\<close>

fun exec_waction :: "(bytes \<Rightarrow> u32) \<Rightarrow> bytes \<Rightarrow> u32 list \<Rightarrow> waction \<Rightarrow> u32 \<times> u32 list" where
  "exec_waction rd chunk w NoW = (0, w)"
| "exec_waction rd chunk w (WLoad i off) = (rd (drop off chunk), w[i := rd (drop off chunk)])"
| "exec_waction rd chunk w (WInc i ts) = (w ! i + wsum w ts, w[i := w ! i + wsum w ts])"
| "exec_waction rd chunk w (WSet i ts) = (wsum w ts, w[i := wsum w ts])"
| "exec_waction rd chunk w (WSum ts) = (wsum w ts, w)"

fun exec_round :: "bytes \<Rightarrow> round_instr \<Rightarrow> u32 list \<times> u32 list \<Rightarrow> u32 list \<times> u32 list" where
  "exec_round chunk (RND r k act) (regs, w) =
     (let (v, w') = exec_waction ReadBE32 chunk w act;
          x = (\<lambda>i. regs ! (r ! i));
          (d, h) = Round (x 0) (x 1) (x 2) (x 3) (x 4) (x 5) (x 6) (x 7) (k + v)
      in (regs[r ! 3 := d, r ! 7 := h], w'))"

definition Transform_rounds :: "round_instr list" where
  "Transform_rounds = [
    RND abcdefgh 0x428a2f98 (WLoad 0 0),
    RND habcdefg 0x71374491 (WLoad 1 4),
    RND ghabcdef 0xb5c0fbcf (WLoad 2 8),
    RND fghabcde 0xe9b5dba5 (WLoad 3 12),
    RND efghabcd 0x3956c25b (WLoad 4 16),
    RND defghabc 0x59f111f1 (WLoad 5 20),
    RND cdefghab 0x923f82a4 (WLoad 6 24),
    RND bcdefgha 0xab1c5ed5 (WLoad 7 28),
    RND abcdefgh 0xd807aa98 (WLoad 8 32),
    RND habcdefg 0x12835b01 (WLoad 9 36),
    RND ghabcdef 0x243185be (WLoad 10 40),
    RND fghabcde 0x550c7dc3 (WLoad 11 44),
    RND efghabcd 0x72be5d74 (WLoad 12 48),
    RND defghabc 0x80deb1fe (WLoad 13 52),
    RND cdefghab 0x9bdc06a7 (WLoad 14 56),
    RND bcdefgha 0xc19bf174 (WLoad 15 60),
    RND abcdefgh 0xe49b69c1 (WInc 0 [TS1 14, TW 9, TS0 1]),
    RND habcdefg 0xefbe4786 (WInc 1 [TS1 15, TW 10, TS0 2]),
    RND ghabcdef 0x0fc19dc6 (WInc 2 [TS1 0, TW 11, TS0 3]),
    RND fghabcde 0x240ca1cc (WInc 3 [TS1 1, TW 12, TS0 4]),
    RND efghabcd 0x2de92c6f (WInc 4 [TS1 2, TW 13, TS0 5]),
    RND defghabc 0x4a7484aa (WInc 5 [TS1 3, TW 14, TS0 6]),
    RND cdefghab 0x5cb0a9dc (WInc 6 [TS1 4, TW 15, TS0 7]),
    RND bcdefgha 0x76f988da (WInc 7 [TS1 5, TW 0, TS0 8]),
    RND abcdefgh 0x983e5152 (WInc 8 [TS1 6, TW 1, TS0 9]),
    RND habcdefg 0xa831c66d (WInc 9 [TS1 7, TW 2, TS0 10]),
    RND ghabcdef 0xb00327c8 (WInc 10 [TS1 8, TW 3, TS0 11]),
    RND fghabcde 0xbf597fc7 (WInc 11 [TS1 9, TW 4, TS0 12]),
    RND efghabcd 0xc6e00bf3 (WInc 12 [TS1 10, TW 5, TS0 13]),
    RND defghabc 0xd5a79147 (WInc 13 [TS1 11, TW 6, TS0 14]),
    RND cdefghab 0x06ca6351 (WInc 14 [TS1 12, TW 7, TS0 15]),
    RND bcdefgha 0x14292967 (WInc 15 [TS1 13, TW 8, TS0 0]),
    RND abcdefgh 0x27b70a85 (WInc 0 [TS1 14, TW 9, TS0 1]),
    RND habcdefg 0x2e1b2138 (WInc 1 [TS1 15, TW 10, TS0 2]),
    RND ghabcdef 0x4d2c6dfc (WInc 2 [TS1 0, TW 11, TS0 3]),
    RND fghabcde 0x53380d13 (WInc 3 [TS1 1, TW 12, TS0 4]),
    RND efghabcd 0x650a7354 (WInc 4 [TS1 2, TW 13, TS0 5]),
    RND defghabc 0x766a0abb (WInc 5 [TS1 3, TW 14, TS0 6]),
    RND cdefghab 0x81c2c92e (WInc 6 [TS1 4, TW 15, TS0 7]),
    RND bcdefgha 0x92722c85 (WInc 7 [TS1 5, TW 0, TS0 8]),
    RND abcdefgh 0xa2bfe8a1 (WInc 8 [TS1 6, TW 1, TS0 9]),
    RND habcdefg 0xa81a664b (WInc 9 [TS1 7, TW 2, TS0 10]),
    RND ghabcdef 0xc24b8b70 (WInc 10 [TS1 8, TW 3, TS0 11]),
    RND fghabcde 0xc76c51a3 (WInc 11 [TS1 9, TW 4, TS0 12]),
    RND efghabcd 0xd192e819 (WInc 12 [TS1 10, TW 5, TS0 13]),
    RND defghabc 0xd6990624 (WInc 13 [TS1 11, TW 6, TS0 14]),
    RND cdefghab 0xf40e3585 (WInc 14 [TS1 12, TW 7, TS0 15]),
    RND bcdefgha 0x106aa070 (WInc 15 [TS1 13, TW 8, TS0 0]),
    RND abcdefgh 0x19a4c116 (WInc 0 [TS1 14, TW 9, TS0 1]),
    RND habcdefg 0x1e376c08 (WInc 1 [TS1 15, TW 10, TS0 2]),
    RND ghabcdef 0x2748774c (WInc 2 [TS1 0, TW 11, TS0 3]),
    RND fghabcde 0x34b0bcb5 (WInc 3 [TS1 1, TW 12, TS0 4]),
    RND efghabcd 0x391c0cb3 (WInc 4 [TS1 2, TW 13, TS0 5]),
    RND defghabc 0x4ed8aa4a (WInc 5 [TS1 3, TW 14, TS0 6]),
    RND cdefghab 0x5b9cca4f (WInc 6 [TS1 4, TW 15, TS0 7]),
    RND bcdefgha 0x682e6ff3 (WInc 7 [TS1 5, TW 0, TS0 8]),
    RND abcdefgh 0x748f82ee (WInc 8 [TS1 6, TW 1, TS0 9]),
    RND habcdefg 0x78a5636f (WInc 9 [TS1 7, TW 2, TS0 10]),
    RND ghabcdef 0x84c87814 (WInc 10 [TS1 8, TW 3, TS0 11]),
    RND fghabcde 0x8cc70208 (WInc 11 [TS1 9, TW 4, TS0 12]),
    RND efghabcd 0x90befffa (WInc 12 [TS1 10, TW 5, TS0 13]),
    RND defghabc 0xa4506ceb (WInc 13 [TS1 11, TW 6, TS0 14]),
    RND cdefghab 0xbef9a3f7 (WSum [TW 14, TS1 12, TW 7, TS0 15]),
    RND bcdefgha 0xc67178f2 (WSum [TW 15, TS1 13, TW 8, TS0 0])]"

text \<open>
  One iteration of the loop of \<open>Transform\<close>. The schedule words are uninitialised locals that are
  all assigned before they are read; \<open>w\<close> is whatever they hold at the start.
\<close>

definition Transform_block :: "u32 list \<Rightarrow> u32 list \<Rightarrow> bytes \<Rightarrow> u32 list" where
  "Transform_block w s chunk =
     (let (regs, _) = fold (exec_round chunk) Transform_rounds (s, w) in map2 (+) s regs)"

primrec sha256_Transform :: "u32 list \<Rightarrow> bytes \<Rightarrow> nat \<Rightarrow> u32 list" where
  "sha256_Transform s chunk 0 = s"
| "sha256_Transform s chunk (Suc blocks) =
     sha256_Transform (Transform_block (replicate 16 0) s chunk) (drop 64 chunk) blocks"

definition TransformD64_rounds1 :: "round_instr list" where
  "TransformD64_rounds1 = [
    RND abcdefgh 0x428a2f98 (WLoad 0 0),
    RND habcdefg 0x71374491 (WLoad 1 4),
    RND ghabcdef 0xb5c0fbcf (WLoad 2 8),
    RND fghabcde 0xe9b5dba5 (WLoad 3 12),
    RND efghabcd 0x3956c25b (WLoad 4 16),
    RND defghabc 0x59f111f1 (WLoad 5 20),
    RND cdefghab 0x923f82a4 (WLoad 6 24),
    RND bcdefgha 0xab1c5ed5 (WLoad 7 28),
    RND abcdefgh 0xd807aa98 (WLoad 8 32),
    RND habcdefg 0x12835b01 (WLoad 9 36),
    RND ghabcdef 0x243185be (WLoad 10 40),
    RND fghabcde 0x550c7dc3 (WLoad 11 44),
    RND efghabcd 0x72be5d74 (WLoad 12 48),
    RND defghabc 0x80deb1fe (WLoad 13 52),
    RND cdefghab 0x9bdc06a7 (WLoad 14 56),
    RND bcdefgha 0xc19bf174 (WLoad 15 60),
    RND abcdefgh 0xe49b69c1 (WInc 0 [TS1 14, TW 9, TS0 1]),
    RND habcdefg 0xefbe4786 (WInc 1 [TS1 15, TW 10, TS0 2]),
    RND ghabcdef 0x0fc19dc6 (WInc 2 [TS1 0, TW 11, TS0 3]),
    RND fghabcde 0x240ca1cc (WInc 3 [TS1 1, TW 12, TS0 4]),
    RND efghabcd 0x2de92c6f (WInc 4 [TS1 2, TW 13, TS0 5]),
    RND defghabc 0x4a7484aa (WInc 5 [TS1 3, TW 14, TS0 6]),
    RND cdefghab 0x5cb0a9dc (WInc 6 [TS1 4, TW 15, TS0 7]),
    RND bcdefgha 0x76f988da (WInc 7 [TS1 5, TW 0, TS0 8]),
    RND abcdefgh 0x983e5152 (WInc 8 [TS1 6, TW 1, TS0 9]),
    RND habcdefg 0xa831c66d (WInc 9 [TS1 7, TW 2, TS0 10]),
    RND ghabcdef 0xb00327c8 (WInc 10 [TS1 8, TW 3, TS0 11]),
    RND fghabcde 0xbf597fc7 (WInc 11 [TS1 9, TW 4, TS0 12]),
    RND efghabcd 0xc6e00bf3 (WInc 12 [TS1 10, TW 5, TS0 13]),
    RND defghabc 0xd5a79147 (WInc 13 [TS1 11, TW 6, TS0 14]),
    RND cdefghab 0x06ca6351 (WInc 14 [TS1 12, TW 7, TS0 15]),
    RND bcdefgha 0x14292967 (WInc 15 [TS1 13, TW 8, TS0 0]),
    RND abcdefgh 0x27b70a85 (WInc 0 [TS1 14, TW 9, TS0 1]),
    RND habcdefg 0x2e1b2138 (WInc 1 [TS1 15, TW 10, TS0 2]),
    RND ghabcdef 0x4d2c6dfc (WInc 2 [TS1 0, TW 11, TS0 3]),
    RND fghabcde 0x53380d13 (WInc 3 [TS1 1, TW 12, TS0 4]),
    RND efghabcd 0x650a7354 (WInc 4 [TS1 2, TW 13, TS0 5]),
    RND defghabc 0x766a0abb (WInc 5 [TS1 3, TW 14, TS0 6]),
    RND cdefghab 0x81c2c92e (WInc 6 [TS1 4, TW 15, TS0 7]),
    RND bcdefgha 0x92722c85 (WInc 7 [TS1 5, TW 0, TS0 8]),
    RND abcdefgh 0xa2bfe8a1 (WInc 8 [TS1 6, TW 1, TS0 9]),
    RND habcdefg 0xa81a664b (WInc 9 [TS1 7, TW 2, TS0 10]),
    RND ghabcdef 0xc24b8b70 (WInc 10 [TS1 8, TW 3, TS0 11]),
    RND fghabcde 0xc76c51a3 (WInc 11 [TS1 9, TW 4, TS0 12]),
    RND efghabcd 0xd192e819 (WInc 12 [TS1 10, TW 5, TS0 13]),
    RND defghabc 0xd6990624 (WInc 13 [TS1 11, TW 6, TS0 14]),
    RND cdefghab 0xf40e3585 (WInc 14 [TS1 12, TW 7, TS0 15]),
    RND bcdefgha 0x106aa070 (WInc 15 [TS1 13, TW 8, TS0 0]),
    RND abcdefgh 0x19a4c116 (WInc 0 [TS1 14, TW 9, TS0 1]),
    RND habcdefg 0x1e376c08 (WInc 1 [TS1 15, TW 10, TS0 2]),
    RND ghabcdef 0x2748774c (WInc 2 [TS1 0, TW 11, TS0 3]),
    RND fghabcde 0x34b0bcb5 (WInc 3 [TS1 1, TW 12, TS0 4]),
    RND efghabcd 0x391c0cb3 (WInc 4 [TS1 2, TW 13, TS0 5]),
    RND defghabc 0x4ed8aa4a (WInc 5 [TS1 3, TW 14, TS0 6]),
    RND cdefghab 0x5b9cca4f (WInc 6 [TS1 4, TW 15, TS0 7]),
    RND bcdefgha 0x682e6ff3 (WInc 7 [TS1 5, TW 0, TS0 8]),
    RND abcdefgh 0x748f82ee (WInc 8 [TS1 6, TW 1, TS0 9]),
    RND habcdefg 0x78a5636f (WInc 9 [TS1 7, TW 2, TS0 10]),
    RND ghabcdef 0x84c87814 (WInc 10 [TS1 8, TW 3, TS0 11]),
    RND fghabcde 0x8cc70208 (WInc 11 [TS1 9, TW 4, TS0 12]),
    RND efghabcd 0x90befffa (WInc 12 [TS1 10, TW 5, TS0 13]),
    RND defghabc 0xa4506ceb (WInc 13 [TS1 11, TW 6, TS0 14]),
    RND cdefghab 0xbef9a3f7 (WSum [TW 14, TS1 12, TW 7, TS0 15]),
    RND bcdefgha 0xc67178f2 (WSum [TW 15, TS1 13, TW 8, TS0 0])]"

definition TransformD64_rounds2 :: "round_instr list" where
  "TransformD64_rounds2 = [
    RND abcdefgh 0xc28a2f98 NoW,
    RND habcdefg 0x71374491 NoW,
    RND ghabcdef 0xb5c0fbcf NoW,
    RND fghabcde 0xe9b5dba5 NoW,
    RND efghabcd 0x3956c25b NoW,
    RND defghabc 0x59f111f1 NoW,
    RND cdefghab 0x923f82a4 NoW,
    RND bcdefgha 0xab1c5ed5 NoW,
    RND abcdefgh 0xd807aa98 NoW,
    RND habcdefg 0x12835b01 NoW,
    RND ghabcdef 0x243185be NoW,
    RND fghabcde 0x550c7dc3 NoW,
    RND efghabcd 0x72be5d74 NoW,
    RND defghabc 0x80deb1fe NoW,
    RND cdefghab 0x9bdc06a7 NoW,
    RND bcdefgha 0xc19bf374 NoW,
    RND abcdefgh 0x649b69c1 NoW,
    RND habcdefg 0xf0fe4786 NoW,
    RND ghabcdef 0x0fe1edc6 NoW,
    RND fghabcde 0x240cf254 NoW,
    RND efghabcd 0x4fe9346f NoW,
    RND defghabc 0x6cc984be NoW,
    RND cdefghab 0x61b9411e NoW,
    RND bcdefgha 0x16f988fa NoW,
    RND abcdefgh 0xf2c65152 NoW,
    RND habcdefg 0xa88e5a6d NoW,
    RND ghabcdef 0xb019fc65 NoW,
    RND fghabcde 0xb9d99ec7 NoW,
    RND efghabcd 0x9a1231c3 NoW,
    RND defghabc 0xe70eeaa0 NoW,
    RND cdefghab 0xfdb1232b NoW,
    RND bcdefgha 0xc7353eb0 NoW,
    RND abcdefgh 0x3069bad5 NoW,
    RND habcdefg 0xcb976d5f NoW,
    RND ghabcdef 0x5a0f118f NoW,
    RND fghabcde 0xdc1eeefd NoW,
    RND efghabcd 0x0a35b689 NoW,
    RND defghabc 0xde0b7a04 NoW,
    RND cdefghab 0x58f4ca9d NoW,
    RND bcdefgha 0xe15d5b16 NoW,
    RND abcdefgh 0x007f3e86 NoW,
    RND habcdefg 0x37088980 NoW,
    RND ghabcdef 0xa507ea32 NoW,
    RND fghabcde 0x6fab9537 NoW,
    RND efghabcd 0x17406110 NoW,
    RND defghabc 0x0d8cd6f1 NoW,
    RND cdefghab 0xcdaa3b6d NoW,
    RND bcdefgha 0xc0bbbe37 NoW,
    RND abcdefgh 0x83613bda NoW,
    RND habcdefg 0xdb48a363 NoW,
    RND ghabcdef 0x0b02e931 NoW,
    RND fghabcde 0x6fd15ca7 NoW,
    RND efghabcd 0x521afaca NoW,
    RND defghabc 0x31338431 NoW,
    RND cdefghab 0x6ed41a95 NoW,
    RND bcdefgha 0x6d437890 NoW,
    RND abcdefgh 0xc39c91f2 NoW,
    RND habcdefg 0x9eccabbd NoW,
    RND ghabcdef 0xb5c9a0e6 NoW,
    RND fghabcde 0x532fb63c NoW,
    RND efghabcd 0xd2c741c6 NoW,
    RND defghabc 0x07237ea3 NoW,
    RND cdefghab 0xa4954b68 NoW,
    RND bcdefgha 0x4c191d76 NoW]"

definition TransformD64_rounds3 :: "round_instr list" where
  "TransformD64_rounds3 = [
    RND abcdefgh 0x428a2f98 (WSum [TW 0]),
    RND habcdefg 0x71374491 (WSum [TW 1]),
    RND ghabcdef 0xb5c0fbcf (WSum [TW 2]),
    RND fghabcde 0xe9b5dba5 (WSum [TW 3]),
    RND efghabcd 0x3956c25b (WSum [TW 4]),
    RND defghabc 0x59f111f1 (WSum [TW 5]),
    RND cdefghab 0x923f82a4 (WSum [TW 6]),
    RND bcdefgha 0xab1c5ed5 (WSum [TW 7]),
    RND abcdefgh 0x5807aa98 NoW,
    RND habcdefg 0x12835b01 NoW,
    RND ghabcdef 0x243185be NoW,
    RND fghabcde 0x550c7dc3 NoW,
    RND efghabcd 0x72be5d74 NoW,
    RND defghabc 0x80deb1fe NoW,
    RND cdefghab 0x9bdc06a7 NoW,
    RND bcdefgha 0xc19bf274 NoW,
    RND abcdefgh 0xe49b69c1 (WInc 0 [TS0 1]),
    RND habcdefg 0xefbe4786 (WInc 1 [TC 0xa00000, TS0 2]),
    RND ghabcdef 0x0fc19dc6 (WInc 2 [TS1 0, TS0 3]),
    RND fghabcde 0x240ca1cc (WInc 3 [TS1 1, TS0 4]),
    RND efghabcd 0x2de92c6f (WInc 4 [TS1 2, TS0 5]),
    RND defghabc 0x4a7484aa (WInc 5 [TS1 3, TS0 6]),
    RND cdefghab 0x5cb0a9dc (WInc 6 [TS1 4, TC 0x100, TS0 7]),
    RND bcdefgha 0x76f988da (WInc 7 [TS1 5, TW 0, TC 0x11002000]),
    RND abcdefgh 0x983e5152 (WSet 8 [TC 0x80000000, TS1 6, TW 1]),
    RND habcdefg 0xa831c66d (WSet 9 [TS1 7, TW 2]),
    RND ghabcdef 0xb00327c8 (WSet 10 [TS1 8, TW 3]),
    RND fghabcde 0xbf597fc7 (WSet 11 [TS1 9, TW 4]),
    RND efghabcd 0xc6e00bf3 (WSet 12 [TS1 10, TW 5]),
    RND defghabc 0xd5a79147 (WSet 13 [TS1 11, TW 6]),
    RND cdefghab 0x06ca6351 (WSet 14 [TS1 12, TW 7, TC 0x400022]),
    RND bcdefgha 0x14292967 (WSet 15 [TC 0x100, TS1 13, TW 8, TS0 0]),
    RND abcdefgh 0x27b70a85 (WInc 0 [TS1 14, TW 9, TS0 1]),
    RND habcdefg 0x2e1b2138 (WInc 1 [TS1 15, TW 10, TS0 2]),
    RND ghabcdef 0x4d2c6dfc (WInc 2 [TS1 0, TW 11, TS0 3]),
    RND fghabcde 0x53380d13 (WInc 3 [TS1 1, TW 12, TS0 4]),
    RND efghabcd 0x650a7354 (WInc 4 [TS1 2, TW 13, TS0 5]),
    RND defghabc 0x766a0abb (WInc 5 [TS1 3, TW 14, TS0 6]),
    RND cdefghab 0x81c2c92e (WInc 6 [TS1 4, TW 15, TS0 7]),
    RND bcdefgha 0x92722c85 (WInc 7 [TS1 5, TW 0, TS0 8]),
    RND abcdefgh 0xa2bfe8a1 (WInc 8 [TS1 6, TW 1, TS0 9]),
    RND habcdefg 0xa81a664b (WInc 9 [TS1 7, TW 2, TS0 10]),
    RND ghabcdef 0xc24b8b70 (WInc 10 [TS1 8, TW 3, TS0 11]),
    RND fghabcde 0xc76c51a3 (WInc 11 [TS1 9, TW 4, TS0 12]),
    RND efghabcd 0xd192e819 (WInc 12 [TS1 10, TW 5, TS0 13]),
    RND defghabc 0xd6990624 (WInc 13 [TS1 11, TW 6, TS0 14]),
    RND cdefghab 0xf40e3585 (WInc 14 [TS1 12, TW 7, TS0 15]),
    RND bcdefgha 0x106aa070 (WInc 15 [TS1 13, TW 8, TS0 0]),
    RND abcdefgh 0x19a4c116 (WInc 0 [TS1 14, TW 9, TS0 1]),
    RND habcdefg 0x1e376c08 (WInc 1 [TS1 15, TW 10, TS0 2]),
    RND ghabcdef 0x2748774c (WInc 2 [TS1 0, TW 11, TS0 3]),
    RND fghabcde 0x34b0bcb5 (WInc 3 [TS1 1, TW 12, TS0 4]),
    RND efghabcd 0x391c0cb3 (WInc 4 [TS1 2, TW 13, TS0 5]),
    RND defghabc 0x4ed8aa4a (WInc 5 [TS1 3, TW 14, TS0 6]),
    RND cdefghab 0x5b9cca4f (WInc 6 [TS1 4, TW 15, TS0 7]),
    RND bcdefgha 0x682e6ff3 (WInc 7 [TS1 5, TW 0, TS0 8]),
    RND abcdefgh 0x748f82ee (WInc 8 [TS1 6, TW 1, TS0 9]),
    RND habcdefg 0x78a5636f (WInc 9 [TS1 7, TW 2, TS0 10]),
    RND ghabcdef 0x84c87814 (WInc 10 [TS1 8, TW 3, TS0 11]),
    RND fghabcde 0x8cc70208 (WInc 11 [TS1 9, TW 4, TS0 12]),
    RND efghabcd 0x90befffa (WInc 12 [TS1 10, TW 5, TS0 13]),
    RND defghabc 0xa4506ceb (WInc 13 [TS1 11, TW 6, TS0 14]),
    RND cdefghab 0xbef9a3f7 (WSum [TW 14, TS1 12, TW 7, TS0 15]),
    RND bcdefgha 0xc67178f2 (WSum [TW 15, TS1 13, TW 8, TS0 0])]"

definition TransformD64 :: "bytes \<Rightarrow> bytes" where
  "TransformD64 inp =
     (let (s1, w1) = fold (exec_round inp) TransformD64_rounds1 (sha256_Initialize, replicate 16 0);
          t = map2 (+) s1 sha256_Initialize;
          (s2, w2) = fold (exec_round inp) TransformD64_rounds2 (t, w1);
          w3 = map2 (+) t s2 @ drop 8 w2;
          (s3, _) = fold (exec_round inp) TransformD64_rounds3 (sha256_Initialize, w3)
      in concat (map WriteBE32 (map2 (+) s3 sha256_Initialize)))"

definition padding1 :: bytes where
  "padding1 = [0x80, 0, 0, 0, 0, 0, 0, 0, 0, 0, 0, 0, 0, 0, 0, 0,
               0, 0, 0, 0, 0, 0, 0, 0, 0, 0, 0, 0, 0, 0, 0, 0,
               0, 0, 0, 0, 0, 0, 0, 0, 0, 0, 0, 0, 0, 0, 0, 0,
               0, 0, 0, 0, 0, 0, 0, 0, 0, 0, 0, 0, 0, 0, 2, 0]"

definition buffer2_init :: bytes where
  "buffer2_init = [0, 0, 0, 0, 0, 0, 0, 0, 0, 0, 0, 0, 0, 0, 0, 0,
                   0, 0, 0, 0, 0, 0, 0, 0, 0, 0, 0, 0, 0, 0, 0, 0,
                   0x80, 0, 0, 0, 0, 0, 0, 0, 0, 0, 0, 0, 0, 0, 0, 0,
                   0, 0, 0, 0, 0, 0, 0, 0, 0, 0, 0, 0, 0, 0, 1, 0]"

definition TransformD64Wrapper :: "(u32 list \<Rightarrow> bytes \<Rightarrow> nat \<Rightarrow> u32 list) \<Rightarrow> bytes \<Rightarrow> bytes" where
  "TransformD64Wrapper tr inp =
     (let s = sha256_Initialize;
          s = tr s inp 1;
          s = tr s padding1 1;
          buffer2 = concat (map WriteBE32 s) @ drop 32 buffer2_init;
          s = sha256_Initialize;
          s = tr s buffer2 1
      in concat (map WriteBE32 s))"

section \<open>The FIPS 180-4 compression function\<close>

definition fips_Ch :: "u32 \<Rightarrow> u32 \<Rightarrow> u32 \<Rightarrow> u32" where
  "fips_Ch x y z = (x AND y) XOR (NOT x AND z)"

definition fips_Maj :: "u32 \<Rightarrow> u32 \<Rightarrow> u32 \<Rightarrow> u32" where
  "fips_Maj x y z = (x AND y) XOR (x AND z) XOR (y AND z)"

definition fips_Sigma0 :: "u32 \<Rightarrow> u32" where
  "fips_Sigma0 x = word_rotr 2 x XOR word_rotr 13 x XOR word_rotr 22 x"

definition fips_Sigma1 :: "u32 \<Rightarrow> u32" where
  "fips_Sigma1 x = word_rotr 6 x XOR word_rotr 11 x XOR word_rotr 25 x"

definition fips_sigma0 :: "u32 \<Rightarrow> u32" where
  "fips_sigma0 x = word_rotr 7 x XOR word_rotr 18 x XOR drop_bit 3 x"

definition fips_sigma1 :: "u32 \<Rightarrow> u32" where
  "fips_sigma1 x = word_rotr 17 x XOR word_rotr 19 x XOR drop_bit 10 x"

definition sha256_K :: "u32 list" where
  "sha256_K = [
    1116352408, 1899447441, 3049323471, 3921009573, 961987163, 1508970993, 2453635748, 2870763221,
    3624381080, 310598401, 607225278, 1426881987, 1925078388, 2162078206, 2614888103, 3248222580,
    3835390401, 4022224774, 264347078, 604807628, 770255983, 1249150122, 1555081692, 1996064986,
    2554220882, 2821834349, 2952996808, 3210313671, 3336571891, 3584528711, 113926993, 338241895,
    666307205, 773529912, 1294757372, 1396182291, 1695183700, 1986661051, 2177026350, 2456956037,
    2730485921, 2820302411, 3259730800, 3345764771, 3516065817, 3600352804, 4094571909, 275423344,
    430227734, 506948616, 659060556, 883997877, 958139571, 1322822218, 1537002063, 1747873779,
    1955562222, 2024104815, 2227730452, 2361852424, 2428436474, 2756734187, 3204031479, 3329325298]"

text \<open>
  The standard defines the constants as the first 32 bits of the fractional parts of the cube roots
  of the first 64 primes; the table is checked against that definition below.
\<close>

definition primes64 :: "nat list" where
  "primes64 = [
    2, 3, 5, 7, 11, 13, 17, 19, 23, 29, 31, 37, 41, 43, 47, 53,
    59, 61, 67, 71, 73, 79, 83, 89, 97, 101, 103, 107, 109, 113, 127, 131,
    137, 139, 149, 151, 157, 163, 167, 173, 179, 181, 191, 193, 197, 199, 211, 223,
    227, 229, 233, 239, 241, 251, 257, 263, 269, 271, 277, 281, 283, 293, 307, 311]"

definition cube_root_fraction :: "nat \<Rightarrow> nat \<Rightarrow> bool" where
  "cube_root_fraction p k \<longleftrightarrow>
     (\<exists>q \<in> {1, 2, 3, 4, 5, 6}. (q * 2 ^ 32 + k) ^ 3 \<le> p * 2 ^ 96 \<and> p * 2 ^ 96 < (q * 2 ^ 32 + k + 1) ^ 3)"

primrec sched_ext :: "nat \<Rightarrow> u32 list \<Rightarrow> u32 list" where
  "sched_ext 0 ws = ws"
| "sched_ext (Suc n) ws =
     (let vs = sched_ext n ws; t = length vs
      in vs @ [fips_sigma1 (vs ! (t - 2)) + vs ! (t - 7) + fips_sigma0 (vs ! (t - 15)) + vs ! (t - 16)])"

definition fips_schedule :: "u32 list \<Rightarrow> u32 list" where
  "fips_schedule m = sched_ext 48 m"

definition fips_step :: "u32 list \<Rightarrow> nat \<Rightarrow> u32 list \<Rightarrow> u32 list" where
  "fips_step ws t s =
     (let t1 = s ! 7 + fips_Sigma1 (s ! 4) + fips_Ch (s ! 4) (s ! 5) (s ! 6) + sha256_K ! t + ws ! t;
          t2 = fips_Sigma0 (s ! 0) + fips_Maj (s ! 0) (s ! 1) (s ! 2)
      in [t1 + t2, s ! 0, s ! 1, s ! 2, s ! 3 + t1, s ! 4, s ! 5, s ! 6])"

definition block_words :: "bytes \<Rightarrow> u32 list" where
  "block_words chunk = map (\<lambda>i. ReadBE32 (drop (4 * i) chunk)) [0..<16]"

definition fips_compress :: "u32 list \<Rightarrow> bytes \<Rightarrow> u32 list" where
  "fips_compress s chunk = map2 (+) s (fold (fips_step (fips_schedule (block_words chunk))) [0..<64] s)"

section \<open>The boolean functions agree with the standard\<close>

lemma rotr_shifts:
  fixes x :: u32
  assumes "0 < k" "k < 32"
  shows "drop_bit k x OR push_bit (32 - k) x = word_rotr k x"
proof (rule bit_word_eqI)
  fix n
  assume "n < LENGTH(32)"
  then have n: "n < 32" by simp
  show "bit (drop_bit k x OR push_bit (32 - k) x) n = bit (word_rotr k x) n"
  proof (cases "n + k < 32")
    case True
    with assms n show ?thesis by (auto simp: bit_simps bit_word_rotr_iff add.commute)
  next
    case False
    then have "(n + k) mod 32 = n - (32 - k)" using assms n by (simp add: mod_if)
    moreover have "\<not> bit x (k + n)" using False by (auto dest: bit_imp_le_length)
    ultimately show ?thesis using False assms n by (auto simp: bit_simps bit_word_rotr_iff)
  qed
qed

lemma fips_functions:
  "Ch x y z = fips_Ch x y z" "Maj x y z = fips_Maj x y z"
  "Sigma0 x = fips_Sigma0 x" "Sigma1 x = fips_Sigma1 x"
  "sigma0 x = fips_sigma0 x" "sigma1 x = fips_sigma1 x"
proof -
  show "Ch x y z = fips_Ch x y z" "Maj x y z = fips_Maj x y z"
    by (auto intro!: bit_word_eqI simp: Ch_def Maj_def fips_Ch_def fips_Maj_def bit_simps)
  have r: "drop_bit 2 x OR push_bit 30 x = word_rotr 2 x" "drop_bit 13 x OR push_bit 19 x = word_rotr 13 x"
    "drop_bit 22 x OR push_bit 10 x = word_rotr 22 x" "drop_bit 6 x OR push_bit 26 x = word_rotr 6 x"
    "drop_bit 11 x OR push_bit 21 x = word_rotr 11 x" "drop_bit 25 x OR push_bit 7 x = word_rotr 25 x"
    "drop_bit 7 x OR push_bit 25 x = word_rotr 7 x" "drop_bit 18 x OR push_bit 14 x = word_rotr 18 x"
    "drop_bit 17 x OR push_bit 15 x = word_rotr 17 x" "drop_bit 19 x OR push_bit 13 x = word_rotr 19 x"
    using rotr_shifts [of 2 x] rotr_shifts [of 13 x] rotr_shifts [of 22 x] rotr_shifts [of 6 x]
      rotr_shifts [of 11 x] rotr_shifts [of 25 x] rotr_shifts [of 7 x] rotr_shifts [of 18 x]
      rotr_shifts [of 17 x] rotr_shifts [of 19 x] by simp_all
  show "Sigma0 x = fips_Sigma0 x" "Sigma1 x = fips_Sigma1 x" "sigma0 x = fips_sigma0 x" "sigma1 x = fips_sigma1 x"
    by (simp_all only: Sigma0_def Sigma1_def sigma0_def sigma1_def fips_Sigma0_def fips_Sigma1_def
        fips_sigma0_def fips_sigma1_def r)
qed

section \<open>The rotating registers\<close>

definition rot_args :: "nat \<Rightarrow> nat list" where
  "rot_args t = map (\<lambda>j. (j + 7 * t) mod 8) [0..<8]"

definition rot_rel :: "nat \<Rightarrow> u32 list \<Rightarrow> u32 list \<Rightarrow> bool" where
  "rot_rel t regs spec \<longleftrightarrow> length regs = 8 \<and> spec = map (\<lambda>j. regs ! ((j + 7 * t) mod 8)) [0..<8]"

lemma list8_cases:
  assumes "length xs = 8"
  obtains a b c d e f g h where "xs = [a, b, c, d, e, f, g, h]"
  using assms by (auto simp: length_Suc_conv numeral_eq_Suc)

lemma rot_args_mod: "rot_args t = rot_args (t mod 8)"
proof -
  have "(j + 7 * t) mod 8 = (j + 7 * (t mod 8)) mod 8" for j :: nat
    by (metis mod_add_right_eq mod_mult_right_eq)
  then show ?thesis by (simp add: rot_args_def)
qed

lemma rot_rel_mod: "rot_rel t = rot_rel (t mod 8)"
proof -
  have "(j + 7 * t) mod 8 = (j + 7 * (t mod 8)) mod 8" for j :: nat
    by (metis mod_add_right_eq mod_mult_right_eq)
  then show ?thesis by (simp add: rot_rel_def fun_eq_iff)
qed

lemma upt_0_8: "[0..<8] = [0, 1, 2, 3, 4, 5, 6, 7 :: nat]"
  by (simp add: upt_rec)

lemma rot_rel_step:
  assumes rel: "rot_rel t regs spec"
    and act: "exec_waction ReadBE32 chunk w act = (v, w')" "k + v = sha256_K ! t + ws ! t"
  shows "\<exists>regs'. exec_round chunk (RND (rot_args t) k act) (regs, w) = (regs', w')
    \<and> rot_rel (Suc t) regs' (fips_step ws t spec)"
proof -
  define r where "r = t mod 8"
  have r8: "r < 8" by (simp add: r_def)
  have suc: "rot_rel (Suc t) = rot_rel (Suc r)"
    by (subst (1 2) rot_rel_mod) (simp add: r_def mod_Suc_eq)
  obtain a b c d e f g h where regs: "regs = [a, b, c, d, e, f, g, h]"
    using rel list8_cases [of regs] unfolding rot_rel_def by metis
  have "rot_rel r regs spec" using rel rot_rel_mod [of t] by (simp add: r_def)
  then have spec: "spec = map (\<lambda>j. regs ! ((j + 7 * r) mod 8)) [0..<8]"
    by (simp add: rot_rel_def)
  have args: "rot_args t = rot_args r" using rot_args_mod by (simp add: r_def)
  have kv: "fips_step ws t s =
     (let t1 = s ! 7 + fips_Sigma1 (s ! 4) + fips_Ch (s ! 4) (s ! 5) (s ! 6) + (k + v);
          t2 = fips_Sigma0 (s ! 0) + fips_Maj (s ! 0) (s ! 1) (s ! 2)
      in [t1 + t2, s ! 0, s ! 1, s ! 2, s ! 3 + t1, s ! 4, s ! 5, s ! 6])" for s
    by (simp only: fips_step_def act(2) add.assoc)
  consider "r = 0" | "r = 1" | "r = 2" | "r = 3" | "r = 4" | "r = 5" | "r = 6" | "r = 7"
    using r8 by linarith
  then show ?thesis
    unfolding args suc
    by cases (simp_all add: spec regs kv rot_args_def rot_rel_def upt_0_8 act(1) Round_def Let_def fips_functions)
qed

section \<open>The message schedule in place\<close>

lemma length_sched_ext [simp]: "length (sched_ext n m) = n + length m"
  by (induction n) (simp_all add: Let_def)

lemma nth_sched_ext_old: "i < length m + n \<Longrightarrow> sched_ext (n + k) m ! i = sched_ext n m ! i"
  by (induction k) (simp_all add: Let_def nth_append)

lemma nth_sched_ext_init: "i < length m \<Longrightarrow> sched_ext n m ! i = m ! i"
  using nth_sched_ext_old [of i m 0 n] by simp

lemma nth_sched_ext_new:
  assumes "length m = 16" "16 \<le> t" "t < 16 + n"
  shows "sched_ext n m ! t =
    fips_sigma1 (sched_ext n m ! (t - 2)) + sched_ext n m ! (t - 7) + fips_sigma0 (sched_ext n m ! (t - 15))
      + sched_ext n m ! (t - 16)"
proof -
  define k where "k = t - 16"
  have t: "t = k + 16" using assms(2) by (simp add: k_def)
  obtain j where n: "n = Suc k + j" using assms(3) t by (metis add_less_cancel_left add.commute less_iff_Suc_add add_Suc)
  have old: "sched_ext n m ! i = sched_ext k m ! i" if "i < 16 + k" for i
    using nth_sched_ext_old [of i m k "Suc j"] that assms(1) by (simp add: n)
  have "sched_ext n m ! t = sched_ext (Suc k) m ! t"
    using nth_sched_ext_old [of t m "Suc k" j] assms(1) by (simp add: n t)
  also have "\<dots> = fips_sigma1 (sched_ext k m ! (t - 2)) + sched_ext k m ! (t - 7)
      + fips_sigma0 (sched_ext k m ! (t - 15)) + sched_ext k m ! (t - 16)"
    using assms(1) by (simp add: Let_def t nth_append)
  finally show ?thesis by (simp add: old t)
qed

lemma length_block_words [simp]: "length (block_words chunk) = 16"
  by (simp add: block_words_def)

definition w_rel :: "nat \<Rightarrow> u32 list \<Rightarrow> u32 list \<Rightarrow> bool" where
  "w_rel t w ws \<longleftrightarrow> length w = 16 \<and> (\<forall>u < t. u < 62 \<longrightarrow> t \<le> u + 16 \<longrightarrow> w ! (u mod 16) = ws ! u)"

definition gen_action :: "nat \<Rightarrow> waction" where
  "gen_action t =
     (if t < 16 then WLoad t (4 * t)
      else if t < 62 then WInc (t mod 16) [TS1 ((t + 14) mod 16), TW ((t + 9) mod 16), TS0 ((t + 1) mod 16)]
      else WSum [TW (t mod 16), TS1 ((t + 14) mod 16), TW ((t + 9) mod 16), TS0 ((t + 1) mod 16)])"

lemma mod16_shift: "d \<le> 16 \<Longrightarrow> 16 \<le> t \<Longrightarrow> (t + (16 - d)) mod 16 = (t - d) mod 16" for t d :: nat
proof -
  assume "d \<le> 16" "16 \<le> t"
  then have "t + (16 - d) = (t - d) + 16" by simp
  then show ?thesis by simp
qed

lemma w_rel_nth:
  assumes "w_rel t w ws" "16 \<le> t" "0 < d" "d \<le> 16" "t - d < 62"
  shows "w ! ((t + (16 - d)) mod 16) = ws ! (t - d)"
proof -
  have "t - d < t" "t \<le> t - d + 16" using assms by linarith+
  with assms show ?thesis by (simp only: mod16_shift w_rel_def)
qed

lemma w_rel_window:
  assumes "w_rel t w ws" "16 \<le> t" "t < 64"
  shows "w ! (t mod 16) = ws ! (t - 16)" "w ! ((t + 14) mod 16) = ws ! (t - 2)"
    "w ! ((t + 9) mod 16) = ws ! (t - 7)" "w ! ((t + 1) mod 16) = ws ! (t - 15)"
  using w_rel_nth [OF assms(1,2), of 16] w_rel_nth [OF assms(1,2), of 2]
    w_rel_nth [OF assms(1,2), of 7] w_rel_nth [OF assms(1,2), of 15] assms(3)
  by simp_all

lemma mod16_inj: "u \<le> t \<Longrightarrow> t < u + 16 \<Longrightarrow> t mod 16 = u mod 16 \<Longrightarrow> u = t" for u t :: nat
  by (rule ccontr) (use nat_dvd_not_less [of "t - u" 16] in \<open>auto simp: mod_eq_dvd_iff_nat\<close>)

lemma gen_action_step:
  assumes "w_rel t w ws" "t < 64" "t < 16 \<Longrightarrow> ws ! t = ReadBE32 (drop (4 * t) chunk)"
    "ws = fips_schedule m" "length m = 16"
  shows "\<exists>w'. exec_waction ReadBE32 chunk w (gen_action t) = (ws ! t, w') \<and> w_rel (Suc t) w' ws"
proof -
  have len: "length w = 16" using assms(1) by (simp add: w_rel_def)
  have sched: "ws ! t = fips_sigma1 (ws ! (t - 2)) + ws ! (t - 7) + fips_sigma0 (ws ! (t - 15)) + ws ! (t - 16)"
    if "16 \<le> t" using that assms(2) nth_sched_ext_new [OF assms(5) that, of 48]
    by (simp add: assms(4) fips_schedule_def)
  consider "t < 16" | "16 \<le> t" "t < 62" | "62 \<le> t" by linarith
  then show ?thesis
  proof cases
    case 1
    then have "ws ! t = ReadBE32 (drop (4 * t) chunk)" by (rule assms(3))
    with 1 assms(1) show ?thesis
      by (auto simp: gen_action_def w_rel_def nth_list_update less_Suc_eq)
  next
    case 2
    note val = w_rel_window [OF assms(1) _ assms(2), simplified]
    have "w ! (t mod 16) + wsum w [TS1 ((t + 14) mod 16), TW ((t + 9) mod 16), TS0 ((t + 1) mod 16)] = ws ! t"
      using 2 by (simp add: val sched wsum_def fips_functions add.commute [of "ws ! (t - 16)"] add.assoc)
    moreover have "w_rel (Suc t) (w[t mod 16 := ws ! t]) ws"
      unfolding w_rel_def
    proof (intro conjI allI impI)
      fix u
      assume u: "u < Suc t" "u < 62" "Suc t \<le> u + 16"
      show "w[t mod 16 := ws ! t] ! (u mod 16) = ws ! u"
      proof (cases "u = t")
        case False
        then have "t mod 16 \<noteq> u mod 16" using u mod16_inj [of u t] by auto
        with False u assms(1) show ?thesis by (simp add: w_rel_def)
      qed (simp add: len)
    qed (simp add: len)
    ultimately show ?thesis using 2 by (simp add: gen_action_def)
  next
    case 3
    note val = w_rel_window [OF assms(1) _ assms(2), simplified]
    from 3 have "16 \<le> t" by simp
    then have "wsum w [TW (t mod 16), TS1 ((t + 14) mod 16), TW ((t + 9) mod 16), TS0 ((t + 1) mod 16)] = ws ! t"
      by (simp add: val sched wsum_def fips_functions ac_simps)
    moreover have "w_rel (Suc t) w ws" using assms(1) 3 by (auto simp: w_rel_def)
    ultimately show ?thesis using 3 by (simp add: gen_action_def)
  qed
qed

definition gen_round :: "nat \<Rightarrow> round_instr" where
  "gen_round t = RND (rot_args t) (sha256_K ! t) (gen_action t)"

text \<open>
  A run of consecutive rounds simulates the steps of the standard when every line consumes the
  right constant and schedule word; \<open>R\<close> relates the in-place schedule words to the schedule.
\<close>

lemma exec_rounds_sim:
  assumes step: "\<And>t w. a \<le> t \<Longrightarrow> t < b \<Longrightarrow> R t w \<Longrightarrow>
      \<exists>k act v w'. I t = RND (rot_args t) k act \<and> exec_waction ReadBE32 chunk w act = (v, w')
        \<and> k + v = sha256_K ! t + ws ! t \<and> R (Suc t) w'"
    and "a \<le> b" "rot_rel a regs spec" "R a w"
  shows "\<exists>regs' w'. fold (exec_round chunk) (map I [a..<b]) (regs, w) = (regs', w')
     \<and> rot_rel b regs' (fold (fips_step ws) [a..<b] spec) \<and> R b w'"
  using \<open>a \<le> b\<close> step
proof (induction b rule: dec_induct)
  case base
  then show ?case using assms(3,4) by simp
next
  case (step n)
  then obtain regs' w' where IH: "fold (exec_round chunk) (map I [a..<n]) (regs, w) = (regs', w')"
    "rot_rel n regs' (fold (fips_step ws) [a..<n] spec)" "R n w'" by auto
  obtain k act v w'' where I: "I n = RND (rot_args n) k act" "exec_waction ReadBE32 chunk w' act = (v, w'')"
    "k + v = sha256_K ! n + ws ! n" "R (Suc n) w''"
    using step.prems [OF step.hyps(1) _ IH(3)] by auto
  obtain regs'' where "exec_round chunk (I n) (regs', w') = (regs'', w'')"
     "rot_rel (Suc n) regs'' (fips_step ws n (fold (fips_step ws) [a..<n] spec))"
    using rot_rel_step [OF IH(2) I(2,3)] unfolding I(1) by blast
  with IH(1) I(4) step.hyps(1) show ?case by simp
qed

lemma rot_rel_0: "length s = 8 \<Longrightarrow> rot_rel 0 s s"
  by (erule list8_cases) (simp add: rot_rel_def upt_0_8)

lemma exec_gen_rounds_from:
  assumes "a \<le> 64" "16 \<le> a \<or> block_words chunk = take 16 ws" "rot_rel a regs spec" "w_rel a w ws" "ws = fips_schedule m" "length m = 16"
  shows "\<exists>regs' w'. fold (exec_round chunk) (map gen_round [a..<64]) (regs, w) = (regs', w')
     \<and> rot_rel 64 regs' (fold (fips_step ws) [a..<64] spec) \<and> w_rel 64 w' ws"
proof (rule exec_rounds_sim [where R = "\<lambda>t w. w_rel t w ws", OF _ assms(1,3,4)])
  fix t w
  assume t: "a \<le> t" "t < 64" and "w_rel t w ws"
  moreover have "t < 16 \<Longrightarrow> ws ! t = ReadBE32 (drop (4 * t) chunk)"
  proof -
    assume "t < 16"
    with assms(2) t(1) have "block_words chunk ! t = take 16 ws ! t" by simp
    with \<open>t < 16\<close> show ?thesis by (simp add: block_words_def)
  qed
  ultimately show "\<exists>k act v w'. gen_round t = RND (rot_args t) k act \<and> exec_waction ReadBE32 chunk w act = (v, w')
        \<and> k + v = sha256_K ! t + ws ! t \<and> w_rel (Suc t) w' ws"
    using gen_action_step [OF _ _ _ assms(5,6)] by (auto simp: gen_round_def)
qed

lemma take_fips_schedule: "length m = 16 \<Longrightarrow> take 16 (fips_schedule m) = m"
  by (rule nth_equalityI) (simp_all add: fips_schedule_def nth_sched_ext_init)

lemma exec_gen_rounds:
  assumes "rot_rel 0 regs spec" "w_rel 0 w ws" "ws = fips_schedule (block_words chunk)"
  shows "\<exists>regs' w'. fold (exec_round chunk) (map gen_round [0..<64]) (regs, w) = (regs', w')
     \<and> rot_rel 64 regs' (fold (fips_step ws) [0..<64] spec) \<and> w_rel 64 w' ws"
  by (rule exec_gen_rounds_from [OF _ _ assms length_block_words]) (simp_all add: assms(3) take_fips_schedule)

lemma Transform_rounds_gen: "Transform_rounds = map gen_round [0..<64]"
  by code_simp

lemma rot_rel_64: "rot_rel 64 regs spec \<Longrightarrow> regs = spec"
proof -
  assume "rot_rel 64 regs spec"
  moreover from this obtain a b c d e f g h where "regs = [a, b, c, d, e, f, g, h]"
    using list8_cases [of regs] unfolding rot_rel_def by metis
  ultimately show ?thesis by (simp add: rot_rel_def upt_0_8)
qed

lemma w_rel_0: "length w = 16 \<Longrightarrow> w_rel 0 w ws"
  by (simp add: w_rel_def)

lemma Transform_block_fips:
  assumes "length s = 8" "length w = 16"
  shows "Transform_block w s chunk = fips_compress s chunk"
  using exec_gen_rounds [OF rot_rel_0 [OF assms(1)] w_rel_0 [OF assms(2)] refl, of chunk]
  by (auto simp: Transform_block_def fips_compress_def Transform_rounds_gen dest!: rot_rel_64)

lemma TransformD64_rounds1_gen: "TransformD64_rounds1 = map gen_round [0..<64]"
  by code_simp

lemma length_fips_step [simp]: "length (fips_step ws t s) = 8"
  by (simp add: fips_step_def Let_def)

lemma length_fold_fips_step: "length s = 8 \<Longrightarrow> length (fold (fips_step ws) ts s) = 8"
  by (induction ts arbitrary: s) simp_all

lemma length_fips_compress [simp]: "length s = 8 \<Longrightarrow> length (fips_compress s chunk) = 8"
  by (simp add: fips_compress_def length_fold_fips_step)

lemma map2_add_commute: "map2 (+) xs ys = map2 (+) ys xs" for xs ys :: "u32 list"
  by (induction xs ys rule: list_induct2') (simp_all add: add.commute)

definition const_round :: "(nat \<Rightarrow> u32) \<Rightarrow> nat \<Rightarrow> round_instr" where
  "const_round k t = RND (rot_args t) (k t) NoW"

lemma exec_const_rounds:
  assumes "length s = 8"
  shows "\<exists>regs. fold (exec_round chunk) (map (const_round (\<lambda>t. sha256_K ! t + ws ! t)) [0..<64]) (s, w) = (regs, w)
    \<and> regs = fold (fips_step ws) [0..<64] s"
  using exec_rounds_sim [of 0 64 "\<lambda>t v. v = w" "const_round (\<lambda>t. sha256_K ! t + ws ! t)" chunk ws s s w]
    rot_rel_0 [OF assms] by (auto simp: const_round_def dest: rot_rel_64)

definition pad1_words :: "u32 list" where
  "pad1_words = [0x80000000, 0, 0, 0, 0, 0, 0, 0, 0, 0, 0, 0, 0, 0, 0, 0x200]"


lemma block_words_padding1: "block_words padding1 = pad1_words"
  by (simp add: block_words_def padding1_def pad1_words_def ReadBE32_def upt_rec)

lemmas fips_sigma_code [code] = fips_functions(5,6) [symmetric]

fun instr_const :: "round_instr \<Rightarrow> u32" where
  "instr_const (RND r k act) = k"

lemma rounds2_consts: "map instr_const TransformD64_rounds2 = map2 (+) sha256_K (fips_schedule pad1_words)"
  by code_simp

lemma TransformD64_rounds2_const:
  "TransformD64_rounds2 = map (const_round (\<lambda>t. map instr_const TransformD64_rounds2 ! t)) [0..<64]"
  by code_simp

lemma rounds2_run:
  assumes "length s = 8"
  shows "fold (exec_round chunk) TransformD64_rounds2 (s, w)
    = (fold (fips_step (fips_schedule (block_words padding1))) [0..<64] s, w)"
proof -
  have len: "length (fips_schedule pad1_words) = 64" "length sha256_K = 64"
    by (simp_all add: fips_schedule_def pad1_words_def sha256_K_def)
  have "const_round (\<lambda>t. map instr_const TransformD64_rounds2 ! t) t
      = const_round (\<lambda>t. sha256_K ! t + fips_schedule pad1_words ! t) t" if "t < 64" for t
    using that len by (simp add: const_round_def rounds2_consts)
  then have "TransformD64_rounds2 = map (const_round (\<lambda>t. sha256_K ! t + fips_schedule pad1_words ! t)) [0..<64]"
    by (subst TransformD64_rounds2_const) simp
  with exec_const_rounds [OF assms, of chunk "fips_schedule pad1_words" w] show ?thesis
    by (auto simp: block_words_padding1)
qed

definition pad2_words :: "u32 list" where
  "pad2_words = [0x80000000, 0, 0, 0, 0, 0, 0, 0x100]"

lemma block_words_buffer2:
  assumes "length s = 8"
  shows "block_words (concat (map WriteBE32 s) @ drop 32 buffer2_init) = s @ pad2_words"
proof -
  obtain a b c d e f g h where "s = [a, b, c, d, e, f, g, h]" using assms by (rule list8_cases)
  then show ?thesis
    by (simp add: block_words_def upt_rec drop_append)
      (simp add: buffer2_init_def pad2_words_def ReadBE32_def)
qed

text \<open>The first sixteen derived schedule words, with the constant padding words folded in.\<close>

lemma pad2_schedule:
  assumes "length s = 8" "ws = fips_schedule (s @ pad2_words)"
  shows "\<And>i. i < 8 \<Longrightarrow> ws ! i = s ! i"
    "ws ! 8 = 0x80000000" "ws ! 9 = 0" "ws ! 10 = 0" "ws ! 11 = 0" "ws ! 12 = 0" "ws ! 13 = 0" "ws ! 14 = 0" "ws ! 15 = 0x100"
    "ws ! 16 = ws ! 0 + sigma0 (ws ! 1)"
    "ws ! 17 = ws ! 1 + (0xa00000 + sigma0 (ws ! 2))"
    "ws ! 18 = ws ! 2 + (sigma1 (ws ! 16) + sigma0 (ws ! 3))"
    "ws ! 19 = ws ! 3 + (sigma1 (ws ! 17) + sigma0 (ws ! 4))"
    "ws ! 20 = ws ! 4 + (sigma1 (ws ! 18) + sigma0 (ws ! 5))"
    "ws ! 21 = ws ! 5 + (sigma1 (ws ! 19) + sigma0 (ws ! 6))"
    "ws ! 22 = ws ! 6 + (sigma1 (ws ! 20) + (0x100 + sigma0 (ws ! 7)))"
    "ws ! 23 = ws ! 7 + (sigma1 (ws ! 21) + (ws ! 16 + 0x11002000))"
    "ws ! 24 = 0x80000000 + (sigma1 (ws ! 22) + ws ! 17)"
    "ws ! 25 = sigma1 (ws ! 23) + ws ! 18"
    "ws ! 26 = sigma1 (ws ! 24) + ws ! 19"
    "ws ! 27 = sigma1 (ws ! 25) + ws ! 20"
    "ws ! 28 = sigma1 (ws ! 26) + ws ! 21"
    "ws ! 29 = sigma1 (ws ! 27) + ws ! 22"
    "ws ! 30 = sigma1 (ws ! 28) + (ws ! 23 + 0x400022)"
    "ws ! 31 = 0x100 + (sigma1 (ws ! 29) + (ws ! 24 + sigma0 (ws ! 16)))"
proof -
  have len: "length (s @ pad2_words) = 16" by (simp add: assms(1) pad2_words_def)
  have init: "ws ! i = (s @ pad2_words) ! i" if "i < 16" for i
    using that len by (simp add: assms(2) fips_schedule_def nth_sched_ext_init)
  show c: "ws ! 8 = 0x80000000" "ws ! 9 = 0" "ws ! 10 = 0" "ws ! 11 = 0" "ws ! 12 = 0" "ws ! 13 = 0" "ws ! 14 = 0" "ws ! 15 = 0x100"
    by (simp_all add: init nth_append assms(1)) (simp_all add: pad2_words_def)
  show "\<And>i. i < 8 \<Longrightarrow> ws ! i = s ! i" by (simp add: init nth_append assms(1))
  have step: "ws ! t = sigma1 (ws ! (t - 2)) + ws ! (t - 7) + sigma0 (ws ! (t - 15)) + ws ! (t - 16)"
    if "16 \<le> t" "t < 64" for t
    using nth_sched_ext_new [OF len that(1), of 48] that by (simp add: assms(2) fips_schedule_def fips_functions)
  have z: "sigma0 0 = 0" "sigma1 0 = 0" "sigma1 0x100 = 0xa00000" "sigma0 0x80000000 = 0x11002000" "sigma0 0x100 = 0x400022"
    by (simp_all add: sigma0_def sigma1_def)
  show "ws ! 16 = ws ! 0 + sigma0 (ws ! 1)"
    using step [of 16] by (simp add: c z ac_simps)
  show "ws ! 17 = ws ! 1 + (0xa00000 + sigma0 (ws ! 2))"
    using step [of 17] by (simp add: c z ac_simps)
  show "ws ! 18 = ws ! 2 + (sigma1 (ws ! 16) + sigma0 (ws ! 3))"
    using step [of 18] by (simp add: c z ac_simps)
  show "ws ! 19 = ws ! 3 + (sigma1 (ws ! 17) + sigma0 (ws ! 4))"
    using step [of 19] by (simp add: c z ac_simps)
  show "ws ! 20 = ws ! 4 + (sigma1 (ws ! 18) + sigma0 (ws ! 5))"
    using step [of 20] by (simp add: c z ac_simps)
  show "ws ! 21 = ws ! 5 + (sigma1 (ws ! 19) + sigma0 (ws ! 6))"
    using step [of 21] by (simp add: c z ac_simps)
  show "ws ! 22 = ws ! 6 + (sigma1 (ws ! 20) + (0x100 + sigma0 (ws ! 7)))"
    using step [of 22] by (simp add: c z ac_simps)
  show "ws ! 23 = ws ! 7 + (sigma1 (ws ! 21) + (ws ! 16 + 0x11002000))"
    using step [of 23] by (simp add: c z ac_simps)
  show "ws ! 24 = 0x80000000 + (sigma1 (ws ! 22) + ws ! 17)"
    using step [of 24] by (simp add: c z ac_simps)
  show "ws ! 25 = sigma1 (ws ! 23) + ws ! 18"
    using step [of 25] by (simp add: c z ac_simps)
  show "ws ! 26 = sigma1 (ws ! 24) + ws ! 19"
    using step [of 26] by (simp add: c z ac_simps)
  show "ws ! 27 = sigma1 (ws ! 25) + ws ! 20"
    using step [of 27] by (simp add: c z ac_simps)
  show "ws ! 28 = sigma1 (ws ! 26) + ws ! 21"
    using step [of 28] by (simp add: c z ac_simps)
  show "ws ! 29 = sigma1 (ws ! 27) + ws ! 22"
    using step [of 29] by (simp add: c z ac_simps)
  show "ws ! 30 = sigma1 (ws ! 28) + (ws ! 23 + 0x400022)"
    using step [of 30] by (simp add: c z ac_simps)
  show "ws ! 31 = 0x100 + (sigma1 (ws ! 29) + (ws ! 24 + sigma0 (ws ! 16)))"
    using step [of 31] by (simp add: c z ac_simps)
qed

definition w3_words :: "u32 list \<Rightarrow> (nat \<Rightarrow> u32) \<Rightarrow> nat \<Rightarrow> u32 list" where
  "w3_words ws x t =
     map (\<lambda>i. if 16 + i < t then ws ! (16 + i) else if i < 8 then ws ! i else x i) [0..<16]"

lemma upt_0_16: "[0..<16] = [0, 1, 2, 3, 4, 5, 6, 7, 8, 9, 10, 11, 12, 13, 14, 15 :: nat]"
  by (simp add: upt_rec)

lemma nat_less_32_cases:
  fixes t :: nat
  assumes "t < 32"
  shows "t = 0 \<or> t = 1 \<or> t = 2 \<or> t = 3 \<or> t = 4 \<or> t = 5 \<or> t = 6 \<or> t = 7 \<or>
    t = 8 \<or> t = 9 \<or> t = 10 \<or> t = 11 \<or> t = 12 \<or> t = 13 \<or> t = 14 \<or> t = 15 \<or>
    t = 16 \<or> t = 17 \<or> t = 18 \<or> t = 19 \<or> t = 20 \<or> t = 21 \<or> t = 22 \<or> t = 23 \<or>
    t = 24 \<or> t = 25 \<or> t = 26 \<or> t = 27 \<or> t = 28 \<or> t = 29 \<or> t = 30 \<or> t = 31"
proof -
  have "[0..<32] = [0, 1, 2, 3, 4, 5, 6, 7, 8, 9, 10, 11, 12, 13, 14, 15,
    16, 17, 18, 19, 20, 21, 22, 23, 24, 25, 26, 27, 28, 29, 30, 31 :: nat]"
    by (simp add: upt_rec)
  moreover have "t \<in> set [0..<32]" using assms by simp
  ultimately show ?thesis by (simp only: list.set insert_iff empty_iff simp_thms)
qed

lemma rounds3_step:
  assumes "length s = 8" "ws = fips_schedule (s @ pad2_words)" "t < 32" "w = w3_words ws x t"
  shows "\<exists>k act v w'. TransformD64_rounds3 ! t = RND (rot_args t) k act
      \<and> exec_waction ReadBE32 chunk w act = (v, w')
      \<and> k + v = sha256_K ! t + ws ! t \<and> w' = w3_words ws x (Suc t)"
  using nat_less_32_cases [OF assms(3)] unfolding assms(4)
  by (elim disjE)
    (simp_all add: TransformD64_rounds3_def rot_args_def upt_0_8 sha256_K_def w3_words_def upt_0_16
        wsum_def pad2_schedule [OF assms(1,2)])

lemma rounds3_gen: "drop 32 TransformD64_rounds3 = map gen_round [32..<64]"
  by code_simp

lemma w3_words_rel: "w_rel 32 (w3_words ws x 32) ws"
  unfolding w_rel_def
proof (intro conjI allI impI)
  fix u :: nat
  assume "u < 32" "32 \<le> u + 16"
  then have "16 + u mod 16 = u" by presburger
  then show "w3_words ws x 32 ! (u mod 16) = ws ! u" by (simp add: w3_words_def)
qed (simp add: w3_words_def)

lemma rounds3_run:
  assumes "length s = 8" "length y = 8" "block_words chunk' = s @ pad2_words"
  shows "\<exists>w'. fold (exec_round chunk) TransformD64_rounds3 (sha256_Initialize, s @ y)
     = (fold (fips_step (fips_schedule (block_words chunk'))) [0..<64] sha256_Initialize, w')"
proof -
  define ws where "ws = fips_schedule (s @ pad2_words)"
  define x where "x i = y ! (i - 8)" for i
  have w: "s @ y = w3_words ws x 0"
    by (rule nth_equalityI) (use assms(1,2) in \<open>auto simp: w3_words_def x_def nth_append ws_def pad2_schedule(1) [OF assms(1) refl]\<close>)
  have all: "TransformD64_rounds3 = map ((!) TransformD64_rounds3) [0..<32] @ map gen_round [32..<64]"
  proof -
    have "length TransformD64_rounds3 = 64" by (simp add: TransformD64_rounds3_def)
    then have "take 32 TransformD64_rounds3 = map ((!) TransformD64_rounds3) [0..<32]"
      by (intro nth_equalityI) simp_all
    then show ?thesis by (metis append_take_drop_id rounds3_gen)
  qed
  have "rot_rel 0 sha256_Initialize sha256_Initialize"
    by (rule rot_rel_0) (simp add: sha256_Initialize_def)
  then obtain regs w' where first: "fold (exec_round chunk) (map ((!) TransformD64_rounds3) [0..<32]) (sha256_Initialize, s @ y) = (regs, w')"
    "rot_rel 32 regs (fold (fips_step ws) [0..<32] sha256_Initialize)" "w' = w3_words ws x 32"
    using exec_rounds_sim [of 0 32 "\<lambda>t w. w = w3_words ws x t" "(!) TransformD64_rounds3" chunk ws]
      rounds3_step [OF assms(1) ws_def, of _ _ x chunk] w by blast
  have len: "length (s @ pad2_words) = 16" by (simp add: assms(1) pad2_words_def)
  have wr: "w_rel 32 w' ws" using w3_words_rel first(3) by simp
  have "32 \<le> (64 :: nat)" "16 \<le> (32 :: nat) \<or> block_words chunk = take 16 ws" by simp_all
  from exec_gen_rounds_from [OF this first(2) wr ws_def len]
  obtain regs' w'' where "fold (exec_round chunk) (map gen_round [32..<64]) (regs, w') = (regs', w'')"
    "rot_rel 64 regs' (fold (fips_step ws) [32..<64] (fold (fips_step ws) [0..<32] sha256_Initialize))"
    by blast
  moreover from this have "regs' = fold (fips_step ws) ([0..<32] @ [32..<64]) sha256_Initialize"
    by (simp only: fold_append o_apply rot_rel_64)
  moreover have "[0..<32] @ [32..<64] = [0..<64::nat]" using upt_add_eq_append [of 0 32 32] by simp
  ultimately show ?thesis
    using first(1) by (subst all) (simp only: fold_append o_apply assms(3) ws_def, blast)
qed

lemma TransformD64_fips:
  "TransformD64 inp = concat (map WriteBE32 (fips_compress sha256_Initialize
      (concat (map WriteBE32 (fips_compress (fips_compress sha256_Initialize inp) padding1)) @ drop 32 buffer2_init)))"
proof -
  have I: "length sha256_Initialize = 8" by (simp add: sha256_Initialize_def)
  let ?t = "fips_compress sha256_Initialize inp"
  let ?u = "fips_compress ?t padding1"
  have t: "length ?t = 8" and u: "length ?u = 8" using I by simp_all
  obtain regs w where r1: "fold (exec_round inp) TransformD64_rounds1 (sha256_Initialize, replicate 16 0) = (regs, w)"
    "regs = fold (fips_step (fips_schedule (block_words inp))) [0..<64] sha256_Initialize" "length w = 16"
    using exec_gen_rounds [of sha256_Initialize sha256_Initialize "replicate 16 0" _ inp] rot_rel_0 [OF I] w_rel_0 [of "replicate 16 0"]
    by (auto simp: TransformD64_rounds1_gen w_rel_def dest!: rot_rel_64)
  have t_eq: "map2 (+) regs sha256_Initialize = ?t"
    by (simp only: r1(2) fips_compress_def map2_add_commute [of _ sha256_Initialize])
  obtain w' where r3: "fold (exec_round inp) TransformD64_rounds3 (sha256_Initialize, ?u @ drop 8 w)
     = (fold (fips_step (fips_schedule (block_words (concat (map WriteBE32 ?u) @ drop 32 buffer2_init)))) [0..<64] sha256_Initialize, w')"
    using rounds3_run [OF u _ block_words_buffer2 [OF u], of "drop 8 w" inp] r1(3) by auto
  have "map2 (+) ?t (fold (fips_step (fips_schedule (block_words padding1))) [0..<64] ?t) = ?u"
    by (simp only: fips_compress_def)
  then show ?thesis
    unfolding TransformD64_def Let_def r1(1) prod.case t_eq rounds2_run [OF t]
    by (simp only: r3 prod.case fips_compress_def [of sha256_Initialize "_ @ _"] map2_add_commute [of _ sha256_Initialize])
qed

section \<open>The round constants\<close>

lemma sha256_K_cube_roots: "list_all2 cube_root_fraction primes64 (map unat sha256_K)"
  by (simp add: primes64_def sha256_K_def cube_root_fraction_def)

section \<open>Several blocks\<close>

lemma length_sha256_Initialize [simp]: "length sha256_Initialize = 8"
  by (simp add: sha256_Initialize_def)

lemma block_words_take: "block_words (take 64 chunk) = block_words chunk"
  by (auto simp: block_words_def ReadBE32_def drop_take min_def)

lemma fips_compress_take: "fips_compress s (take 64 chunk) = fips_compress s chunk"
  by (simp add: fips_compress_def block_words_take)

end
