(* ===== verification/Hash_Stream.thy ===== *)
theory Hash_Stream
  imports Prelude
begin

text \<open>
  The streaming discipline shared by the hash classes of the program (SHA-256, SHA-1, SHA-512 and
  RIPEMD-160): a chaining state, a buffer of one block and a 64-bit count of the bytes written.
  \<open>absorbed\<close> is the abstraction: it relates an object to the byte string written so far. The
  locale \<open>block_function\<close> holds the three steps of every \<open>Write\<close> (fill the buffer, process whole
  blocks, keep the rest), and \<open>stream_hash\<close> is the interface the clients of a hash class rely on.
\<close>

record 's hasher =
  hs :: 's
  hbuf :: bytes
  hbytes :: u64

text \<open>\<open>memcpy (buf + off, src, length src)\<close>.\<close>

definition memcpy :: "bytes \<Rightarrow> nat \<Rightarrow> bytes \<Rightarrow> bytes" where
  "memcpy buf off src = take off buf @ src @ drop (off + length src) buf"

primrec iter_blocks :: "nat \<Rightarrow> ('s \<Rightarrow> bytes \<Rightarrow> 's) \<Rightarrow> nat \<Rightarrow> 's \<Rightarrow> bytes \<Rightarrow> 's" where
  "iter_blocks B f 0 s d = s"
| "iter_blocks B f (Suc n) s d = iter_blocks B f n (f s d) (drop B d)"

definition absorbed :: "nat \<Rightarrow> ('s \<Rightarrow> bytes \<Rightarrow> 's) \<Rightarrow> 's \<Rightarrow> 's hasher \<Rightarrow> bytes \<Rightarrow> bool" where
  "absorbed B f init st m \<longleftrightarrow>
     hs st = iter_blocks B f (length m div B) init m \<and> length (hbuf st) = B \<and>
     take (length m mod B) (hbuf st) = drop (B * (length m div B)) m \<and>
     hbytes st = word_of_nat (length m)"

text \<open>The reference form of \<open>Write\<close>, to which the class-specific loops reduce.\<close>

definition stream_tail :: "nat \<Rightarrow> ('s \<Rightarrow> bytes \<Rightarrow> 's) \<Rightarrow> 's hasher \<Rightarrow> bytes \<Rightarrow> nat \<Rightarrow> 's hasher" where
  "stream_tail B f st d r =
     (let k = length d div B;
          st' = st\<lparr>hs := iter_blocks B f k (hs st) d, hbytes := hbytes st + word_of_nat (B * k)\<rparr>;
          d' = drop (B * k) d
      in if d' = [] then st'
         else st'\<lparr>hbuf := memcpy (hbuf st') r d', hbytes := hbytes st' + word_of_nat (length d')\<rparr>)"

definition stream_write :: "nat \<Rightarrow> ('s \<Rightarrow> bytes \<Rightarrow> 's) \<Rightarrow> 's hasher \<Rightarrow> bytes \<Rightarrow> 's hasher" where
  "stream_write B f st d =
     (let r = unat (hbytes st) mod B in
      if r \<noteq> 0 \<and> B \<le> r + length d then
        let buf = memcpy (hbuf st) r (take (B - r) d)
        in stream_tail B f (st\<lparr>hbuf := buf, hbytes := hbytes st + word_of_nat (B - r), hs := f (hs st) buf\<rparr>)
             (drop (B - r) d) 0
      else stream_tail B f st d r)"

lemma length_memcpy [simp]: "off + length src \<le> length buf \<Longrightarrow> length (memcpy buf off src) = length buf"
  by (simp add: memcpy_def)

lemma take_memcpy [simp]:
  "off + length src \<le> length buf \<Longrightarrow> take (off + length src) (memcpy buf off src) = take off buf @ src"
  by (simp add: memcpy_def)

lemma memcpy_full: "off + length src = length buf \<Longrightarrow> memcpy buf off src = take off buf @ src"
  by (simp add: memcpy_def)

locale block_function =
  fixes B :: nat and f :: "'s \<Rightarrow> bytes \<Rightarrow> 's"
  assumes B_pos: "0 < B"
    and B_dvd: "B dvd 2 ^ 64"
    and f_take: "f s (take B d) = f s d"
begin

lemma iter_blocks_add:
  "iter_blocks B f (m + n) s d = iter_blocks B f n (iter_blocks B f m s d) (drop (B * m) d)"
  by (induction m arbitrary: s d) (simp_all add: add.commute)

lemma iter_blocks_append: "B * n \<le> length d \<Longrightarrow> iter_blocks B f n s (d @ e) = iter_blocks B f n s d"
proof (induction n arbitrary: s d)
  case (Suc n)
  then have "B \<le> length d" "B * n \<le> length (drop B d)" by (simp_all add: le_diff_conv2)
  moreover have "f s (d @ e) = f s d"
    using f_take [of s "d @ e"] f_take [of s d] \<open>B \<le> length d\<close> by simp
  ultimately show ?case using Suc.IH [of "drop B d"] by simp
qed simp

lemma bufsize_absorbed: "absorbed B f init st m \<Longrightarrow> unat (hbytes st) mod B = length m mod B"
  using B_dvd by (simp add: absorbed_def unat_of_nat mod_mod_cancel)

lemma absorbedI:
  assumes "length m = B * q + r" "r < B" "hs st = iter_blocks B f q init m" "length (hbuf st) = B"
    "take r (hbuf st) = drop (B * q) m" "hbytes st = word_of_nat (length m)"
  shows "absorbed B f init st m"
proof -
  have "length m div B = q" "length m mod B = r" using assms(1,2) by simp_all
  with assms show ?thesis by (simp add: absorbed_def)
qed

lemma absorbed_fill:
  assumes abs: "absorbed B f init st m" and r: "length m mod B \<noteq> 0" "B \<le> length m mod B + length d"
    and buf: "buf = memcpy (hbuf st) (length m mod B) (take (B - length m mod B) d)"
  shows "absorbed B f init
     (st\<lparr>hbuf := buf, hbytes := hbytes st + word_of_nat (B - length m mod B), hs := f (hs st) buf\<rparr>)
     (m @ take (B - length m mod B) d)"
proof (rule absorbedI [where q = "Suc (length m div B)" and r = 0])
  let ?q = "length m div B" and ?r = "length m mod B"
  have r_less: "?r < B" using B_pos by simp
  have len: "length (take (B - ?r) d) = B - ?r" using r by simp
  have m: "length m = B * ?q + ?r" by simp
  show total: "length (m @ take (B - ?r) d) = B * Suc ?q + 0"
    using len m r_less by (simp only: length_append mult_Suc_right)
  have bufeq: "buf = drop (B * ?q) m @ take (B - ?r) d"
    using abs len r_less unfolding buf by (simp add: memcpy_full absorbed_def)
  have "iter_blocks B f (Suc ?q) init (m @ take (B - ?r) d) =
      f (iter_blocks B f ?q init m) (drop (B * ?q) (m @ take (B - ?r) d))"
    using iter_blocks_add [of ?q 1 init "m @ take (B - ?r) d"] iter_blocks_append [of ?q m] by simp
  also have "drop (B * ?q) (m @ take (B - ?r) d) = buf" by (simp add: bufeq)
  finally show "hs (st\<lparr>hbuf := buf, hbytes := hbytes st + word_of_nat (B - ?r), hs := f (hs st) buf\<rparr>) =
      iter_blocks B f (Suc ?q) init (m @ take (B - ?r) d)"
    using abs by (simp add: absorbed_def)
  show "length (hbuf (st\<lparr>hbuf := buf, hbytes := hbytes st + word_of_nat (B - ?r), hs := f (hs st) buf\<rparr>)) = B"
    using abs len r_less unfolding buf by (simp add: absorbed_def)
  show "hbytes (st\<lparr>hbuf := buf, hbytes := hbytes st + word_of_nat (B - ?r), hs := f (hs st) buf\<rparr>) =
      word_of_nat (length (m @ take (B - ?r) d))"
    using abs len by (simp add: absorbed_def)
  show "take 0 (hbuf (st\<lparr>hbuf := buf, hbytes := hbytes st + word_of_nat (B - ?r), hs := f (hs st) buf\<rparr>)) =
      drop (B * Suc ?q) (m @ take (B - ?r) d)"
    using total by (simp only: take_0 drop_all add_0_right order_refl)
qed (rule B_pos)

lemma absorbed_blocks:
  assumes abs: "absorbed B f init st m" and r: "length m mod B = 0" "B * k \<le> length d"
  shows "absorbed B f init
     (st\<lparr>hs := iter_blocks B f k (hs st) d, hbytes := hbytes st + word_of_nat (B * k)\<rparr>)
     (m @ take (B * k) d)"
proof (rule absorbedI [where q = "length m div B + k" and r = 0])
  let ?q = "length m div B"
  have m: "length m = B * ?q" using r(1) by auto
  show total: "length (m @ take (B * k) d) = B * (?q + k) + 0"
    using m r(2) by (simp only: length_append distrib_left length_take min_absorb2)
  have "iter_blocks B f (?q + k) init (m @ take (B * k) d) =
      iter_blocks B f k (iter_blocks B f ?q init m) (take (B * k) d)"
    using iter_blocks_add [of ?q k init "m @ take (B * k) d"] iter_blocks_append [of ?q m init] m by simp
  also have "\<dots> = iter_blocks B f k (hs st) d"
    using iter_blocks_append [of k "take (B * k) d" _ "drop (B * k) d"] r(2) abs by (simp add: absorbed_def)
  finally show "hs (st\<lparr>hs := iter_blocks B f k (hs st) d, hbytes := hbytes st + word_of_nat (B * k)\<rparr>) =
      iter_blocks B f (?q + k) init (m @ take (B * k) d)" by simp
  show "take 0 (hbuf (st\<lparr>hs := iter_blocks B f k (hs st) d, hbytes := hbytes st + word_of_nat (B * k)\<rparr>)) =
      drop (B * (?q + k)) (m @ take (B * k) d)"
    using total by (simp only: take_0 drop_all add_0_right order_refl)
  show "hbytes (st\<lparr>hs := iter_blocks B f k (hs st) d, hbytes := hbytes st + word_of_nat (B * k)\<rparr>) =
      word_of_nat (length (m @ take (B * k) d))"
    using abs r(2) by (simp add: absorbed_def)
qed (use abs B_pos in \<open>simp_all add: absorbed_def\<close>)

lemma absorbed_rest:
  assumes abs: "absorbed B f init st m" and r: "length m mod B + length d < B"
  shows "absorbed B f init
     (st\<lparr>hbuf := memcpy (hbuf st) (length m mod B) d, hbytes := hbytes st + word_of_nat (length d)\<rparr>) (m @ d)"
  by (rule absorbedI [where q = "length m div B" and r = "length m mod B + length d"])
    (use abs r iter_blocks_append [of "length m div B" m init d] in \<open>auto simp: absorbed_def\<close>)

lemma stream_tail_absorbs:
  assumes abs: "absorbed B f init st m" and r: "r = length m mod B" "r = 0 \<or> r + length d < B"
  shows "absorbed B f init (stream_tail B f st d r) (m @ d)"
proof -
  let ?k = "length d div B"
  let ?st = "st\<lparr>hs := iter_blocks B f ?k (hs st) d, hbytes := hbytes st + word_of_nat (B * ?k)\<rparr>"
  let ?m = "m @ take (B * ?k) d" and ?d = "drop (B * ?k) d"
  have k: "B * ?k \<le> length d" by simp
  have "absorbed B f init ?st ?m"
  proof (cases "length m mod B = 0")
    case True
    then show ?thesis using absorbed_blocks [OF abs True k] by simp
  next
    case False
    then show ?thesis using abs r by simp
  qed
  moreover have "length ?m mod B = r"
  proof -
    have "length ?m = length m + B * ?k" using k by (simp only: length_append length_take min_absorb2)
    then show ?thesis using r(1) by simp
  qed
  moreover have "r + length ?d < B"
    using r(2) B_pos by (auto simp: minus_mult_div_eq_mod)
  ultimately show ?thesis
    using absorbed_rest [of init ?st ?m ?d] by (auto simp: stream_tail_def Let_def)
qed

lemma stream_write_absorbs:
  assumes abs: "absorbed B f init st m"
  shows "absorbed B f init (stream_write B f st d) (m @ d)"
proof -
  define r where "r = length m mod B"
  have bufsize: "unat (hbytes st) mod B = r" using bufsize_absorbed [OF abs] by (simp add: r_def)
  show ?thesis
  proof (cases "r \<noteq> 0 \<and> B \<le> r + length d")
    case True
    define buf where "buf = memcpy (hbuf st) r (take (B - r) d)"
    let ?st = "st\<lparr>hbuf := buf, hbytes := hbytes st + word_of_nat (B - r), hs := f (hs st) buf\<rparr>"
    have fill: "absorbed B f init ?st (m @ take (B - r) d)"
      using absorbed_fill [OF abs _ _ buf_def [unfolded r_def]] True by (simp add: r_def)
    have "r < B" "r \<le> length m" using B_pos by (simp_all add: r_def)
    moreover have "B - r \<le> length d" using True by linarith
    ultimately have "length (m @ take (B - r) d) = length m - r + B" by simp
    moreover have "(length m - r) mod B = 0" by (simp add: r_def minus_mod_eq_mult_div)
    ultimately have "length (m @ take (B - r) d) mod B = 0" by (simp only: mod_add_self2)
    from stream_tail_absorbs [OF fill this [symmetric], of "drop (B - r) d"] True bufsize show ?thesis
      by (simp add: stream_write_def Let_def buf_def)
  next
    case False
    then have "r = 0 \<or> r + length d < B" by auto
    from stream_tail_absorbs [OF abs r_def this] False bufsize show ?thesis
      by (simp only: stream_write_def Let_def if_False)
  qed
qed

end

text \<open>
  The interface of a hash class: \<open>Write\<close> appends to the message that the object has absorbed.
  Everything a client observes is a function of the message.
\<close>

locale stream_hash = block_function B f for B :: nat and f :: "'s \<Rightarrow> bytes \<Rightarrow> 's" +
  fixes init :: 's and Write :: "'s hasher \<Rightarrow> bytes \<Rightarrow> 's hasher"
  assumes Write_absorbs: "absorbed B f init st m \<Longrightarrow> absorbed B f init (Write st d) (m @ d)"
begin

lemma absorbed_init:
  "length buf = B \<Longrightarrow> absorbed B f init \<lparr>hs = init, hbuf = buf, hbytes = 0\<rparr> []"
  by (simp add: absorbed_def)

lemma absorbed_determines:
  assumes "absorbed B f init st m" "absorbed B f init st' m"
  shows "hs st = hs st'" "hbytes st = hbytes st'"
    "take (unat (hbytes st) mod B) (hbuf st) = take (unat (hbytes st') mod B) (hbuf st')"
  using assms bufsize_absorbed [OF assms(1)] bufsize_absorbed [OF assms(2)] by (auto simp: absorbed_def)

lemma absorbed_fold: "absorbed B f init st m \<Longrightarrow> absorbed B f init (foldl Write st ds) (m @ concat ds)"
proof (induction ds arbitrary: st m)
  case (Cons d ds)
  from Cons.IH [OF Write_absorbs [OF Cons.prems]] show ?case by simp
qed simp

lemma absorbed_padded:
  assumes "absorbed B f init st m" "B dvd length (m @ p)"
  shows "hs (Write st p) = iter_blocks B f (length (m @ p) div B) init (m @ p)"
  using Write_absorbs [OF assms(1)] by (simp add: absorbed_def)

end

end
