(* ===== verification/Sha256_Cpu.thy ===== *)
theory Sha256_Cpu
  imports Sha256 Hash_Stream
begin

text \<open>
  The class \<^verbatim>\<open>SHA256_CPU\<close> of \<^verbatim>\<open>src/sha256_cpu.cpp\<close> and the hashers of
  \<^verbatim>\<open>src/hash.h\<close> built on it (\<^verbatim>\<open>DoubleHash256\<close>, \<^verbatim>\<open>Hash256\<close>,
  \<^verbatim>\<open>Hash\<close>, \<^verbatim>\<open>CHashWriter\<close>). The object is the record \<open>hasher\<close> with the eight
  chaining words. The buffer of a fresh object is uninitialised in the code; it is zero here, and
  \<open>absorbed\<close> holds for any content, so no result depends on it. The specification is the message
  digest of FIPS 180-4.
\<close>

type_synonym SHA256_CPU = "u32 list hasher"

definition SHA256_CPU_new :: SHA256_CPU where
  "SHA256_CPU_new = \<lparr>hs = sha256_Initialize, hbuf = replicate 64 0, hbytes = 0\<rparr>"

definition SHA256_CPU_Write :: "SHA256_CPU \<Rightarrow> bytes \<Rightarrow> SHA256_CPU" where
  "SHA256_CPU_Write this data =
     (let len = length data;
          bufsize = unat (hbytes this) mod 64;
          (this, data, bufsize) =
            (if bufsize \<noteq> 0 \<and> 64 \<le> bufsize + len then
               let buf = memcpy (hbuf this) bufsize (take (64 - bufsize) data)
               in (this\<lparr>hbuf := buf, hbytes := hbytes this + word_of_nat (64 - bufsize),
                        hs := sha256_Transform (hs this) buf 1\<rparr>,
                   drop (64 - bufsize) data, 0)
             else (this, data, bufsize));
          (this, data) =
            (if 64 \<le> length data then
               let blocks = length data div 64
               in (this\<lparr>hs := sha256_Transform (hs this) data blocks,
                        hbytes := hbytes this + word_of_nat (64 * blocks)\<rparr>,
                   drop (64 * blocks) data)
             else (this, data))
      in if data \<noteq> [] then
           this\<lparr>hbuf := memcpy (hbuf this) bufsize data, hbytes := hbytes this + word_of_nat (length data)\<rparr>
         else this)"

definition sha256_pad64 :: bytes where
  "sha256_pad64 = 0x80 # replicate 63 0"

text \<open>\<open>Finalize\<close> changes the object too; it returns the digest and the object.\<close>

definition SHA256_CPU_Finalize :: "SHA256_CPU \<Rightarrow> bytes \<times> SHA256_CPU" where
  "SHA256_CPU_Finalize this =
     (let sizedesc = WriteBE64 (push_bit 3 (hbytes this));
          this = SHA256_CPU_Write this (take (1 + (119 - unat (hbytes this) mod 64) mod 64) sha256_pad64);
          this = SHA256_CPU_Write this sizedesc
      in (concat (map WriteBE32 (hs this)), this))"

definition SHA256_CPU_Reset :: "SHA256_CPU \<Rightarrow> SHA256_CPU" where
  "SHA256_CPU_Reset this = this\<lparr>hbytes := 0, hs := sha256_Initialize\<rparr>"

section \<open>The hashers of hash.h\<close>

definition DoubleHash256_Finalize :: "SHA256_CPU \<Rightarrow> bytes \<times> SHA256_CPU" where
  "DoubleHash256_Finalize sha =
     (let (buf, sha) = SHA256_CPU_Finalize sha;
          sha = SHA256_CPU_Reset sha;
          sha = SHA256_CPU_Write sha buf
      in SHA256_CPU_Finalize sha)"

definition Hash256 :: "bytes \<Rightarrow> bytes" where
  "Hash256 data = fst (DoubleHash256_Finalize (SHA256_CPU_Write SHA256_CPU_new data))"

definition Hash_Hash :: "bytes \<Rightarrow> bytes" where
  "Hash_Hash data = fst (SHA256_CPU_Finalize (SHA256_CPU_Write SHA256_CPU_new data))"

definition Hash_Hash2 :: "bytes \<Rightarrow> bytes \<Rightarrow> bytes" where
  "Hash_Hash2 p1 p2 =
     fst (SHA256_CPU_Finalize (SHA256_CPU_Write (SHA256_CPU_Write SHA256_CPU_new p1) p2))"

text \<open>
  \<open>CHashWriter\<close>: every \<open>write\<close> of a serialiser goes to the double hash; the object is the list of
  the writes applied to a fresh context.
\<close>

definition CHashWriter_write :: "SHA256_CPU \<Rightarrow> bytes \<Rightarrow> SHA256_CPU" where
  "CHashWriter_write ctx pch = SHA256_CPU_Write ctx pch"

definition CHashWriter_GetHash :: "SHA256_CPU \<Rightarrow> bytes" where
  "CHashWriter_GetHash ctx = fst (DoubleHash256_Finalize ctx)"

definition CHashWriter_GetCheapHash :: "SHA256_CPU \<Rightarrow> u64" where
  "CHashWriter_GetCheapHash ctx = ReadLE64 (fst (DoubleHash256_Finalize ctx))"

text \<open>
  \<open>SHA256D64\<close>: the multi-way transforms are null pointers, so only the last loop runs.
\<close>

primrec SHA256D64 :: "bytes \<Rightarrow> nat \<Rightarrow> bytes" where
  "SHA256D64 inp 0 = []"
| "SHA256D64 inp (Suc blocks) = TransformD64 inp @ SHA256D64 (drop 64 inp) blocks"

section \<open>The specification: FIPS 180-4\<close>

definition sha256_zeros :: "nat \<Rightarrow> nat" where
  "sha256_zeros len = nat ((55 - int len) mod 64)"

definition sha256_pad :: "bytes \<Rightarrow> bytes" where
  "sha256_pad m = m @ 0x80 # replicate (sha256_zeros (length m)) 0 @ WriteBE64 (word_of_nat (8 * length m))"

definition sha256 :: "bytes \<Rightarrow> bytes" where
  "sha256 m = concat (map WriteBE32
     (iter_blocks 64 fips_compress (length (sha256_pad m) div 64) sha256_Initialize (sha256_pad m)))"

definition sha256d :: "bytes \<Rightarrow> bytes" where
  "sha256d m = sha256 (sha256 m)"

section \<open>The class implements the specification\<close>

lemma length_iter_fips: "length s = 8 \<Longrightarrow> length (iter_blocks 64 fips_compress n s d) = 8"
  by (induction n arbitrary: s d) simp_all

lemma sha256_Transform_fips: "length s = 8 \<Longrightarrow> sha256_Transform s d n = iter_blocks 64 fips_compress n s d"
  by (induction n arbitrary: s d) (simp_all add: Transform_block_fips)

interpretation sha256_blocks: block_function 64 fips_compress
  by unfold_locales (simp_all add: fips_compress_take)

abbreviation sha256_absorbed :: "SHA256_CPU \<Rightarrow> bytes \<Rightarrow> bool" where
  "sha256_absorbed \<equiv> absorbed 64 fips_compress sha256_Initialize"

lemma sha256_absorbed_length: "sha256_absorbed st m \<Longrightarrow> length (hs st) = 8"
  by (simp add: absorbed_def length_iter_fips)

lemma SHA256_CPU_Write_stream:
  assumes "length (hs st) = 8"
  shows "SHA256_CPU_Write st d = stream_write 64 fips_compress st d"
proof -
  have one: "sha256_Transform (hs st) buf 1 = fips_compress (hs st) buf" for buf
    using assms by (simp add: Transform_block_fips)
  have tail: "(let (this, data) =
            (if 64 \<le> length data then
               let blocks = length data div 64
               in (this\<lparr>hs := sha256_Transform (hs this) data blocks,
                        hbytes := hbytes this + word_of_nat (64 * blocks)\<rparr>,
                   drop (64 * blocks) data)
             else (this, data))
      in if data \<noteq> [] then
           this\<lparr>hbuf := memcpy (hbuf this) r data, hbytes := hbytes this + word_of_nat (length data)\<rparr>
         else this) = stream_tail 64 fips_compress this data r" if "length (hs this) = 8" for this data r
    using that by (auto simp: stream_tail_def Let_def sha256_Transform_fips)
  show ?thesis
  proof (cases "unat (hbytes st) mod 64 \<noteq> 0 \<and> 64 \<le> unat (hbytes st) mod 64 + length d")
    case True
    define r where "r = unat (hbytes st) mod 64"
    define buf where "buf = memcpy (hbuf st) r (take (64 - r) d)"
    have "length (hs (st\<lparr>hbuf := buf, hbytes := hbytes st + word_of_nat (64 - r), hs := fips_compress (hs st) buf\<rparr>)) = 8"
      using assms by simp
    from tail [OF this, of "drop (64 - r) d" 0] True show ?thesis
      unfolding SHA256_CPU_Write_def stream_write_def Let_def [of "length d"] r_def [symmetric] Let_def [of r]
        buf_def [symmetric] Let_def [of buf]
      by (simp only: if_True simp_thms prod.case Let_def [of "(_, _, _)"] one)
  next
    case False
    then show ?thesis
      using assms by (simp only: SHA256_CPU_Write_def stream_write_def Let_def [of "length d"] Let_def [of "unat _ mod _"]
        if_False prod.case Let_def [of "(_, _, _)"] tail)
  qed
qed

lemma SHA256_CPU_Write_absorbs:
  "sha256_absorbed st m \<Longrightarrow> sha256_absorbed (SHA256_CPU_Write st d) (m @ d)"
  by (simp add: SHA256_CPU_Write_stream sha256_absorbed_length sha256_blocks.stream_write_absorbs)

interpretation sha256_stream: stream_hash 64 fips_compress sha256_Initialize SHA256_CPU_Write
  by unfold_locales (rule SHA256_CPU_Write_absorbs)

lemma sha256_zeros_code: "(119 - len mod 64) mod 64 = sha256_zeros len" for len :: nat
proof -
  have "int ((119 - len mod 64) mod 64) = (119 - int len mod 64) mod 64"
    by (simp add: zmod_int of_nat_diff less_imp_le [OF less_le_trans [of _ 64]])
  also have "\<dots> = ((55 - int len) + 64) mod 64" by (simp add: mod_diff_right_eq)
  also have "\<dots> = (55 - int len) mod 64" by (rule mod_add_self2)
  finally show ?thesis by (simp add: sha256_zeros_def)
qed

lemma sha256_zeros_less: "sha256_zeros len < 64"
  by (simp add: sha256_zeros_def nat_less_iff)

lemma length_sha256_pad: "64 dvd length (sha256_pad m)"
proof -
  have "int (length (sha256_pad m)) = int (length m) + 9 + (55 - int (length m)) mod 64"
    by (simp add: sha256_pad_def sha256_zeros_def)
  then have "int (length (sha256_pad m)) mod 64 = (int (length m) + 9 + (55 - int (length m))) mod 64"
    by (simp only: mod_add_right_eq)
  then have "int 64 dvd int (length (sha256_pad m))" by (simp add: dvd_eq_mod_eq_0)
  then show ?thesis by (simp only: int_dvd_int_iff)
qed

lemma take_sha256_pad64: "take (1 + sha256_zeros len) sha256_pad64 = 0x80 # replicate (sha256_zeros len) 0"
  using sha256_zeros_less [of len] by (simp add: sha256_pad64_def min_def)

lemma sha256_sizedesc: "push_bit 3 (word_of_nat len :: u64) = word_of_nat (8 * len)"
  by (simp add: push_bit_eq_mult mult.commute)

lemma SHA256_CPU_Finalize_absorbed:
  assumes "sha256_absorbed st m"
  shows "fst (SHA256_CPU_Finalize st) = sha256 m" "sha256_absorbed (snd (SHA256_CPU_Finalize st)) (sha256_pad m)"
proof -
  let ?p = "0x80 # replicate (sha256_zeros (length m)) 0"
  let ?z = "WriteBE64 (word_of_nat (8 * length m))"
  have bytes: "hbytes st = word_of_nat (length m)" using assms by (simp add: absorbed_def)
  have "(119 - unat (hbytes st) mod 64) mod 64 = sha256_zeros (length m)"
    by (simp only: sha256_blocks.bufsize_absorbed [OF assms] sha256_zeros_code)
  then have snd: "snd (SHA256_CPU_Finalize st) = SHA256_CPU_Write (SHA256_CPU_Write st ?p) ?z"
    by (simp only: SHA256_CPU_Finalize_def Let_def snd_conv take_sha256_pad64 bytes sha256_sizedesc)
  with sha256_stream.absorbed_fold [OF assms, of "[?p, ?z]"]
  show abs: "sha256_absorbed (snd (SHA256_CPU_Finalize st)) (sha256_pad m)"
    by (simp add: sha256_pad_def)
  have "fst (SHA256_CPU_Finalize st) = concat (map WriteBE32 (hs (snd (SHA256_CPU_Finalize st))))"
    by (simp add: SHA256_CPU_Finalize_def Let_def)
  with abs show "fst (SHA256_CPU_Finalize st) = sha256 m"
    by (simp add: sha256_def absorbed_def)
qed

lemma sha256_absorbed_new: "sha256_absorbed SHA256_CPU_new []"
  using sha256_stream.absorbed_init [of "replicate 64 0"] by (simp add: SHA256_CPU_new_def)

lemma sha256_absorbed_Reset: "sha256_absorbed st m \<Longrightarrow> sha256_absorbed (SHA256_CPU_Reset st) []"
  by (simp add: absorbed_def SHA256_CPU_Reset_def)

lemma DoubleHash256_Finalize_absorbed:
  assumes "sha256_absorbed st m"
  shows "fst (DoubleHash256_Finalize st) = sha256d m"
proof -
  obtain buf st' where fin: "SHA256_CPU_Finalize st = (buf, st')" by force
  then have "buf = sha256 m" "sha256_absorbed st' (sha256_pad m)"
    using SHA256_CPU_Finalize_absorbed [OF assms] by simp_all
  with SHA256_CPU_Write_absorbs [OF sha256_absorbed_Reset, of st' "sha256_pad m" buf]
  have "sha256_absorbed (SHA256_CPU_Write (SHA256_CPU_Reset st') buf) (sha256 m)" by simp
  from SHA256_CPU_Finalize_absorbed(1) [OF this] fin show ?thesis
    by (simp add: DoubleHash256_Finalize_def sha256d_def)
qed

lemma Hash256_sha256d: "Hash256 data = sha256d data"
  using DoubleHash256_Finalize_absorbed SHA256_CPU_Write_absorbs [OF sha256_absorbed_new]
  by (force simp: Hash256_def)

lemma Hash_Hash_sha256: "Hash_Hash data = sha256 data"
  using SHA256_CPU_Finalize_absorbed(1) SHA256_CPU_Write_absorbs [OF sha256_absorbed_new]
  by (force simp: Hash_Hash_def)

lemma Hash_Hash2_sha256: "Hash_Hash2 p1 p2 = sha256 (p1 @ p2)"
  using SHA256_CPU_Finalize_absorbed(1) [OF SHA256_CPU_Write_absorbs [OF SHA256_CPU_Write_absorbs [OF sha256_absorbed_new]]]
  by (simp add: Hash_Hash2_def)

lemma CHashWriter_sha256d:
  "CHashWriter_GetHash (foldl CHashWriter_write SHA256_CPU_new ds) = sha256d (concat ds)"
proof -
  have "CHashWriter_write = SHA256_CPU_Write" by (simp add: fun_eq_iff CHashWriter_write_def)
  then show ?thesis
    using DoubleHash256_Finalize_absorbed [OF sha256_stream.absorbed_fold [OF sha256_absorbed_new, of ds]]
    by (simp add: CHashWriter_GetHash_def)
qed

section \<open>The unrolled double hash\<close>

lemma length_concat_WriteBE32 [simp]: "length (concat (map WriteBE32 ws)) = 4 * length ws"
  by (induction ws) simp_all

lemma length_sha256 [simp]: "length (sha256 m) = 32"
  by (simp add: sha256_def length_iter_fips)

lemma length_sha256d [simp]: "length (sha256d m) = 32"
  by (simp add: sha256d_def)

lemma sha256_pad_64: "length m = 64 \<Longrightarrow> sha256_pad m = m @ padding1"
proof -
  have "0x80 # replicate 55 0 @ WriteBE64 512 = padding1" by code_simp
  moreover have "sha256_zeros 64 = 55" by (simp add: sha256_zeros_def)
  ultimately show "length m = 64 \<Longrightarrow> sha256_pad m = m @ padding1" by (simp add: sha256_pad_def)
qed

lemma sha256_pad_32: "length m = 32 \<Longrightarrow> sha256_pad m = m @ drop 32 buffer2_init"
proof -
  have "0x80 # replicate 23 0 @ WriteBE64 256 = drop 32 buffer2_init" by code_simp
  moreover have "sha256_zeros 32 = 23" by (simp add: sha256_zeros_def)
  ultimately show "length m = 32 \<Longrightarrow> sha256_pad m = m @ drop 32 buffer2_init" by (simp add: sha256_pad_def)
qed

lemma fips_compress_append: "64 \<le> length d \<Longrightarrow> fips_compress s (d @ e) = fips_compress s d"
  using fips_compress_take [of s "d @ e"] fips_compress_take [of s d] by simp

lemma TransformD64_sha256d:
  assumes "64 \<le> length inp"
  shows "TransformD64 inp = sha256d (take 64 inp)"
proof -
  let ?m = "take 64 inp"
  have len: "length ?m = 64" using assms by simp
  have "length padding1 = 64" by (simp add: padding1_def)
  then have s1: "sha256 ?m = concat (map WriteBE32 (fips_compress (fips_compress sha256_Initialize inp) padding1))"
    using len by (simp add: sha256_def sha256_pad_64 fips_compress_append fips_compress_take numeral_2_eq_2)
  have "length (drop 32 buffer2_init) = 32" by (simp add: buffer2_init_def)
  then have "sha256 x = concat (map WriteBE32 (fips_compress sha256_Initialize (x @ drop 32 buffer2_init)))"
    if "length x = 32" for x
    using that by (simp add: sha256_def sha256_pad_32)
  from this [OF length_sha256, of ?m] show ?thesis by (simp only: sha256d_def s1 TransformD64_fips)
qed

lemma TransformD64Wrapper_sha256d:
  assumes "64 \<le> length inp"
  shows "TransformD64Wrapper sha256_Transform inp = sha256d (take 64 inp)"
  unfolding TransformD64_sha256d [OF assms, symmetric]
  by (simp add: TransformD64Wrapper_def Let_def TransformD64_fips Transform_block_fips)

lemma SHA256D64_sha256d:
  "64 * n \<le> length inp \<Longrightarrow>
     SHA256D64 inp n = concat (map (\<lambda>i. sha256d (take 64 (drop (64 * i) inp))) [0..<n])"
proof (induction n arbitrary: inp)
  case (Suc n)
  then show ?case
    by (simp add: TransformD64_sha256d upt_conv_Cons map_Suc_upt [symmetric] comp_def add.commute del: upt_Suc)
qed simp

section \<open>Properties\<close>

text \<open>
  C20. The streaming hash class implements SHA-256: for every way of cutting a message into calls
  of \<open>Write\<close>, empty and unaligned pieces included, \<open>Finalize\<close> returns the FIPS 180-4 digest of
  the concatenation.
\<close>

theorem SHA256_CPU_streaming:
  "fst (SHA256_CPU_Finalize (foldl SHA256_CPU_Write SHA256_CPU_new ds)) = sha256 (concat ds)"
  using SHA256_CPU_Finalize_absorbed(1) [OF sha256_stream.absorbed_fold [OF sha256_absorbed_new]] by simp

text \<open>
  The serialisation hasher computes the double SHA-256 of everything written to it, and so does
  the one-shot function \<open>Hash256\<close>; \<open>GetCheapHash\<close> is its first eight bytes.
\<close>

theorem CHashWriter_double_hash:
  "CHashWriter_GetHash (foldl CHashWriter_write SHA256_CPU_new ds) = sha256d (concat ds)
    \<and> Hash256 (concat ds) = sha256d (concat ds)
    \<and> CHashWriter_GetCheapHash (foldl CHashWriter_write SHA256_CPU_new ds) = ReadLE64 (sha256d (concat ds))"
  using CHashWriter_sha256d [of ds]
  by (simp add: Hash256_sha256d CHashWriter_GetHash_def CHashWriter_GetCheapHash_def)

text \<open>
  C28. The hand-unrolled double hash of 64 bytes (three transformations, with the padding words of
  the second and the third folded into the round constants and the message schedule) equals the
  generic wrapper over \<open>Transform\<close> and the double SHA-256 of the specification.
\<close>

theorem TransformD64_equivalence:
  assumes "64 \<le> length inp"
  shows "TransformD64 inp = TransformD64Wrapper sha256_Transform inp
    \<and> TransformD64 inp = sha256d (take 64 inp)"
  using assms by (simp only: TransformD64_sha256d TransformD64Wrapper_sha256d simp_thms)

theorem TransformD64_equivalence_witness:
  "TransformD64 (replicate 64 0) = sha256d (take 64 (replicate 64 0))"
proof -
  have "64 \<le> length (replicate 64 (0 :: u8))" by simp
  from TransformD64_equivalence [OF this] show ?thesis by (rule conjunct2)
qed

end
