(* ===== verification/Gpu_Kernel.thy ===== *)
theory Gpu_Kernel
  imports Sha256_Cpu
begin

text \<open>
  The hashing side of the miner: the OpenCL kernel \<^verbatim>\<open>src/btc_sha256_gpu.cl\<close>, its CPU twin
  in the namespace \<^verbatim>\<open>TT\<close> of \<^verbatim>\<open>src/btc_sha256_gpu.cpp\<close>, and the padding of the
  block header on the host. The unrolled rounds are again one list entry for each source line.
  A little-endian host and device are assumed, as the code does.
\<close>

section \<open>Byte order\<close>

definition ToBE32 :: "u32 \<Rightarrow> u32" where
  "ToBE32 x = drop_bit 24 (x AND 0xff000000) OR drop_bit 8 (x AND 0x00ff0000) OR
              push_bit 8 (x AND 0x0000ff00) OR push_bit 24 (x AND 0x000000ff)"

definition ToBE64 :: "u64 \<Rightarrow> u64" where
  "ToBE64 x = drop_bit 56 (x AND 0xff00000000000000) OR drop_bit 40 (x AND 0x00ff000000000000) OR
              drop_bit 24 (x AND 0x0000ff0000000000) OR drop_bit 8 (x AND 0x000000ff00000000) OR
              push_bit 8 (x AND 0x00000000ff000000) OR push_bit 24 (x AND 0x0000000000ff0000) OR
              push_bit 40 (x AND 0x000000000000ff00) OR push_bit 56 (x AND 0x00000000000000ff)"

definition WriteBE32_EX :: "u32 \<Rightarrow> bytes" where
  "WriteBE32_EX x = WriteLE32 (ToBE32 x)"

definition WriteBE64_EX :: "u64 \<Rightarrow> bytes" where
  "WriteBE64_EX x = WriteLE64 (ToBE64 x)"

definition ReadBE32_EX :: "bytes \<Rightarrow> u32" where
  "ReadBE32_EX ptr = ToBE32 (ReadLE32 ptr)"

section \<open>The CPU twin of the kernel\<close>

definition TT_Ch :: "u32 \<Rightarrow> u32 \<Rightarrow> u32 \<Rightarrow> u32" where
  "TT_Ch x y z = z XOR (x AND (y XOR z))"

definition TT_Maj :: "u32 \<Rightarrow> u32 \<Rightarrow> u32 \<Rightarrow> u32" where
  "TT_Maj x y z = (x AND y) OR (z AND (x OR y))"

definition TT_Sigma0 :: "u32 \<Rightarrow> u32" where
  "TT_Sigma0 x = (drop_bit 2 x OR push_bit 30 x) XOR (drop_bit 13 x OR push_bit 19 x)
                   XOR (drop_bit 22 x OR push_bit 10 x)"

definition TT_Sigma1 :: "u32 \<Rightarrow> u32" where
  "TT_Sigma1 x = (drop_bit 6 x OR push_bit 26 x) XOR (drop_bit 11 x OR push_bit 21 x)
                   XOR (drop_bit 25 x OR push_bit 7 x)"

definition TT_sigma0 :: "u32 \<Rightarrow> u32" where
  "TT_sigma0 x = (drop_bit 7 x OR push_bit 25 x) XOR (drop_bit 18 x OR push_bit 14 x) XOR drop_bit 3 x"

definition TT_sigma1 :: "u32 \<Rightarrow> u32" where
  "TT_sigma1 x = (drop_bit 17 x OR push_bit 15 x) XOR (drop_bit 19 x OR push_bit 13 x) XOR drop_bit 10 x"

definition TT_Round ::
    "u32 \<Rightarrow> u32 \<Rightarrow> u32 \<Rightarrow> u32 \<Rightarrow> u32 \<Rightarrow> u32 \<Rightarrow> u32 \<Rightarrow> u32 \<Rightarrow> u32 \<Rightarrow> u32 \<Rightarrow> u32 \<times> u32" where
  "TT_Round a b c d e f g h k w =
     (let t1 = h + TT_Sigma1 e + TT_Ch e f g + k + w;
          t2 = TT_Sigma0 a + TT_Maj a b c
      in (d + t1, t1 + t2))"

definition TT_Init :: "u32 list" where
  "TT_Init = [0x6a09e667, 0xbb67ae85, 0x3c6ef372, 0xa54ff53a,
     0x510e527f, 0x9b05688c, 0x1f83d9ab, 0x5be0cd19]"

fun TT_wterm_val :: "u32 list \<Rightarrow> wterm \<Rightarrow> u32" where
  "TT_wterm_val w (TC c) = c"
| "TT_wterm_val w (TW i) = w ! i"
| "TT_wterm_val w (TS0 i) = TT_sigma0 (w ! i)"
| "TT_wterm_val w (TS1 i) = TT_sigma1 (w ! i)"

definition TT_wsum :: "u32 list \<Rightarrow> wterm list \<Rightarrow> u32" where
  "TT_wsum w ts = sum_list (map (TT_wterm_val w) ts)"

fun TT_waction :: "bytes \<Rightarrow> u32 list \<Rightarrow> waction \<Rightarrow> u32 \<times> u32 list" where
  "TT_waction chunk w NoW = (0, w)"
| "TT_waction chunk w (WLoad i off) = (ReadBE32_EX (drop off chunk), w[i := ReadBE32_EX (drop off chunk)])"
| "TT_waction chunk w (WInc i ts) = (w ! i + TT_wsum w ts, w[i := w ! i + TT_wsum w ts])"
| "TT_waction chunk w (WSet i ts) = (TT_wsum w ts, w[i := TT_wsum w ts])"
| "TT_waction chunk w (WSum ts) = (TT_wsum w ts, w)"

fun TT_exec_round :: "bytes \<Rightarrow> round_instr \<Rightarrow> u32 list \<times> u32 list \<Rightarrow> u32 list \<times> u32 list" where
  "TT_exec_round chunk (RND r k act) (regs, w) =
     (let (v, w') = TT_waction chunk w act;
          x = (\<lambda>i. regs ! (r ! i));
          (d, h) = TT_Round (x 0) (x 1) (x 2) (x 3) (x 4) (x 5) (x 6) (x 7) k v
      in (regs[r ! 3 := d, r ! 7 := h], w'))"

definition TT_t_rounds :: "round_instr list" where
  "TT_t_rounds = [
    RND abcdefgh 0x428a2f98 (WLoad 0 0),
    RND habcdefg 0x71374491 (WLoad 1 4),
    RND ghabcdef 0xb5c0fbcf (WLoad 2 8),
    RND fghabcde 0xe9b5dba5 (WLoad 3 12),
    RND efghabcd 0x3956c25b (WLoad 4 16),
    RND defghabc 0x59f111f1 (WLoad 5 20),
    RND cdefghab 0x923f82a4 (WLoad 6 24),
    RND bcdefgha 0xab1c5ed5 (WLoad 7 28),
    RND abcdefgh 0xd807aa98 (WLoad 8 32),
    RND habcdefg 0x12835b01 (WLoad 9 36),
    RND ghabcdef 0x243185be (WLoad 10 40),
    RND fghabcde 0x550c7dc3 (WLoad 11 44),
    RND efghabcd 0x72be5d74 (WLoad 12 48),
    RND defghabc 0x80deb1fe (WLoad 13 52),
    RND cdefghab 0x9bdc06a7 (WLoad 14 56),
    RND bcdefgha 0xc19bf174 (WLoad 15 60),
    RND abcdefgh 0xe49b69c1 (WInc 0 [TS1 14, TW 9, TS0 1]),
    RND habcdefg 0xefbe4786 (WInc 1 [TS1 15, TW 10, TS0 2]),
    RND ghabcdef 0x0fc19dc6 (WInc 2 [TS1 0, TW 11, TS0 3]),
    RND fghabcde 0x240ca1cc (WInc 3 [TS1 1, TW 12, TS0 4]),
    RND efghabcd 0x2de92c6f (WInc 4 [TS1 2, TW 13, TS0 5]),
    RND defghabc 0x4a7484aa (WInc 5 [TS1 3, TW 14, TS0 6]),
    RND cdefghab 0x5cb0a9dc (WInc 6 [TS1 4, TW 15, TS0 7]),
    RND bcdefgha 0x76f988da (WInc 7 [TS1 5, TW 0, TS0 8]),
    RND abcdefgh 0x983e5152 (WInc 8 [TS1 6, TW 1, TS0 9]),
    RND habcdefg 0xa831c66d (WInc 9 [TS1 7, TW 2, TS0 10]),
    RND ghabcdef 0xb00327c8 (WInc 10 [TS1 8, TW 3, TS0 11]),
    RND fghabcde 0xbf597fc7 (WInc 11 [TS1 9, TW 4, TS0 12]),
    RND efghabcd 0xc6e00bf3 (WInc 12 [TS1 10, TW 5, TS0 13]),
    RND defghabc 0xd5a79147 (WInc 13 [TS1 11, TW 6, TS0 14]),
    RND cdefghab 0x06ca6351 (WInc 14 [TS1 12, TW 7, TS0 15]),
    RND bcdefgha 0x14292967 (WInc 15 [TS1 13, TW 8, TS0 0]),
    RND abcdefgh 0x27b70a85 (WInc 0 [TS1 14, TW 9, TS0 1]),
    RND habcdefg 0x2e1b2138 (WInc 1 [TS1 15, TW 10, TS0 2]),
    RND ghabcdef 0x4d2c6dfc (WInc 2 [TS1 0, TW 11, TS0 3]),
    RND fghabcde 0x53380d13 (WInc 3 [TS1 1, TW 12, TS0 4]),
    RND efghabcd 0x650a7354 (WInc 4 [TS1 2, TW 13, TS0 5]),
    RND defghabc 0x766a0abb (WInc 5 [TS1 3, TW 14, TS0 6]),
    RND cdefghab 0x81c2c92e (WInc 6 [TS1 4, TW 15, TS0 7]),
    RND bcdefgha 0x92722c85 (WInc 7 [TS1 5, TW 0, TS0 8]),
    RND abcdefgh 0xa2bfe8a1 (WInc 8 [TS1 6, TW 1, TS0 9]),
    RND habcdefg 0xa81a664b (WInc 9 [TS1 7, TW 2, TS0 10]),
    RND ghabcdef 0xc24b8b70 (WInc 10 [TS1 8, TW 3, TS0 11]),
    RND fghabcde 0xc76c51a3 (WInc 11 [TS1 9, TW 4, TS0 12]),
    RND efghabcd 0xd192e819 (WInc 12 [TS1 10, TW 5, TS0 13]),
    RND defghabc 0xd6990624 (WInc 13 [TS1 11, TW 6, TS0 14]),
    RND cdefghab 0xf40e3585 (WInc 14 [TS1 12, TW 7, TS0 15]),
    RND bcdefgha 0x106aa070 (WInc 15 [TS1 13, TW 8, TS0 0]),
    RND abcdefgh 0x19a4c116 (WInc 0 [TS1 14, TW 9, TS0 1]),
    RND habcdefg 0x1e376c08 (WInc 1 [TS1 15, TW 10, TS0 2]),
    RND ghabcdef 0x2748774c (WInc 2 [TS1 0, TW 11, TS0 3]),
    RND fghabcde 0x34b0bcb5 (WInc 3 [TS1 1, TW 12, TS0 4]),
    RND efghabcd 0x391c0cb3 (WInc 4 [TS1 2, TW 13, TS0 5]),
    RND defghabc 0x4ed8aa4a (WInc 5 [TS1 3, TW 14, TS0 6]),
    RND cdefghab 0x5b9cca4f (WInc 6 [TS1 4, TW 15, TS0 7]),
    RND bcdefgha 0x682e6ff3 (WInc 7 [TS1 5, TW 0, TS0 8]),
    RND abcdefgh 0x748f82ee (WInc 8 [TS1 6, TW 1, TS0 9]),
    RND habcdefg 0x78a5636f (WInc 9 [TS1 7, TW 2, TS0 10]),
    RND ghabcdef 0x84c87814 (WInc 10 [TS1 8, TW 3, TS0 11]),
    RND fghabcde 0x8cc70208 (WInc 11 [TS1 9, TW 4, TS0 12]),
    RND efghabcd 0x90befffa (WInc 12 [TS1 10, TW 5, TS0 13]),
    RND defghabc 0xa4506ceb (WInc 13 [TS1 11, TW 6, TS0 14]),
    RND cdefghab 0xbef9a3f7 (WSum [TW 14, TS1 12, TW 7, TS0 15]),
    RND bcdefgha 0xc67178f2 (WSum [TW 15, TS1 13, TW 8, TS0 0])]"

primrec TT_t :: "u32 list \<Rightarrow> bytes \<Rightarrow> nat \<Rightarrow> u32 list" where
  "TT_t s chunk 0 = s"
| "TT_t s chunk (Suc blocks) =
     (let (regs, _) = fold (TT_exec_round chunk) TT_t_rounds (s, replicate 16 0)
      in TT_t (map2 (+) s regs) (drop 64 chunk) blocks)"

definition TT_HashTest :: "bytes \<Rightarrow> bytes" where
  "TT_HashTest chunk =
     (let s = TT_t TT_Init chunk 2;
          tmpResult = replicate 64 0;
          tmpResult = memcpy tmpResult 0 (concat (map WriteBE32_EX s));
          tmpResult = tmpResult[32 := 0x80];
          tmpResult = memcpy tmpResult 56 (WriteBE64 (push_bit 3 32));
          s = TT_t TT_Init tmpResult 1
      in concat (map WriteBE32_EX s))"

section \<open>The kernel\<close>

definition cl_Ch :: "u32 \<Rightarrow> u32 \<Rightarrow> u32 \<Rightarrow> u32" where
  "cl_Ch x y z = z XOR (x AND (y XOR z))"

definition cl_Maj :: "u32 \<Rightarrow> u32 \<Rightarrow> u32 \<Rightarrow> u32" where
  "cl_Maj x y z = (x AND y) OR (z AND (x OR y))"

definition cl_Sigma0 :: "u32 \<Rightarrow> u32" where
  "cl_Sigma0 x = (drop_bit 2 x OR push_bit 30 x) XOR (drop_bit 13 x OR push_bit 19 x)
                   XOR (drop_bit 22 x OR push_bit 10 x)"

definition cl_Sigma1 :: "u32 \<Rightarrow> u32" where
  "cl_Sigma1 x = (drop_bit 6 x OR push_bit 26 x) XOR (drop_bit 11 x OR push_bit 21 x)
                   XOR (drop_bit 25 x OR push_bit 7 x)"

definition cl_sigma0 :: "u32 \<Rightarrow> u32" where
  "cl_sigma0 x = (drop_bit 7 x OR push_bit 25 x) XOR (drop_bit 18 x OR push_bit 14 x) XOR drop_bit 3 x"

definition cl_sigma1 :: "u32 \<Rightarrow> u32" where
  "cl_sigma1 x = (drop_bit 17 x OR push_bit 15 x) XOR (drop_bit 19 x OR push_bit 13 x) XOR drop_bit 10 x"

definition cl_Round ::
    "u32 \<Rightarrow> u32 \<Rightarrow> u32 \<Rightarrow> u32 \<Rightarrow> u32 \<Rightarrow> u32 \<Rightarrow> u32 \<Rightarrow> u32 \<Rightarrow> u32 \<Rightarrow> u32 \<Rightarrow> u32 \<times> u32" where
  "cl_Round a b c d e f g h k w =
     (let t1 = h + cl_Sigma1 e + cl_Ch e f g + k + w;
          t2 = cl_Sigma0 a + cl_Maj a b c
      in (d + t1, t1 + t2))"

definition cl_Reset :: "u32 list" where
  "cl_Reset = [0x6a09e667, 0xbb67ae85, 0x3c6ef372, 0xa54ff53a,
     0x510e527f, 0x9b05688c, 0x1f83d9ab, 0x5be0cd19]"

fun cl_wterm_val :: "u32 list \<Rightarrow> wterm \<Rightarrow> u32" where
  "cl_wterm_val w (TC c) = c"
| "cl_wterm_val w (TW i) = w ! i"
| "cl_wterm_val w (TS0 i) = cl_sigma0 (w ! i)"
| "cl_wterm_val w (TS1 i) = cl_sigma1 (w ! i)"

definition cl_wsum :: "u32 list \<Rightarrow> wterm list \<Rightarrow> u32" where
  "cl_wsum w ts = sum_list (map (cl_wterm_val w) ts)"

fun cl_waction :: "bytes \<Rightarrow> u32 list \<Rightarrow> waction \<Rightarrow> u32 \<times> u32 list" where
  "cl_waction chunk w NoW = (0, w)"
| "cl_waction chunk w (WLoad i off) = (ReadBE32_EX (drop off chunk), w[i := ReadBE32_EX (drop off chunk)])"
| "cl_waction chunk w (WInc i ts) = (w ! i + cl_wsum w ts, w[i := w ! i + cl_wsum w ts])"
| "cl_waction chunk w (WSet i ts) = (cl_wsum w ts, w[i := cl_wsum w ts])"
| "cl_waction chunk w (WSum ts) = (cl_wsum w ts, w)"

fun cl_exec_round :: "bytes \<Rightarrow> round_instr \<Rightarrow> u32 list \<times> u32 list \<Rightarrow> u32 list \<times> u32 list" where
  "cl_exec_round chunk (RND r k act) (regs, w) =
     (let (v, w') = cl_waction chunk w act;
          x = (\<lambda>i. regs ! (r ! i));
          (d, h) = cl_Round (x 0) (x 1) (x 2) (x 3) (x 4) (x 5) (x 6) (x 7) k v
      in (regs[r ! 3 := d, r ! 7 := h], w'))"

definition cl_T_rounds :: "round_instr list" where
  "cl_T_rounds = [
    RND abcdefgh 0x428a2f98 (WLoad 0 0),
    RND habcdefg 0x71374491 (WLoad 1 4),
    RND ghabcdef 0xb5c0fbcf (WLoad 2 8),
    RND fghabcde 0xe9b5dba5 (WLoad 3 12),
    RND efghabcd 0x3956c25b (WLoad 4 16),
    RND defghabc 0x59f111f1 (WLoad 5 20),
    RND cdefghab 0x923f82a4 (WLoad 6 24),
    RND bcdefgha 0xab1c5ed5 (WLoad 7 28),
    RND abcdefgh 0xd807aa98 (WLoad 8 32),
    RND habcdefg 0x12835b01 (WLoad 9 36),
    RND ghabcdef 0x243185be (WLoad 10 40),
    RND fghabcde 0x550c7dc3 (WLoad 11 44),
    RND efghabcd 0x72be5d74 (WLoad 12 48),
    RND defghabc 0x80deb1fe (WLoad 13 52),
    RND cdefghab 0x9bdc06a7 (WLoad 14 56),
    RND bcdefgha 0xc19bf174 (WLoad 15 60),
    RND abcdefgh 0xe49b69c1 (WInc 0 [TS1 14, TW 9, TS0 1]),
    RND habcdefg 0xefbe4786 (WInc 1 [TS1 15, TW 10, TS0 2]),
    RND ghabcdef 0x0fc19dc6 (WInc 2 [TS1 0, TW 11, TS0 3]),
    RND fghabcde 0x240ca1cc (WInc 3 [TS1 1, TW 12, TS0 4]),
    RND efghabcd 0x2de92c6f (WInc 4 [TS1 2, TW 13, TS0 5]),
    RND defghabc 0x4a7484aa (WInc 5 [TS1 3, TW 14, TS0 6]),
    RND cdefghab 0x5cb0a9dc (WInc 6 [TS1 4, TW 15, TS0 7]),
    RND bcdefgha 0x76f988da (WInc 7 [TS1 5, TW 0, TS0 8]),
    RND abcdefgh 0x983e5152 (WInc 8 [TS1 6, TW 1, TS0 9]),
    RND habcdefg 0xa831c66d (WInc 9 [TS1 7, TW 2, TS0 10]),
    RND ghabcdef 0xb00327c8 (WInc 10 [TS1 8, TW 3, TS0 11]),
    RND fghabcde 0xbf597fc7 (WInc 11 [TS1 9, TW 4, TS0 12]),
    RND efghabcd 0xc6e00bf3 (WInc 12 [TS1 10, TW 5, TS0 13]),
    RND defghabc 0xd5a79147 (WInc 13 [TS1 11, TW 6, TS0 14]),
    RND cdefghab 0x06ca6351 (WInc 14 [TS1 12, TW 7, TS0 15]),
    RND bcdefgha 0x14292967 (WInc 15 [TS1 13, TW 8, TS0 0]),
    RND abcdefgh 0x27b70a85 (WInc 0 [TS1 14, TW 9, TS0 1]),
    RND habcdefg 0x2e1b2138 (WInc 1 [TS1 15, TW 10, TS0 2]),
    RND ghabcdef 0x4d2c6dfc (WInc 2 [TS1 0, TW 11, TS0 3]),
    RND fghabcde 0x53380d13 (WInc 3 [TS1 1, TW 12, TS0 4]),
    RND efghabcd 0x650a7354 (WInc 4 [TS1 2, TW 13, TS0 5]),
    RND defghabc 0x766a0abb (WInc 5 [TS1 3, TW 14, TS0 6]),
    RND cdefghab 0x81c2c92e (WInc 6 [TS1 4, TW 15, TS0 7]),
    RND bcdefgha 0x92722c85 (WInc 7 [TS1 5, TW 0, TS0 8]),
    RND abcdefgh 0xa2bfe8a1 (WInc 8 [TS1 6, TW 1, TS0 9]),
    RND habcdefg 0xa81a664b (WInc 9 [TS1 7, TW 2, TS0 10]),
    RND ghabcdef 0xc24b8b70 (WInc 10 [TS1 8, TW 3, TS0 11]),
    RND fghabcde 0xc76c51a3 (WInc 11 [TS1 9, TW 4, TS0 12]),
    RND efghabcd 0xd192e819 (WInc 12 [TS1 10, TW 5, TS0 13]),
    RND defghabc 0xd6990624 (WInc 13 [TS1 11, TW 6, TS0 14]),
    RND cdefghab 0xf40e3585 (WInc 14 [TS1 12, TW 7, TS0 15]),
    RND bcdefgha 0x106aa070 (WInc 15 [TS1 13, TW 8, TS0 0]),
    RND abcdefgh 0x19a4c116 (WInc 0 [TS1 14, TW 9, TS0 1]),
    RND habcdefg 0x1e376c08 (WInc 1 [TS1 15, TW 10, TS0 2]),
    RND ghabcdef 0x2748774c (WInc 2 [TS1 0, TW 11, TS0 3]),
    RND fghabcde 0x34b0bcb5 (WInc 3 [TS1 1, TW 12, TS0 4]),
    RND efghabcd 0x391c0cb3 (WInc 4 [TS1 2, TW 13, TS0 5]),
    RND defghabc 0x4ed8aa4a (WInc 5 [TS1 3, TW 14, TS0 6]),
    RND cdefghab 0x5b9cca4f (WInc 6 [TS1 4, TW 15, TS0 7]),
    RND bcdefgha 0x682e6ff3 (WInc 7 [TS1 5, TW 0, TS0 8]),
    RND abcdefgh 0x748f82ee (WInc 8 [TS1 6, TW 1, TS0 9]),
    RND habcdefg 0x78a5636f (WInc 9 [TS1 7, TW 2, TS0 10]),
    RND ghabcdef 0x84c87814 (WInc 10 [TS1 8, TW 3, TS0 11]),
    RND fghabcde 0x8cc70208 (WInc 11 [TS1 9, TW 4, TS0 12]),
    RND efghabcd 0x90befffa (WInc 12 [TS1 10, TW 5, TS0 13]),
    RND defghabc 0xa4506ceb (WInc 13 [TS1 11, TW 6, TS0 14]),
    RND cdefghab 0xbef9a3f7 (WSum [TW 14, TS1 12, TW 7, TS0 15]),
    RND bcdefgha 0xc67178f2 (WSum [TW 15, TS1 13, TW 8, TS0 0])]"

primrec cl_T :: "u32 list \<Rightarrow> bytes \<Rightarrow> nat \<Rightarrow> u32 list" where
  "cl_T s chunk 0 = s"
| "cl_T s chunk (Suc blocks) =
     (let (regs, _) = fold (cl_exec_round chunk) cl_T_rounds (s, replicate 16 0)
      in cl_T (map2 (+) s regs) (drop 64 chunk) blocks)"

text \<open>\<open>DoHash\<close> writes the digest over the first 32 bytes of \<open>out\<close>.\<close>

definition cl_DoHash :: "bytes \<Rightarrow> nat \<Rightarrow> bytes \<Rightarrow> bytes" where
  "cl_DoHash data blocks out = memcpy out 0 (concat (map WriteBE32_EX (cl_T cl_Reset data blocks)))"

definition NONCE_OFFSET :: nat where
  "NONCE_OFFSET = 76"

text \<open>One work item: it computes one double hash and stores it in its slice of the output.\<close>

definition BtcDoubleSHA256 :: "bytes \<Rightarrow> u32 \<Rightarrow> nat \<Rightarrow> bytes \<Rightarrow> bytes" where
  "BtcDoubleSHA256 pIn nonceOffset puId pOut =
     (let data = take 128 pIn;
          nonce = word_of_nat puId + nonceOffset;
          data = memcpy data NONCE_OFFSET (WriteLE32 nonce);
          hashResult = replicate 64 0;
          hashResult = cl_DoHash data 2 hashResult;
          hashResult = hashResult[32 := 0x80];
          hashResult = memcpy hashResult 56 (WriteBE64_EX (push_bit 3 32));
          hashResult = cl_DoHash hashResult 1 hashResult
      in memcpy pOut (puId * 32) (take 32 hashResult))"

text \<open>A launch of the work items \<open>ids\<close>, in the order in which the device runs them.\<close>

definition run_kernel :: "bytes \<Rightarrow> u32 \<Rightarrow> nat list \<Rightarrow> bytes \<Rightarrow> bytes" where
  "run_kernel pIn nonceOffset ids pOut = fold (BtcDoubleSHA256 pIn nonceOffset) ids pOut"

section \<open>The host side\<close>

definition PadBlockHaderData :: "bytes \<Rightarrow> bytes" where
  "PadBlockHaderData buf =
     (let buf = memcpy buf 80 (replicate 48 0);
          buf = buf[80 := 0x80]
      in memcpy buf 120 (WriteBE64 (push_bit 3 80)))"

section \<open>Byte order\<close>

lemma bit_word_of_nat: "bit (word_of_nat k :: 'a::len word) n \<longleftrightarrow> n < LENGTH('a) \<and> bit k n"
  by transfer (simp add: bit_take_bit_iff bit_of_nat_iff)

lemma bit_word_of_wval:
  "8 * length bs \<le> LENGTH('a) \<Longrightarrow>
     bit (word_of_nat (wval bs) :: 'a::len word) n \<longleftrightarrow> n div 8 < length bs \<and> bit (bs ! (n div 8)) (n mod 8)"
  for bs :: bytes
  using bit_wval_iff [of bs n] by (auto simp: bit_word_of_nat)

lemma bit_ToBE32:
  assumes "n < 32"
  shows "bit (ToBE32 x) n \<longleftrightarrow> bit x (8 * (3 - n div 8) + n mod 8)"
  using nat_less_32_cases [OF assms]
  by (elim disjE) (simp_all add: ToBE32_def bit_simps bit_numeral_simps, simp add: numeral_2_eq_2)

lemma ToBE32_ToBE32: "ToBE32 (ToBE32 x) = x"
proof (rule bit_word_eqI)
  fix n
  assume "n < LENGTH(32)"
  then have n: "n < 32" by simp
  let ?m = "8 * (3 - n div 8) + n mod 8"
  have "n div 8 \<le> 3" using n by linarith
  then have "?m < 32" "?m div 8 = 3 - n div 8" "?m mod 8 = n mod 8" by simp_all
  then show "bit (ToBE32 (ToBE32 x)) n = bit x n"
    using n \<open>n div 8 \<le> 3\<close> by (simp add: bit_ToBE32)
qed

lemma ReadBE32_EX_eq: "4 \<le> length ptr \<Longrightarrow> ReadBE32_EX ptr = ReadBE32 ptr"
proof -
  assume len: "4 \<le> length ptr"
  show ?thesis
  proof (rule bit_word_eqI)
    fix n
    assume "n < LENGTH(32)"
    then have n: "n < 32" by simp
    let ?m = "8 * (3 - n div 8) + n mod 8"
    have d: "n div 8 < 4" using n by linarith
    then have m: "?m div 8 = 3 - n div 8" "?m mod 8 = n mod 8" "3 - n div 8 < 4" by simp_all
    show "bit (ReadBE32_EX ptr) n = bit (ReadBE32 ptr) n"
      using n len d m by (simp add: ReadBE32_EX_def bit_ToBE32 ReadLE32_def ReadBE32_def bit_word_of_wval rev_nth min_absorb2)
  qed
qed

lemma WriteBE32_EX_eq: "WriteBE32_EX x = WriteBE32 x"
proof -
  let ?bs = "WriteBE32 x"
  have "ToBE32 (ReadLE32 ?bs) = x"
    using ReadBE32_EX_eq [of ?bs] ReadBE32_WriteBE32 [of x "[]"] by (simp add: ReadBE32_EX_def)
  then have "ToBE32 x = ReadLE32 ?bs" using ToBE32_ToBE32 by metis
  then show ?thesis by (simp add: WriteBE32_EX_def WriteLE32_ReadLE32)
qed

lemma WriteBE32_EX_fun: "WriteBE32_EX = WriteBE32"
  by (simp add: fun_eq_iff WriteBE32_EX_eq)

section \<open>The two copies of the block function\<close>

definition loads_within :: "nat \<Rightarrow> round_instr \<Rightarrow> bool" where
  "loads_within n instr = (case instr of RND r k act \<Rightarrow> (case act of WLoad i off \<Rightarrow> off + 4 \<le> n | _ \<Rightarrow> True))"

lemma TT_functions:
  "TT_Ch = Ch" "TT_Maj = Maj" "TT_Sigma0 = Sigma0" "TT_Sigma1 = Sigma1" "TT_sigma0 = sigma0" "TT_sigma1 = sigma1"
  by (simp_all only: fun_eq_iff TT_Ch_def Ch_def TT_Maj_def Maj_def TT_Sigma0_def Sigma0_def TT_Sigma1_def Sigma1_def
      TT_sigma0_def sigma0_def TT_sigma1_def sigma1_def simp_thms)

lemma cl_functions:
  "cl_Ch = Ch" "cl_Maj = Maj" "cl_Sigma0 = Sigma0" "cl_Sigma1 = Sigma1" "cl_sigma0 = sigma0" "cl_sigma1 = sigma1"
  by (simp_all only: fun_eq_iff cl_Ch_def Ch_def cl_Maj_def Maj_def cl_Sigma0_def Sigma0_def cl_Sigma1_def Sigma1_def
      cl_sigma0_def sigma0_def cl_sigma1_def sigma1_def simp_thms)

lemma TT_Round_eq: "TT_Round a b c d e f g h k w = Round a b c d e f g h (k + w)"
  by (simp add: TT_Round_def Round_def TT_functions add.assoc)

lemma cl_Round_eq: "cl_Round a b c d e f g h k w = Round a b c d e f g h (k + w)"
  by (simp add: cl_Round_def Round_def cl_functions add.assoc)

lemma TT_wterm_val_eq: "TT_wterm_val w t = wterm_val w t"
  by (cases t) (simp_all add: TT_functions)

lemma cl_wterm_val_eq: "cl_wterm_val w t = wterm_val w t"
  by (cases t) (simp_all add: cl_functions)

lemma TT_exec_round_eq:
  assumes "loads_within n instr" "n \<le> length chunk"
  shows "TT_exec_round chunk instr st = exec_round chunk instr st"
proof (cases instr)
  case (RND r k act)
  have "TT_waction chunk w act = exec_waction ReadBE32 chunk w act" for w
    using assms RND
    by (cases act) (auto simp: TT_wsum_def wsum_def TT_wterm_val_eq loads_within_def ReadBE32_EX_eq cong: map_cong)
  then show ?thesis by (cases st) (simp add: RND TT_Round_eq)
qed

lemma cl_exec_round_eq:
  assumes "loads_within n instr" "n \<le> length chunk"
  shows "cl_exec_round chunk instr st = exec_round chunk instr st"
proof (cases instr)
  case (RND r k act)
  have "cl_waction chunk w act = exec_waction ReadBE32 chunk w act" for w
    using assms RND
    by (cases act) (auto simp: cl_wsum_def wsum_def cl_wterm_val_eq loads_within_def ReadBE32_EX_eq cong: map_cong)
  then show ?thesis by (cases st) (simp add: RND cl_Round_eq)
qed

lemma unrolled_rounds_eq: "TT_t_rounds = Transform_rounds" "cl_T_rounds = Transform_rounds"
  by (simp_all add: TT_t_rounds_def cl_T_rounds_def Transform_rounds_def)

lemma Transform_rounds_loads: "list_all (loads_within 64) Transform_rounds"
  by (simp add: Transform_rounds_def loads_within_def)

lemma TT_t_fips:
  "length s = 8 \<Longrightarrow> 64 * n \<le> length chunk \<Longrightarrow> TT_t s chunk n = iter_blocks 64 fips_compress n s chunk"
proof (induction n arbitrary: s chunk)
  case (Suc n)
  have "fold (TT_exec_round chunk) Transform_rounds st = fold (exec_round chunk) Transform_rounds st" for st
    using Transform_rounds_loads Suc.prems
    by (intro fold_cong) (auto simp: list_all_iff intro!: ext TT_exec_round_eq)
  then have "(let (regs, _) = fold (TT_exec_round chunk) TT_t_rounds (s, replicate 16 0) in map2 (+) s regs)
      = fips_compress s chunk"
    using Transform_block_fips [of s "replicate 16 0" chunk] Suc.prems
    by (simp add: Transform_block_def unrolled_rounds_eq)
  then show ?case using Suc by (auto simp: Let_def split: prod.splits)
qed simp

lemma cl_T_fips:
  "length s = 8 \<Longrightarrow> 64 * n \<le> length chunk \<Longrightarrow> cl_T s chunk n = iter_blocks 64 fips_compress n s chunk"
proof (induction n arbitrary: s chunk)
  case (Suc n)
  have "fold (cl_exec_round chunk) Transform_rounds st = fold (exec_round chunk) Transform_rounds st" for st
    using Transform_rounds_loads Suc.prems
    by (intro fold_cong) (auto simp: list_all_iff intro!: ext cl_exec_round_eq)
  then have "(let (regs, _) = fold (cl_exec_round chunk) cl_T_rounds (s, replicate 16 0) in map2 (+) s regs)
      = fips_compress s chunk"
    using Transform_block_fips [of s "replicate 16 0" chunk] Suc.prems
    by (simp add: Transform_block_def unrolled_rounds_eq)
  then show ?case using Suc by (auto simp: Let_def split: prod.splits)
qed simp

section \<open>The padded header and the second hash\<close>

lemma PadBlockHaderData_pad:
  assumes "length buf = 128"
  shows "PadBlockHaderData buf = sha256_pad (take 80 buf)"
proof -
  define h where "h = take 80 buf"
  then have h: "length h = 80" "take 80 buf = h" using assms by simp_all
  have "memcpy buf 80 (replicate 48 0) = h @ replicate 48 0"
    using assms h by (simp add: memcpy_def)
  moreover have "(h @ replicate 48 0)[80 := 0x80] = h @ 0x80 # replicate 47 0"
    using h(1) replicate_Suc [of 47 "0 :: u8"] by (simp add: list_update_append del: replicate_Suc)
  moreover have "memcpy (h @ 0x80 # replicate 47 0) 120 (WriteBE64 (push_bit 3 80)) =
      h @ 0x80 # replicate 39 0 @ WriteBE64 640"
    using h(1) by (simp add: memcpy_def push_bit_eq_mult)
  moreover have "sha256_zeros 80 = 39" by (simp add: sha256_zeros_def)
  ultimately show ?thesis using h by (simp add: PadBlockHaderData_def Let_def sha256_pad_def)
qed

lemma second_block:
  assumes "length d = 32"
  shows "memcpy ((d @ replicate 32 0)[32 := 0x80]) 56 (WriteBE64 256) = sha256_pad d"
proof -
  have "(d @ replicate 32 0)[32 := 0x80] = d @ 0x80 # replicate 31 0"
    using assms replicate_Suc [of 31 "0 :: u8"] by (simp add: list_update_append del: replicate_Suc)
  moreover have "memcpy (d @ 0x80 # replicate 31 0) 56 (WriteBE64 256) = d @ 0x80 # replicate 23 0 @ WriteBE64 256"
    using assms by (simp add: memcpy_def)
  moreover have "sha256_zeros 32 = 23" by (simp add: sha256_zeros_def)
  ultimately show ?thesis using assms by (simp add: sha256_pad_def)
qed

lemma length_sha256_pad_80: "length m = 80 \<Longrightarrow> length (sha256_pad m) = 128"
  by (simp add: sha256_pad_def sha256_zeros_def)

lemma length_sha256_pad_32: "length m = 32 \<Longrightarrow> length (sha256_pad m) = 64"
  by (simp add: sha256_pad_def sha256_zeros_def)

lemma memcpy_0: "length src \<le> n \<Longrightarrow> memcpy (replicate n 0) 0 src = src @ replicate (n - length src) 0"
  by (simp add: memcpy_def)

lemma push_bit_3_32: "push_bit 3 (32 :: u64) = 256"
  by (simp add: push_bit_eq_mult)

lemma TT_HashTest_sha256d:
  assumes "length m = 80"
  shows "TT_HashTest (sha256_pad m) = sha256d m"
proof -
  have I: "TT_Init = sha256_Initialize" by (simp add: TT_Init_def sha256_Initialize_def)
  have "concat (map WriteBE32 (TT_t TT_Init (sha256_pad m) 2)) = sha256 m"
    using assms by (simp add: I TT_t_fips length_sha256_pad_80 sha256_def)
  moreover have "concat (map WriteBE32 (TT_t TT_Init (sha256_pad (sha256 m)) 1)) = sha256d m"
    by (simp only: I) (simp add: TT_t_fips length_sha256_pad_32 sha256_def [of "sha256 m"] sha256d_def del: TT_t.simps)
  ultimately show ?thesis
    using second_block [of "sha256 m"]
    unfolding TT_HashTest_def Let_def WriteBE32_EX_fun push_bit_3_32
    by (simp add: memcpy_0 del: TT_t.simps One_nat_def)
qed

section \<open>The work items\<close>

definition header_with_nonce :: "bytes \<Rightarrow> u32 \<Rightarrow> bytes" where
  "header_with_nonce hdr nonce = take 76 hdr @ WriteLE32 nonce"

lemma pad_set_nonce:
  assumes "length hdr = 80"
  shows "memcpy (sha256_pad hdr) 76 (WriteLE32 nonce) = sha256_pad (header_with_nonce hdr nonce)"
  using assms by (simp add: sha256_pad_def memcpy_def header_with_nonce_def)

lemma WriteBE64_EX_256: "WriteBE64_EX (push_bit 3 32) = WriteBE64 256"
proof -
  have "ToBE64 (push_bit 3 32) = 0x1000000000000" unfolding push_bit_3_32 by (simp add: ToBE64_def)
  moreover have "WriteLE64 0x1000000000000 = WriteBE64 256" by (simp add: WriteLE64_def WriteBE64_def wdigits_numeral)
  ultimately show ?thesis by (simp only: WriteBE64_EX_def)
qed

lemma cl_DoHash_0: "32 \<le> length out \<Longrightarrow> length (cl_T cl_Reset d n) = 8 \<Longrightarrow>
    cl_DoHash d n out = concat (map WriteBE32 (cl_T cl_Reset d n)) @ drop 32 out"
  by (simp add: cl_DoHash_def memcpy_def WriteBE32_EX_fun)

lemma BtcDoubleSHA256_sha256d:
  assumes "length hdr = 80"
  shows "BtcDoubleSHA256 (sha256_pad hdr) nonceOffset puId pOut =
     memcpy pOut (puId * 32) (sha256d (header_with_nonce hdr (word_of_nat puId + nonceOffset)))"
proof -
  let ?m = "header_with_nonce hdr (word_of_nat puId + nonceOffset)"
  have m: "length ?m = 80" using assms by (simp add: header_with_nonce_def)
  have I: "cl_Reset = sha256_Initialize" by (simp add: cl_Reset_def sha256_Initialize_def)
  have T2: "cl_T cl_Reset (sha256_pad ?m) 2 = iter_blocks 64 fips_compress 2 sha256_Initialize (sha256_pad ?m)"
    using m by (simp only: I) (simp add: cl_T_fips length_sha256_pad_80 del: cl_T.simps iter_blocks.simps)
  have T1: "cl_T cl_Reset (sha256_pad (sha256 ?m)) 1 = iter_blocks 64 fips_compress 1 sha256_Initialize (sha256_pad (sha256 ?m))"
    by (simp only: I) (simp add: cl_T_fips length_sha256_pad_32 del: cl_T.simps iter_blocks.simps One_nat_def)
  have d1: "cl_DoHash (sha256_pad ?m) 2 (replicate 64 0) = sha256 ?m @ replicate 32 0"
    using m by (subst cl_DoHash_0) (simp_all add: T2 length_iter_fips sha256_def length_sha256_pad_80 del: iter_blocks.simps)
  have d2: "take 32 (cl_DoHash (sha256_pad (sha256 ?m)) 1 (sha256_pad (sha256 ?m))) = sha256d ?m"
    by (subst cl_DoHash_0)
      (simp_all add: T1 length_iter_fips sha256_def [of "sha256 ?m"] sha256d_def length_sha256_pad_32 del: iter_blocks.simps One_nat_def)
  show ?thesis
    using pad_set_nonce [OF assms] length_sha256_pad_80 [OF assms] second_block [of "sha256 ?m"]
    unfolding BtcDoubleSHA256_def Let_def NONCE_OFFSET_def WriteBE64_EX_256
    by (simp add: d1 d2 del: One_nat_def)
qed

text \<open>
  The launch: whatever the order of the work items, the output is the concatenation of the hashes.
\<close>

lemma memcpy_other_slice:
  assumes "length src = 32" "i \<noteq> j" "i * 32 + 32 \<le> length out" "j * 32 + 32 \<le> length out"
  shows "take 32 (drop (i * 32) (memcpy out (j * 32) src)) = take 32 (drop (i * 32) out)"
proof (rule nth_equalityI)
  show "length (take 32 (drop (i * 32) (memcpy out (j * 32) src))) = length (take 32 (drop (i * 32) out))"
    using assms by simp
next
  fix k
  assume "k < length (take 32 (drop (i * 32) (memcpy out (j * 32) src)))"
  then have k: "k < 32" "i * 32 + k < length out" using assms by simp_all
  consider "i < j" | "j < i" using assms(2) by linarith
  then show "take 32 (drop (i * 32) (memcpy out (j * 32) src)) ! k = take 32 (drop (i * 32) out) ! k"
  proof cases
    case 1
    then have "i * 32 + k < j * 32" "k < j * 32 - i * 32" using k by linarith+
    with assms k show ?thesis by (simp add: memcpy_def nth_append)
  next
    case 2
    then have "j * 32 + 32 \<le> i * 32" by linarith
    with assms k show ?thesis by (simp add: memcpy_def nth_append)
  qed
qed

lemma memcpy_own_slice:
  assumes "length src = 32" "j * 32 + 32 \<le> length out"
  shows "take 32 (drop (j * 32) (memcpy out (j * 32) src)) = src"
  using assms by (simp add: memcpy_def)

lemma run_kernel_slice:
  assumes "length hdr = 80" "length pOut = 32 * n" "set ids \<subseteq> {..<n}" "i < n"
  shows "take 32 (drop (i * 32) (run_kernel (sha256_pad hdr) nonceOffset ids pOut)) =
      (if i \<in> set ids then sha256d (header_with_nonce hdr (word_of_nat i + nonceOffset))
       else take 32 (drop (i * 32) pOut))
    \<and> length (run_kernel (sha256_pad hdr) nonceOffset ids pOut) = 32 * n"
  using assms(2,3)
proof (induction ids arbitrary: pOut)
  case Nil
  then show ?case by (simp add: run_kernel_def)
next
  case (Cons j ids)
  let ?out = "memcpy pOut (j * 32) (sha256d (header_with_nonce hdr (word_of_nat j + nonceOffset)))"
  have j: "j < n" using Cons.prems by simp
  have len: "length ?out = 32 * n" using Cons.prems(1) j by simp
  have step: "run_kernel (sha256_pad hdr) nonceOffset (j # ids) pOut = run_kernel (sha256_pad hdr) nonceOffset ids ?out"
    by (simp add: run_kernel_def BtcDoubleSHA256_sha256d [OF assms(1)])
  have "take 32 (drop (i * 32) ?out) = (if i = j then sha256d (header_with_nonce hdr (word_of_nat i + nonceOffset))
      else take 32 (drop (i * 32) pOut))"
    using Cons.prems(1) j assms(4) by (simp add: memcpy_own_slice memcpy_other_slice)
  with Cons.IH [OF len] Cons.prems(2) show ?case unfolding step by auto
qed

section \<open>Properties\<close>



text \<open>
  The CPU twin of the kernel used by the performance test hashes a padded header to its
  double SHA-256, the value \<open>Hash256\<close> computes on the unpadded 80 bytes.
\<close>

theorem TT_HashTest_correct:
  assumes "length buf = 128"
  shows "TT_HashTest (PadBlockHaderData buf) = Hash256 (take 80 buf)"
  using assms by (simp add: PadBlockHaderData_pad TT_HashTest_sha256d Hash256_sha256d)

theorem TT_HashTest_correct_witness:
  "TT_HashTest (PadBlockHaderData (replicate 128 1)) = Hash256 (take 80 (replicate 128 1))"
  using TT_HashTest_correct [of "replicate 128 1"] by simp

end
