(* ===== verification/Serialize.thy ===== *)
theory Serialize
  imports Sha256_Cpu
begin

text \<open>
  The serialisation layer: the stream templates of \<^verbatim>\<open>src/serialize.h\<close> and the message buffer
  \<^verbatim>\<open>NetMessageData\<close> of \<^verbatim>\<open>src/net.h\<close> that every object is written to and read from.

  A serialiser is a template over the stream class; what it does to a stream is a sequence of calls, so
  it is modelled as the list of these calls (\<open>ser_op\<close>), which each stream class then executes: the
  message buffer appends, the size computer counts, the hash writer hashes. \<open>ser_bytes\<close> is the common
  meaning. A deserialiser is a state-passing function on the buffer that may throw.

  \<^verbatim>\<open>NetMessageData::read\<close> returns without copying when the data is too short. A destination that was
  already initialised then keeps its old value, which is why the deserialisers of arrays and objects
  take the old value; an uninitialised local integer stays indeterminate, and using it is the
  error \<open>Indeterminate\<close>.
\<close>

section \<open>The message buffer\<close>

datatype ser_error =
    NonCanonicalSize
  | SizeTooLarge
  | StringLimitExceeded
  | VarIntTooLarge
  | Indeterminate
  | Diverges

record NetMessageData =
  nd_data :: bytes
  nd_readPos :: u32
  nd_version :: u32
  nd_command :: bytes

definition NetMessageData_new :: "bytes \<Rightarrow> u32 \<Rightarrow> NetMessageData" where
  "NetMessageData_new other version = \<lparr>nd_data = other, nd_readPos = 0, nd_version = version, nd_command = []\<rparr>"

definition NetMessageData_read :: "nat \<Rightarrow> NetMessageData \<Rightarrow> bytes option \<times> NetMessageData" where
  "NetMessageData_read n s =
     (if n = 0 then (Some [], s)
      else if length (nd_data s) < unat (nd_readPos s) + n then (None, s)
      else (Some (take n (drop (unat (nd_readPos s)) (nd_data s))),
            s\<lparr>nd_readPos := nd_readPos s + word_of_nat n\<rparr>))"

definition NetMessageData_write :: "bytes \<Rightarrow> NetMessageData \<Rightarrow> NetMessageData" where
  "NetMessageData_write pBuf s = s\<lparr>nd_data := nd_data s @ pBuf\<rparr>"

definition NetMessageData_ignore :: "nat \<Rightarrow> NetMessageData \<Rightarrow> NetMessageData" where
  "NetMessageData_ignore n s =
     (if length (nd_data s) < unat (nd_readPos s) + n then s
      else s\<lparr>nd_readPos := nd_readPos s + word_of_nat n\<rparr>)"

definition NetMessageData_empty :: "NetMessageData \<Rightarrow> bool" where
  "NetMessageData_empty s \<longleftrightarrow> length (nd_data s) = unat (nd_readPos s)"

definition NetMessageData_ResetPos :: "NetMessageData \<Rightarrow> NetMessageData" where
  "NetMessageData_ResetPos s = s\<lparr>nd_readPos := 0\<rparr>"

section \<open>Writing\<close>

datatype ser_op = W bytes | CS u64

definition ser_writedata8 :: "u8 \<Rightarrow> ser_op list" where
  "ser_writedata8 obj = [W [obj]]"

definition ser_writedata16 :: "u16 \<Rightarrow> ser_op list" where
  "ser_writedata16 obj = [W (WriteLE16 obj)]"

definition ser_writedata32 :: "u32 \<Rightarrow> ser_op list" where
  "ser_writedata32 obj = [W (WriteLE32 obj)]"

definition ser_writedata64 :: "u64 \<Rightarrow> ser_op list" where
  "ser_writedata64 obj = [W (WriteLE64 obj)]"

definition Serialize_bool :: "bool \<Rightarrow> ser_op list" where
  "Serialize_bool a = ser_writedata8 (if a then 1 else 0)"

definition GetSizeOfCompactSize :: "u64 \<Rightarrow> nat" where
  "GetSizeOfCompactSize nSize =
     (if nSize < 253 then 1 else if nSize \<le> 0xFFFF then 1 + 2 else if nSize \<le> 0xFFFFFFFF then 1 + 4 else 1 + 8)"

definition WriteCompactSize :: "u64 \<Rightarrow> bytes" where
  "WriteCompactSize nSize =
     (if nSize < 253 then [ucast nSize]
      else if nSize \<le> 0xFFFF then 253 # WriteLE16 (ucast nSize)
      else if nSize \<le> 0xFFFFFFFF then 254 # WriteLE32 (ucast nSize)
      else 255 # WriteLE64 nSize)"

definition Serialize_string :: "bytes \<Rightarrow> ser_op list" where
  "Serialize_string str = CS (word_of_nat (length str)) # (if str \<noteq> [] then [W str] else [])"

definition Serialize_array :: "bytes \<Rightarrow> ser_op list" where
  "Serialize_array a = [W a]"

definition Serialize_byte_vector :: "bytes \<Rightarrow> ser_op list" where
  "Serialize_byte_vector v = CS (word_of_nat (length v)) # (if v \<noteq> [] then [W v] else [])"

text \<open>Scripts are prevectors of bytes; the templates for prevectors repeat those for vectors.\<close>

definition Serialize_prevector :: "bytes \<Rightarrow> ser_op list" where
  "Serialize_prevector v = CS (word_of_nat (length v)) # (if v \<noteq> [] then [W v] else [])"

definition LimitedString_Serialize :: "bytes \<Rightarrow> ser_op list" where
  "LimitedString_Serialize string = CS (word_of_nat (length string)) # (if string \<noteq> [] then [W string] else [])"

definition Serialize_vector :: "('a \<Rightarrow> ser_op list) \<Rightarrow> 'a list \<Rightarrow> ser_op list" where
  "Serialize_vector ser v = CS (word_of_nat (length v)) # concat (map ser v)"

definition Serialize_pair :: "('k \<Rightarrow> ser_op list) \<Rightarrow> ('v \<Rightarrow> ser_op list) \<Rightarrow> 'k \<times> 'v \<Rightarrow> ser_op list" where
  "Serialize_pair ser1 ser2 item = ser1 (fst item) @ ser2 (snd item)"

text \<open>A \<^verbatim>\<open>std::map\<close> is the list of its entries in key order.\<close>

definition Serialize_map :: "('k \<times> 'v \<Rightarrow> ser_op list) \<Rightarrow> ('k \<times> 'v) list \<Rightarrow> ser_op list" where
  "Serialize_map ser m = CS (word_of_nat (length m)) # concat (map ser m)"

definition Serialize_set :: "('k \<Rightarrow> ser_op list) \<Rightarrow> 'k list \<Rightarrow> ser_op list" where
  "Serialize_set ser m = CS (word_of_nat (length m)) # concat (map ser m)"

section \<open>The streams that execute the calls\<close>

definition ser_op_bytes :: "ser_op \<Rightarrow> bytes" where
  "ser_op_bytes op = (case op of W bs \<Rightarrow> bs | CS n \<Rightarrow> WriteCompactSize n)"

definition ser_bytes :: "ser_op list \<Rightarrow> bytes" where
  "ser_bytes ops = concat (map ser_op_bytes ops)"

text \<open>\<^verbatim>\<open>NetMessageData::operator<<\<close>.\<close>

definition NetMessageData_out :: "NetMessageData \<Rightarrow> ser_op list \<Rightarrow> NetMessageData" where
  "NetMessageData_out s ops = foldl (\<lambda>s op. case op of
       W bs \<Rightarrow> NetMessageData_write bs s | CS n \<Rightarrow> NetMessageData_write (WriteCompactSize n) s) s ops"

text \<open>\<^verbatim>\<open>CSizeComputer\<close>: \<open>write\<close> counts and \<open>WriteCompactSize\<close> is overloaded to \<open>seek\<close>.\<close>

definition CSizeComputer_out :: "nat \<Rightarrow> ser_op list \<Rightarrow> nat" where
  "CSizeComputer_out nSize ops = foldl (\<lambda>n op. case op of
       W bs \<Rightarrow> n + length bs | CS k \<Rightarrow> n + GetSizeOfCompactSize k) nSize ops"

definition GetSerializeSize :: "ser_op list \<Rightarrow> nat" where
  "GetSerializeSize ops = CSizeComputer_out 0 ops"

definition CHashWriter_out :: "SHA256_CPU \<Rightarrow> ser_op list \<Rightarrow> SHA256_CPU" where
  "CHashWriter_out ctx ops = foldl (\<lambda>c op. case op of
       W bs \<Rightarrow> CHashWriter_write c bs | CS n \<Rightarrow> CHashWriter_write c (WriteCompactSize n)) ctx ops"

definition SerializeHash :: "ser_op list \<Rightarrow> bytes" where
  "SerializeHash ops = CHashWriter_GetHash (CHashWriter_out SHA256_CPU_new ops)"

section \<open>Reading\<close>

type_synonym 'a unser = "NetMessageData \<Rightarrow> ser_error + 'a \<times> NetMessageData"

definition retU :: "'a \<Rightarrow> 'a unser" where
  "retU x s = Inr (x, s)"

definition throwU :: "ser_error \<Rightarrow> 'a unser" where
  "throwU e s = Inl e"

definition bindU :: "'a unser \<Rightarrow> ('a \<Rightarrow> 'b unser) \<Rightarrow> 'b unser" where
  "bindU m f s = (case m s of Inl e \<Rightarrow> Inl e | Inr (x, s') \<Rightarrow> f x s')"

definition versionU :: "(u32 \<Rightarrow> 'a unser) \<Rightarrow> 'a unser" where
  "versionU f s = f (nd_version s) s"

definition ser_readdata :: "nat \<Rightarrow> (bytes \<Rightarrow> 'a) \<Rightarrow> 'a unser" where
  "ser_readdata n conv s =
     (case NetMessageData_read n s of (None, s') \<Rightarrow> Inl Indeterminate | (Some bs, s') \<Rightarrow> Inr (conv bs, s'))"

definition ser_readdata8 :: "u8 unser" where
  "ser_readdata8 = ser_readdata 1 hd"

definition ser_readdata16 :: "u16 unser" where
  "ser_readdata16 = ser_readdata 2 ReadLE16"

definition ser_readdata32 :: "u32 unser" where
  "ser_readdata32 = ser_readdata 4 ReadLE32"

definition ser_readdata64 :: "u64 unser" where
  "ser_readdata64 = ser_readdata 8 ReadLE64"

definition Unserialize_bool :: "bool unser" where
  "Unserialize_bool = bindU ser_readdata8 (\<lambda>f. retU (f \<noteq> 0))"

text \<open>Reading into an initialised array: a short read leaves it as it was.\<close>

definition Unserialize_array :: "bytes \<Rightarrow> bytes unser" where
  "Unserialize_array old s =
     (case NetMessageData_read (length old) s of (None, s') \<Rightarrow> Inr (old, s') | (Some bs, s') \<Rightarrow> Inr (bs, s'))"

definition MAX_SIZE :: nat where
  "MAX_SIZE = 0x02000000"

definition ReadCompactSize :: "u64 unser" where
  "ReadCompactSize =
     bindU ser_readdata8 (\<lambda>chSize.
     bindU (if chSize < 253 then retU (ucast chSize)
            else if chSize = 253 then
              bindU ser_readdata16 (\<lambda>n. if (ucast n :: u64) < 253 then throwU NonCanonicalSize else retU (ucast n))
            else if chSize = 254 then
              bindU ser_readdata32 (\<lambda>n. if (ucast n :: u64) < 0x10000 then throwU NonCanonicalSize else retU (ucast n))
            else
              bindU ser_readdata64 (\<lambda>n. if n < 0x100000000 then throwU NonCanonicalSize else retU n))
       (\<lambda>nSizeRet. if word_of_nat MAX_SIZE < nSizeRet then throwU SizeTooLarge else retU nSizeRet))"

text \<open>\<open>resize\<close> of a vector or a string keeps a prefix and fills with the default value.\<close>

definition resize :: "'a \<Rightarrow> nat \<Rightarrow> 'a list \<Rightarrow> 'a list" where
  "resize d n xs = take n xs @ replicate (n - length xs) d"

definition Unserialize_string :: "bytes \<Rightarrow> bytes unser" where
  "Unserialize_string str = bindU ReadCompactSize (\<lambda>n.
     let nSize = unat (ucast n :: u32); str = resize 0 nSize str
     in if nSize \<noteq> 0 then Unserialize_array str else retU str)"

definition LimitedString_Unserialize :: "nat \<Rightarrow> bytes \<Rightarrow> bytes unser" where
  "LimitedString_Unserialize Limit string = bindU ReadCompactSize (\<lambda>n.
     let sz = unat n in
     if Limit < sz then throwU StringLimitExceeded
     else let string = resize 0 sz string
          in if sz \<noteq> 0 then Unserialize_array string else retU string)"

text \<open>
  Vectors of bytes are read in blocks of at most 5000000 bytes; the vector grows by one block before
  each read.
\<close>

function Unserialize_byte_vector_loop :: "nat \<Rightarrow> nat \<Rightarrow> bytes \<Rightarrow> bytes unser" where
  "Unserialize_byte_vector_loop nSize i v =
     (if i < nSize then
        let blk = min (nSize - i) (1 + 4999999)
        in bindU (Unserialize_array (replicate blk 0)) (\<lambda>bs. Unserialize_byte_vector_loop nSize (i + blk) (v @ bs))
      else retU v)"
  by pat_completeness auto
termination by (relation "measure (\<lambda>(nSize, i, v). nSize - i)") auto

declare Unserialize_byte_vector_loop.simps [simp del]

definition Unserialize_byte_vector :: "bytes unser" where
  "Unserialize_byte_vector = bindU ReadCompactSize (\<lambda>n. Unserialize_byte_vector_loop (unat (ucast n :: u32)) 0 [])"

definition Unserialize_prevector :: "bytes unser" where
  "Unserialize_prevector = bindU ReadCompactSize (\<lambda>n. Unserialize_byte_vector_loop (unat (ucast n :: u32)) 0 [])"

text \<open>
  Vectors of objects grow by \<^verbatim>\<open>5000000 / sizeof(T)\<close> default objects at a time, and each is
  read in place. The inner loop reads the objects \<open>i .. nMid - 1\<close>. With an object of more than
  5000000 bytes \<open>nMid\<close> would never move.
\<close>

primrec Unserialize_elems :: "('a \<Rightarrow> 'a unser) \<Rightarrow> 'a list \<Rightarrow> 'a list unser" where
  "Unserialize_elems un [] = retU []"
| "Unserialize_elems un (x # xs) = bindU (un x) (\<lambda>y. bindU (Unserialize_elems un xs) (\<lambda>ys. retU (y # ys)))"

function Unserialize_vector_loop :: "nat \<Rightarrow> 'a \<Rightarrow> ('a \<Rightarrow> 'a unser) \<Rightarrow> nat \<Rightarrow> nat \<Rightarrow> 'a list \<Rightarrow> 'a list unser" where
  "Unserialize_vector_loop step dflt un nSize nMid v =
     (if nMid < nSize then
        if step = 0 then throwU Diverges
        else let nMid' = (if nSize < nMid + step then nSize else nMid + step)
             in bindU (Unserialize_elems un (replicate (nMid' - nMid) dflt))
                  (\<lambda>ys. Unserialize_vector_loop step dflt un nSize nMid' (v @ ys))
      else retU v)"
  by pat_completeness auto
termination by (relation "measure (\<lambda>(step, dflt, un, nSize, nMid, v). nSize - nMid)") auto

declare Unserialize_vector_loop.simps [simp del]

definition Unserialize_vector :: "nat \<Rightarrow> 'a \<Rightarrow> ('a \<Rightarrow> 'a unser) \<Rightarrow> 'a list unser" where
  "Unserialize_vector sizeofT dflt un =
     bindU ReadCompactSize (\<lambda>n. Unserialize_vector_loop (5000000 div sizeofT) dflt un (unat (ucast n :: u32)) 0 [])"

definition Unserialize_pair :: "('k \<Rightarrow> 'k unser) \<Rightarrow> ('v \<Rightarrow> 'v unser) \<Rightarrow> 'k \<times> 'v \<Rightarrow> ('k \<times> 'v) unser" where
  "Unserialize_pair un1 un2 item = bindU (un1 (fst item)) (\<lambda>a. bindU (un2 (snd item)) (\<lambda>b. retU (a, b)))"

text \<open>\<^verbatim>\<open>map::insert\<close>: an existing entry is kept.\<close>

fun map_insert :: "'k::linorder \<times> 'v \<Rightarrow> ('k \<times> 'v) list \<Rightarrow> ('k \<times> 'v) list" where
  "map_insert item [] = [item]"
| "map_insert item (e # m) =
     (if fst item < fst e then item # e # m
      else if fst item = fst e then e # m
      else e # map_insert item m)"

primrec Unserialize_map_loop ::
  "nat \<Rightarrow> 'k \<times> 'v \<Rightarrow> ('k \<times> 'v \<Rightarrow> ('k \<times> 'v) unser) \<Rightarrow> ('k::linorder \<times> 'v) list \<Rightarrow> ('k \<times> 'v) list unser" where
  "Unserialize_map_loop 0 dflt un m = retU m"
| "Unserialize_map_loop (Suc n) dflt un m =
     bindU (un dflt) (\<lambda>item. Unserialize_map_loop n dflt un (map_insert item m))"

definition Unserialize_map ::
  "'k \<times> 'v \<Rightarrow> ('k \<times> 'v \<Rightarrow> ('k \<times> 'v) unser) \<Rightarrow> ('k::linorder \<times> 'v) list unser" where
  "Unserialize_map dflt un = bindU ReadCompactSize (\<lambda>n. Unserialize_map_loop (unat (ucast n :: u32)) dflt un [])"

text \<open>A \<^verbatim>\<open>std::set\<close> is the list of its elements in order.\<close>

fun set_insert :: "'k::linorder \<Rightarrow> 'k list \<Rightarrow> 'k list" where
  "set_insert key [] = [key]"
| "set_insert key (e # m) = (if key < e then key # e # m else if key = e then e # m else e # set_insert key m)"

primrec Unserialize_set_loop :: "nat \<Rightarrow> 'k \<Rightarrow> ('k \<Rightarrow> 'k unser) \<Rightarrow> 'k::linorder list \<Rightarrow> 'k list unser" where
  "Unserialize_set_loop 0 dflt un m = retU m"
| "Unserialize_set_loop (Suc n) dflt un m = bindU (un dflt) (\<lambda>key. Unserialize_set_loop n dflt un (set_insert key m))"

definition Unserialize_set :: "'k \<Rightarrow> ('k \<Rightarrow> 'k unser) \<Rightarrow> 'k::linorder list unser" where
  "Unserialize_set dflt un = bindU ReadCompactSize (\<lambda>n. Unserialize_set_loop (unat (ucast n :: u32)) dflt un [])"

section \<open>Variable-length integers\<close>

text \<open>
  For an unsigned type of any width. The bytes of \<open>tmp\<close> are produced from the last one on;
  \<open>first\<close> tells whether \<open>len\<close> is still 0.
\<close>

lemma unat_varint_mask: "unat (0x7F :: 'a::len word) = 127 mod 2 ^ LENGTH('a)"
  by (simp add: unat_of_nat [of 127, simplified])

lemma unat_drop_bit_7: "unat (drop_bit 7 n) = unat n div 128" for n :: "'a::len word"
  by (simp only: unat_drop_bit_eq) (simp add: drop_bit_eq_div)

lemma varint_big: "0x7F < n \<Longrightarrow> 128 \<le> unat n" for n :: "'a::len word"
proof (rule ccontr)
  assume n: "0x7F < n" "\<not> 128 \<le> unat n"
  then have less: "127 mod 2 ^ LENGTH('a) < unat n" "unat n \<le> 127"
    by (simp_all add: word_less_nat_alt unat_varint_mask take_bit_eq_mod)
  have "unat n < 2 ^ LENGTH('a)" by (rule unsigned_less)
  show False
  proof (cases "7 \<le> LENGTH('a)")
    case True
    then have "(2 :: nat) ^ 7 \<le> 2 ^ LENGTH('a)" by (intro power_increasing) simp_all
    then show False using less by simp
  next
    case False
    then have "(2 :: nat) ^ LENGTH('a) dvd 2 ^ 7" by (intro le_imp_power_dvd) simp
    then have "(2 :: nat) ^ LENGTH('a) dvd Suc 127" by simp
    then have "Suc 127 mod 2 ^ LENGTH('a) = (0 :: nat)" by (simp only: dvd_eq_mod_eq_0)
    then have "Suc (127 mod 2 ^ LENGTH('a)) = (2 :: nat) ^ LENGTH('a)"
      unfolding mod_Suc by (simp only: split: if_splits)
    with less \<open>unat n < 2 ^ LENGTH('a)\<close> show False by linarith
  qed
qed

lemma unat_varint_step: "0x7F < n \<Longrightarrow> unat (drop_bit 7 n - 1) = unat n div 128 - 1" for n :: "'a::len word"
proof -
  assume "0x7F < n"
  then have "128 \<le> unat n" by (rule varint_big)
  then have "1 \<le> unat (drop_bit 7 n)" by (simp add: unat_drop_bit_7)
  then have "1 \<le> drop_bit 7 n" by (simp add: word_le_nat_alt)
  then show ?thesis by (simp add: unat_sub unat_drop_bit_7)
qed

lemma varint_step_less: "0x7F < n \<Longrightarrow> unat (drop_bit 7 n - 1) < unat n" for n :: "'a::len word"
proof -
  assume n: "0x7F < n"
  have "unat n div 128 \<le> unat n" by simp
  with varint_big [OF n] unat_varint_step [OF n] show ?thesis by linarith
qed

function WriteVarInt_loop :: "'a::len word \<Rightarrow> bool \<Rightarrow> bytes" where
  "WriteVarInt_loop n first =
     (ucast (n AND 0x7F) OR (if first then 0 else 0x80)) #
     (if n \<le> 0x7F then [] else WriteVarInt_loop (drop_bit 7 n - 1) False)"
  by pat_completeness auto
termination
  by (relation "measure (\<lambda>(n, first). unat n)") (auto simp: not_le intro: varint_step_less)

declare WriteVarInt_loop.simps [simp del]

definition WriteVarInt :: "'a::len word \<Rightarrow> bytes" where
  "WriteVarInt n = rev (WriteVarInt_loop n True)"

function GetSizeOfVarInt_loop :: "'a::len word \<Rightarrow> nat \<Rightarrow> nat" where
  "GetSizeOfVarInt_loop n nRet =
     (if n \<le> 0x7F then Suc nRet else GetSizeOfVarInt_loop (drop_bit 7 n - 1) (Suc nRet))"
  by pat_completeness auto
termination
  by (relation "measure (\<lambda>(n, nRet). unat n)") (auto simp: not_le intro: varint_step_less)

declare GetSizeOfVarInt_loop.simps [simp del]

definition GetSizeOfVarInt :: "'a::len word \<Rightarrow> nat" where
  "GetSizeOfVarInt n = GetSizeOfVarInt_loop n 0"

text \<open>\<^verbatim>\<open>std::numeric_limits<I>::max()\<close> is the all-ones word.\<close>

lemma ReadVarInt_grows:
  "n \<le> drop_bit 7 (- 1) \<Longrightarrow> push_bit 7 n OR d \<noteq> - 1 \<Longrightarrow> unat n < unat ((push_bit 7 n OR d) + 1)"
  for n d :: "'a::len word"
proof -
  assume n: "n \<le> drop_bit 7 (- 1)" and m: "push_bit 7 n OR d \<noteq> - 1"
  have "unat n \<le> unat (drop_bit 7 (- 1 :: 'a word))" using n by (simp add: word_le_nat_alt)
  also have "\<dots> = (2 ^ LENGTH('a) - 1) div 128" unfolding unat_drop_bit_7 by (simp add: unsigned_minus_1_eq_mask mask_eq_exp_minus_1)
  finally have "unat n * 128 \<le> 2 ^ LENGTH('a) - 1" by (simp add: less_eq_div_iff_mult_less_eq)
  moreover have "(0 :: nat) < 2 ^ LENGTH('a)" by simp
  ultimately have "unat n * 128 < 2 ^ LENGTH('a)" by linarith
  then have push: "unat (push_bit 7 n) = unat n * 128"
    by (simp add: push_bit_eq_mult unat_word_ariths unat_of_nat [of 128, simplified] mod_mult_right_eq mult.commute)
  have "push_bit 7 n \<le> push_bit 7 n OR d" by (rule le_word_or2)
  then have "unat n * 128 \<le> unat (push_bit 7 n OR d)" using push by (simp add: word_le_nat_alt)
  moreover have "unat ((push_bit 7 n OR d) + 1) = Suc (unat (push_bit 7 n OR d))"
  proof -
    have "unat (push_bit 7 n OR d) \<noteq> 2 ^ LENGTH('a) - 1"
      using m by (simp add: word_unat_eq_iff unsigned_minus_1_eq_mask mask_eq_exp_minus_1)
    moreover have "unat (push_bit 7 n OR d) < 2 ^ LENGTH('a)" by (rule unsigned_less)
    ultimately have "Suc (unat (push_bit 7 n OR d)) < 2 ^ LENGTH('a)" by linarith
    then show ?thesis by (simp add: unat_word_ariths)
  qed
  ultimately show ?thesis by linarith
qed

function ReadVarInt_loop :: "'a::len word \<Rightarrow> 'a word unser" where
  "ReadVarInt_loop n s =
     (case ser_readdata8 s of
        Inl e \<Rightarrow> Inl e
      | Inr (chData, s') \<Rightarrow>
          if drop_bit 7 (- 1) < n then Inl VarIntTooLarge
          else let m = push_bit 7 n OR ucast (chData AND 0x7F)
               in if chData AND 0x80 \<noteq> 0 then
                    if m = - 1 then Inl VarIntTooLarge else ReadVarInt_loop (m + 1) s'
                  else Inr (m, s'))"
  by pat_completeness auto
termination
  by (relation "measure (\<lambda>(n, s). 2 ^ LENGTH('a) - unat n)")
    (auto simp: not_less intro!: diff_less_mono2 ReadVarInt_grows)

declare ReadVarInt_loop.simps [simp del]

definition ReadVarInt :: "'a::len word unser" where
  "ReadVarInt = ReadVarInt_loop 0"

section \<open>What the streams have in common\<close>

lemma ser_op_bytes_simps [simp]: "ser_op_bytes (W bs) = bs" "ser_op_bytes (CS n) = WriteCompactSize n"
  by (simp_all add: ser_op_bytes_def)

lemma ser_bytes_simps [simp]:
  "ser_bytes [] = []" "ser_bytes (op # ops) = ser_op_bytes op @ ser_bytes ops"
  "ser_bytes (ops @ ops') = ser_bytes ops @ ser_bytes ops'"
  by (simp_all add: ser_bytes_def)

lemma ser_bytes_concat: "ser_bytes (concat opss) = concat (map ser_bytes opss)"
  by (induction opss) simp_all

lemma NetMessageData_out_bytes: "NetMessageData_out s ops = NetMessageData_write (ser_bytes ops) s"
  unfolding NetMessageData_out_def
  by (induction ops arbitrary: s) (simp_all add: NetMessageData_write_def split: ser_op.split)

lemma length_WriteCompactSize: "length (WriteCompactSize n) = GetSizeOfCompactSize n"
  by (simp add: WriteCompactSize_def GetSizeOfCompactSize_def)

lemma CSizeComputer_out_length: "CSizeComputer_out n ops = n + length (ser_bytes ops)"
  unfolding CSizeComputer_out_def
  by (induction ops arbitrary: n) (simp_all add: length_WriteCompactSize split: ser_op.split)

lemma GetSerializeSize_length: "GetSerializeSize ops = length (ser_bytes ops)"
  by (simp add: GetSerializeSize_def CSizeComputer_out_length)

lemma CHashWriter_out_fold: "CHashWriter_out ctx ops = foldl CHashWriter_write ctx (map ser_op_bytes ops)"
  unfolding CHashWriter_out_def by (induction ops arbitrary: ctx) (simp_all split: ser_op.split)

lemma SerializeHash_sha256d: "SerializeHash ops = sha256d (ser_bytes ops)"
  by (simp add: SerializeHash_def CHashWriter_out_fold CHashWriter_sha256d ser_bytes_def)

section \<open>Decoding what was written\<close>

definition remaining :: "NetMessageData \<Rightarrow> bytes" where
  "remaining s = drop (unat (nd_readPos s)) (nd_data s)"

definition skip :: "nat \<Rightarrow> NetMessageData \<Rightarrow> NetMessageData" where
  "skip n s = s\<lparr>nd_readPos := nd_readPos s + word_of_nat n\<rparr>"

definition addressable :: "NetMessageData \<Rightarrow> bool" where
  "addressable s \<longleftrightarrow> length (nd_data s) < 2 ^ 32"

lemma skip_simps [simp]:
  "nd_data (skip n s) = nd_data s" "nd_version (skip n s) = nd_version s" "skip 0 s = s"
  "skip n (skip m s) = skip (m + n) s" "addressable (skip n s) = addressable s"
  by (simp_all add: skip_def addressable_def add.assoc)

lemma remaining_skip [simp]:
  assumes "addressable s" "n \<le> length (remaining s)"
  shows "remaining (skip n s) = drop n (remaining s)"
proof (cases "n = 0")
  case False
  then have "unat (nd_readPos s) + n \<le> length (nd_data s)"
    using assms(2) by (simp add: remaining_def)
  then have less: "unat (nd_readPos s) + n < 2 ^ 32" using assms(1) by (simp add: addressable_def)
  then have "unat (nd_readPos s + word_of_nat n) = unat (nd_readPos s) + n"
    by (simp add: unat_word_ariths unat_of_nat)
  then show ?thesis by (simp add: remaining_def skip_def add.commute)
qed simp

lemma read_enough: "n \<le> length (remaining s) \<Longrightarrow> NetMessageData_read n s = (Some (take n (remaining s)), skip n s)"
  by (cases "n = 0") (auto simp: NetMessageData_read_def remaining_def skip_def)

lemma read_short: "length (remaining s) < n \<Longrightarrow> NetMessageData_read n s = (None, s)"
  by (auto simp: NetMessageData_read_def remaining_def)

definition decodes :: "u32 \<Rightarrow> 'a unser \<Rightarrow> bytes \<Rightarrow> 'a \<Rightarrow> bool" where
  "decodes ver u bs x \<longleftrightarrow>
     (\<forall>s rest. addressable s \<longrightarrow> nd_version s = ver \<longrightarrow> remaining s = bs @ rest \<longrightarrow>
        u s = Inr (x, skip (length bs) s))"

lemma decodesD:
  "decodes ver u bs x \<Longrightarrow> addressable s \<Longrightarrow> nd_version s = ver \<Longrightarrow> remaining s = bs @ rest \<Longrightarrow>
     u s = Inr (x, skip (length bs) s)"
  by (auto simp: decodes_def)

named_theorems decoding \<open>rules that reduce a round trip to the round trips of the parts\<close>

lemma decodes_ret [decoding]: "decodes ver (retU x) [] x"
  by (simp add: decodes_def retU_def)

lemma decodes_bind [decoding]:
  assumes "decodes ver m bs x" "decodes ver (f x) cs y"
  shows "decodes ver (bindU m f) (bs @ cs) y"
  unfolding decodes_def
proof (intro allI impI)
  fix s rest
  assume s: "addressable s" "nd_version s = ver" "remaining s = (bs @ cs) @ rest"
  then have "m s = Inr (x, skip (length bs) s)"
    by (intro decodesD [OF assms(1)]) simp_all
  moreover have "f x (skip (length bs) s) = Inr (y, skip (length cs) (skip (length bs) s))"
    using s by (intro decodesD [OF assms(2)]) simp_all
  ultimately show "bindU m f s = Inr (y, skip (length (bs @ cs)) s)"
    by (simp add: bindU_def)
qed

lemma decodes_bind_last [decoding]:
  "decodes ver m bs x \<Longrightarrow> decodes ver (f x) [] y \<Longrightarrow> decodes ver (bindU m f) bs y"
  using decodes_bind [of ver m bs x f "[]" y] by simp

lemma decodes_version [decoding]: "decodes ver (f ver) bs x \<Longrightarrow> decodes ver (versionU f) bs x"
  by (simp add: decodes_def versionU_def)

lemma decodes_readdata: "length bs = n \<Longrightarrow> decodes ver (ser_readdata n conv) bs (conv bs)"
  by (simp add: decodes_def ser_readdata_def read_enough)

lemma decodes_readdata8 [decoding]: "decodes ver ser_readdata8 [x] x"
  using decodes_readdata [of "[x]" 1 ver hd] by (simp add: ser_readdata8_def)

lemma decodes_readdata16 [decoding]: "decodes ver ser_readdata16 (WriteLE16 x) x"
  using decodes_readdata [of "WriteLE16 x" 2 ver ReadLE16] ReadLE16_WriteLE16 [of x "[]"]
  by (simp add: ser_readdata16_def)

lemma decodes_readdata32 [decoding]: "decodes ver ser_readdata32 (WriteLE32 x) x"
  using decodes_readdata [of "WriteLE32 x" 4 ver ReadLE32] ReadLE32_WriteLE32 [of x "[]"]
  by (simp add: ser_readdata32_def)

lemma decodes_readdata64 [decoding]: "decodes ver ser_readdata64 (WriteLE64 x) x"
  using decodes_readdata [of "WriteLE64 x" 8 ver ReadLE64] ReadLE64_WriteLE64 [of x "[]"]
  by (simp add: ser_readdata64_def)

lemma decodes_array [decoding]: "length bs = length old \<Longrightarrow> decodes ver (Unserialize_array old) bs bs"
  by (simp add: decodes_def Unserialize_array_def read_enough)

lemma decodes_bool [decoding]: "decodes ver Unserialize_bool (ser_bytes (Serialize_bool a)) a"
  unfolding Unserialize_bool_def Serialize_bool_def ser_writedata8_def
  by (cases a) (simp_all, (rule decodes_bind_last [OF decodes_readdata8], simp add: decodes_ret)+)

subsection \<open>Compact sizes\<close>

lemma unat_ucast_small: "unat x < 2 ^ LENGTH('b) \<Longrightarrow> unat (ucast x :: 'b::len word) = unat x" for x :: "'a::len word"
  by (simp add: unsigned_ucast_eq take_bit_nat_eq_self)

lemma ucast_ucast_small: "unat x < 2 ^ LENGTH('b) \<Longrightarrow> ucast (ucast x :: 'b::len word) = x" for x :: "'a::len word"
proof -
  assume "unat x < 2 ^ LENGTH('b)"
  then have "unat (ucast x :: 'b word) = unat x" by (rule unat_ucast_small)
  moreover have "unat (ucast (ucast x :: 'b word) :: 'a word) = take_bit LENGTH('a) (unat (ucast x :: 'b word))"
    by (rule unsigned_ucast_eq)
  ultimately show ?thesis by (simp only: word_unat_eq_iff take_bit_nat_eq_self unsigned_less)
qed

lemma ucast_ucast_wider: "LENGTH('a) \<le> LENGTH('b) \<Longrightarrow> ucast (ucast x :: 'b::len word) = x" for x :: "'a::len word"
  by (rule ucast_ucast_small) (rule order_less_le_trans [OF unsigned_less], simp)

lemma decodes_CompactSize [decoding]:
  assumes "n \<le> word_of_nat MAX_SIZE"
  shows "decodes ver ReadCompactSize (WriteCompactSize n) n"
proof -
  have max: "\<not> word_of_nat MAX_SIZE < n" using assms by (simp add: not_less)
  have rec: "decodes ver (if word_of_nat MAX_SIZE < n then throwU SizeTooLarge else retU n) [] n"
    using max by (simp add: decodes_ret)
  consider "n < 253" | "253 \<le> n" "n \<le> 0xFFFF" | "0xFFFF < n" "n \<le> 0xFFFFFFFF"
  proof -
    have "n \<le> 0xFFFFFFFF" using assms by (simp add: MAX_SIZE_def word_le_nat_alt)
    then show ?thesis using that by (cases "n < 253"; cases "n \<le> 0xFFFF") (simp_all add: not_le not_less)
  qed
  then show ?thesis
  proof cases
    case 1
    then have small: "unat n < 253" by (simp add: word_less_nat_alt)
    then have "ucast n < (253 :: u8)" "ucast (ucast n :: u8) = n"
      by (simp_all add: word_less_nat_alt unat_ucast_small ucast_ucast_small)
    moreover have "WriteCompactSize n = [ucast n] @ []" using 1 by (simp add: WriteCompactSize_def)
    ultimately show ?thesis
      unfolding ReadCompactSize_def
      by (simp only:) (rule decodes_bind [OF decodes_readdata8], simp, rule decodes_bind_last [OF decodes_ret], use rec in simp)
  next
    case 2
    then have small: "unat n < 2 ^ 16" "253 \<le> unat n" by (simp_all add: word_le_nat_alt)
    then have "ucast (ucast n :: u16) = n" by (simp add: ucast_ucast_small)
    moreover have "\<not> n < 253" using small by (simp add: word_less_nat_alt)
    moreover from this have "WriteCompactSize n = [253] @ WriteLE16 (ucast n)" using 2 by (simp add: WriteCompactSize_def)
    ultimately show ?thesis
      unfolding ReadCompactSize_def
      by (simp only:) (rule decodes_bind [OF decodes_readdata8], simp,
        rule decodes_bind_last, rule decodes_bind_last [OF decodes_readdata16], simp, rule decodes_ret, use rec in simp)
  next
    case 3
    then have small: "unat n < 2 ^ 32" "2 ^ 16 \<le> unat n" by (simp_all add: word_le_nat_alt word_less_nat_alt)
    then have "ucast (ucast n :: u32) = n" by (simp add: ucast_ucast_small)
    moreover have "\<not> n < 0x10000" using small by (simp add: word_less_nat_alt)
    moreover have "\<not> n \<le> 0xFFFF" "\<not> n < 253" using small by (simp_all add: word_less_nat_alt word_le_nat_alt)
    then have "WriteCompactSize n = [254] @ WriteLE32 (ucast n)" using 3 by (simp add: WriteCompactSize_def)
    ultimately show ?thesis
      unfolding ReadCompactSize_def
      by (simp only:) (rule decodes_bind [OF decodes_readdata8], simp,
        rule decodes_bind_last, rule decodes_bind_last [OF decodes_readdata32], simp, rule decodes_ret, use rec in simp)
  qed
qed

text \<open>Conversely, whatever is accepted is the encoding that would have been written.\<close>

lemma ser_readdata_Inr:
  "ser_readdata n conv s = Inr (x, s') \<longleftrightarrow>
     n \<le> length (remaining s) \<and> x = conv (take n (remaining s)) \<and> s' = skip n s"
  by (cases "n \<le> length (remaining s)") (auto simp: ser_readdata_def read_enough read_short)

lemma bindU_Inr: "bindU m f s = Inr (y, s'') \<longleftrightarrow> (\<exists>x s'. m s = Inr (x, s') \<and> f x s' = Inr (y, s''))"
  by (auto simp: bindU_def split: sum.split)

lemma retU_Inr [simp]: "retU x s = Inr (y, s') \<longleftrightarrow> y = x \<and> s' = s"
  by (auto simp: retU_def)

lemma throwU_Inr [simp]: "throwU e s \<noteq> Inr p"
  by (simp add: throwU_def)

lemma if_U_Inr: "(if b then m else m') s = Inr p \<longleftrightarrow> (b \<and> m s = Inr p) \<or> (\<not> b \<and> m' s = Inr p)"
  by simp

lemma ser_readdata8_Cons:
  "addressable s \<Longrightarrow> remaining s = b # bs \<Longrightarrow> ser_readdata8 s = Inr (b, skip 1 s)"
  by (simp add: ser_readdata8_def ser_readdata_def read_enough)

lemma ser_readdata8_Nil: "remaining s = [] \<Longrightarrow> ser_readdata8 s = Inl Indeterminate"
  by (simp add: ser_readdata8_def ser_readdata_def read_short)

lemma byte_size_cases:
  fixes b :: u8
  obtains "b < 253" | "b = 253" | "b = 254" | "b = 255"
proof -
  have "unat b < 256" using unsigned_less [of b, where 'a = nat] by simp
  then have "unat b < 253 \<or> unat b = 253 \<or> unat b = 254 \<or> unat b = 255" by linarith
  then have "b < 253 \<or> b = 253 \<or> b = 254 \<or> b = 255"
    by (auto simp: word_less_nat_alt word_unat_eq_iff)
  then show ?thesis using that by blast
qed

lemma readdata_checked_Inr:
  "bindU (ser_readdata k conv) (\<lambda>n. if P n then throwU e else retU (g n)) s = Inr (x, s') \<longleftrightarrow>
     k \<le> length (remaining s) \<and> \<not> P (conv (take k (remaining s))) \<and> x = g (conv (take k (remaining s))) \<and> s' = skip k s"
  by (auto simp: bindU_Inr ser_readdata_Inr)

lemmas readdata_checked =
  readdata_checked_Inr [where k = 2 and conv = ReadLE16, folded ser_readdata16_def]
  readdata_checked_Inr [where k = 4 and conv = ReadLE32, folded ser_readdata32_def]
  readdata_checked_Inr [where k = 8 and conv = ReadLE64, folded ser_readdata64_def]

lemma ReadCompactSize_sound:
  assumes s: "addressable s" and r: "ReadCompactSize s = Inr (n, s')"
  shows "n \<le> word_of_nat MAX_SIZE \<and> remaining s = WriteCompactSize n @ remaining s'
    \<and> s' = skip (length (WriteCompactSize n)) s"
proof -
  obtain b rest where bs: "remaining s = b # rest"
    using r by (cases "remaining s") (simp_all add: ReadCompactSize_def bindU_Inr ser_readdata8_Nil)
  have rest: "remaining (skip 1 s) = rest" using s bs by simp
  from r have "bindU (if b < 253 then retU (ucast b)
      else if b = 253 then
        bindU ser_readdata16 (\<lambda>n. if (ucast n :: u64) < 253 then throwU NonCanonicalSize else retU (ucast n))
      else if b = 254 then
        bindU ser_readdata32 (\<lambda>n. if (ucast n :: u64) < 0x10000 then throwU NonCanonicalSize else retU (ucast n))
      else
        bindU ser_readdata64 (\<lambda>n. if n < 0x100000000 then throwU NonCanonicalSize else retU n))
    (\<lambda>nSizeRet. if word_of_nat MAX_SIZE < nSizeRet then throwU SizeTooLarge else retU nSizeRet) (skip 1 s) = Inr (n, s')"
    (is "bindU ?body _ _ = _")
    unfolding ReadCompactSize_def bindU_def [of ser_readdata8] ser_readdata8_Cons [OF s bs] by (simp only: sum.case prod.case)
  then obtain x s1 where body: "?body (skip 1 s) = Inr (x, s1)"
    and "(if word_of_nat MAX_SIZE < x then throwU SizeTooLarge else retU x) s1 = Inr (n, s')"
    unfolding bindU_Inr by blast
  then have max: "n \<le> word_of_nat MAX_SIZE" and x: "x = n" "s1 = s'"
    by (simp_all add: not_less split: if_splits)
  have "remaining s = WriteCompactSize n @ remaining s' \<and> s' = skip (length (WriteCompactSize n)) s"
  proof (cases b rule: byte_size_cases)
    case 1
    then have "unat b < 253" by (simp add: word_less_nat_alt)
    then have "(ucast b :: u64) < 253" "ucast (ucast b :: u64) = b"
      by (simp_all add: word_less_nat_alt unat_ucast_small ucast_ucast_small)
    moreover from 1 body x have "n = ucast b" "s' = skip 1 s" by simp_all
    ultimately show ?thesis using bs rest by (simp add: WriteCompactSize_def)
  next
    case 2
    then have "bindU ser_readdata16 (\<lambda>n. if (ucast n :: u64) < 253 then throwU NonCanonicalSize else retU (ucast n))
        (skip 1 s) = Inr (n, s')" using body x by simp
    then have len: "2 \<le> length rest" and n: "n = ucast (ReadLE16 (take 2 rest))" "\<not> n < 253"
      and s': "s' = skip 2 (skip 1 s)"
      unfolding readdata_checked rest by simp_all
    have "unat n < 2 ^ 16"
      using unsigned_less [of "ReadLE16 (take 2 rest)", where 'a = nat] by (simp add: n(1) unat_ucast_small)
    then have "n \<le> 0xFFFF" "ucast n = ReadLE16 (take 2 rest)"
      by (simp_all add: word_le_nat_alt n(1) ucast_ucast_wider)
    then have w: "WriteCompactSize n = 253 # take 2 rest"
      using n(2) len by (simp add: WriteCompactSize_def WriteLE16_ReadLE16)
    have "remaining s' = drop 2 rest" using s rest len by (simp add: s' del: skip_simps(4))
    then show ?thesis using 2 s' bs len by (simp add: w numeral_3_eq_3)
  next
    case 3
    then have "bindU ser_readdata32 (\<lambda>n. if (ucast n :: u64) < 0x10000 then throwU NonCanonicalSize else retU (ucast n))
        (skip 1 s) = Inr (n, s')" using body x by simp
    then have len: "4 \<le> length rest" and n: "n = ucast (ReadLE32 (take 4 rest))" "\<not> n < 0x10000"
      and s': "s' = skip 4 (skip 1 s)"
      unfolding readdata_checked rest by simp_all
    have "unat n < 2 ^ 32"
      using unsigned_less [of "ReadLE32 (take 4 rest)", where 'a = nat] by (simp add: n(1) unat_ucast_small)
    then have "n \<le> 0xFFFFFFFF" "ucast n = ReadLE32 (take 4 rest)"
      by (simp_all add: word_le_nat_alt n(1) ucast_ucast_wider)
    moreover have "\<not> n \<le> 0xFFFF" "\<not> n < 253" using n(2) by (simp_all add: word_le_nat_alt word_less_nat_alt)
    ultimately have w: "WriteCompactSize n = 254 # take 4 rest"
      using len by (simp add: WriteCompactSize_def WriteLE32_ReadLE32)
    have "remaining s' = drop 4 rest" using s rest len by (simp add: s' del: skip_simps(4))
    then show ?thesis using 3 s' bs len by (simp add: w)
  next
    case 4
    then have "bindU ser_readdata64 (\<lambda>n. if n < 0x100000000 then throwU NonCanonicalSize else retU n)
        (skip 1 s) = Inr (n, s')" using body x by simp
    then have "\<not> n < 0x100000000" unfolding readdata_checked by simp
    with max show ?thesis by (simp add: MAX_SIZE_def word_less_nat_alt word_le_nat_alt)
  qed
  with max show ?thesis by simp
qed

subsection \<open>Vectors\<close>

lemma unat_size_word:
  assumes "k \<le> MAX_SIZE"
  shows "(word_of_nat k :: u64) \<le> word_of_nat MAX_SIZE" "unat (ucast (word_of_nat k :: u64) :: u32) = k"
proof -
  have "unat (word_of_nat k :: u64) = k" using assms by (simp add: unat_of_nat MAX_SIZE_def)
  with assms show "(word_of_nat k :: u64) \<le> word_of_nat MAX_SIZE" "unat (ucast (word_of_nat k :: u64) :: u32) = k"
    by (simp_all add: word_le_nat_alt unat_ucast_small MAX_SIZE_def)
qed

lemma decodes_byte_vector_loop:
  "length bs = nSize - i \<Longrightarrow> decodes ver (Unserialize_byte_vector_loop nSize i v) bs (v @ bs)"
proof (induction nSize i v arbitrary: bs rule: Unserialize_byte_vector_loop.induct)
  case (1 nSize i v)
  show ?case
  proof (cases "i < nSize")
    case True
    define blk where "blk = min (nSize - i) (1 + 4999999)"
    have len: "length (take blk bs) = blk" using 1(2) by (simp add: blk_def)
    have "decodes ver (Unserialize_byte_vector_loop nSize (i + blk) (v @ take blk bs)) (drop blk bs)
        ((v @ take blk bs) @ drop blk bs)"
      using 1(1) [OF True blk_def, of "drop blk bs" "take blk bs"] 1(2) len by simp
    then have "decodes ver (bindU (Unserialize_array (replicate blk 0))
        (\<lambda>bs. Unserialize_byte_vector_loop nSize (i + blk) (v @ bs))) (take blk bs @ drop blk bs) (v @ bs)"
      using len by (intro decodes_bind [OF decodes_array]) simp_all
    then show ?thesis
      using True by (simp add: Unserialize_byte_vector_loop.simps [of nSize i v] Let_def blk_def)
  next
    case False
    then show ?thesis using 1(2) by (simp add: Unserialize_byte_vector_loop.simps [of nSize i v] decodes_ret)
  qed
qed

lemma ser_bytes_byte_vector: "ser_bytes (Serialize_byte_vector v) = WriteCompactSize (word_of_nat (length v)) @ v"
  by (simp add: Serialize_byte_vector_def)

lemma decodes_byte_vector [decoding]:
  assumes "length v \<le> MAX_SIZE"
  shows "decodes ver Unserialize_byte_vector (ser_bytes (Serialize_byte_vector v)) v"
proof -
  have "decodes ver (Unserialize_byte_vector_loop (length v) 0 []) v ([] @ v)"
    by (rule decodes_byte_vector_loop) simp
  then show ?thesis
    unfolding Unserialize_byte_vector_def ser_bytes_byte_vector
    by (intro decodes_bind [OF decodes_CompactSize]) (simp_all add: unat_size_word assms)
qed

lemma decodes_prevector [decoding]:
  "length v \<le> MAX_SIZE \<Longrightarrow> decodes ver Unserialize_prevector (ser_bytes (Serialize_prevector v)) v"
  using decodes_byte_vector [of v ver]
  by (simp add: Unserialize_prevector_def Unserialize_byte_vector_def Serialize_prevector_def Serialize_byte_vector_def)

lemma ser_bytes_string: "ser_bytes (Serialize_string v) = WriteCompactSize (word_of_nat (length v)) @ v"
  by (simp add: Serialize_string_def)

lemma length_resize [simp]: "length (resize d n xs) = n"
  by (simp add: resize_def)

lemma decodes_string [decoding]:
  assumes "length v \<le> MAX_SIZE"
  shows "decodes ver (Unserialize_string old) (ser_bytes (Serialize_string v)) v"
  unfolding Unserialize_string_def ser_bytes_string
  by (rule decodes_bind [OF decodes_CompactSize])
    (auto simp: unat_size_word assms decodes_array decodes_ret resize_def Let_def)

lemma decodes_LimitedString [decoding]:
  assumes "length v \<le> MAX_SIZE" "length v \<le> Limit"
  shows "decodes ver (LimitedString_Unserialize Limit old) (ser_bytes (LimitedString_Serialize v)) v"
proof -
  have "unat (word_of_nat (length v) :: u64) = length v"
    using assms by (simp add: unat_of_nat MAX_SIZE_def)
  then show ?thesis
    unfolding LimitedString_Unserialize_def LimitedString_Serialize_def Serialize_string_def [symmetric] ser_bytes_string
    by (intro decodes_bind [OF decodes_CompactSize])
      (use assms in \<open>auto simp: unat_size_word decodes_array decodes_ret resize_def Let_def\<close>)
qed

text \<open>
  The contract of a serialisable class: reading what was written for \<open>x\<close> into an object \<open>old\<close> gives
  \<open>merge old x\<close>, that is \<open>x\<close> with the fields that are not serialised taken from \<open>old\<close>.
  The contract of vectors, pairs and maps of such objects follows.
\<close>

locale codec =
  fixes ver :: u32
    and ser :: "'a \<Rightarrow> ser_op list"
    and un :: "'a \<Rightarrow> 'a unser"
    and merge :: "'a \<Rightarrow> 'a \<Rightarrow> 'a"
    and valid :: "'a \<Rightarrow> bool"
    and shape :: "'a \<Rightarrow> bool"
  assumes decodes_un: "shape old \<Longrightarrow> valid x \<Longrightarrow> decodes ver (un old) (ser_bytes (ser x)) (merge old x)"
begin

lemma decodes_elems:
  "shape dflt \<Longrightarrow> list_all valid xs \<Longrightarrow>
     decodes ver (Unserialize_elems un (replicate (length xs) dflt)) (ser_bytes (concat (map ser xs))) (map (merge dflt) xs)"
proof (induction xs)
  case Nil
  then show ?case by (simp add: decodes_ret)
next
  case (Cons x xs)
  then have "decodes ver (un dflt) (ser_bytes (ser x)) (merge dflt x)" by (simp add: decodes_un)
  from decodes_bind [OF this decodes_bind_last [OF Cons.IH decodes_ret]] Cons.prems show ?case by simp
qed

lemma decodes_vector_loop:
  "0 < step \<Longrightarrow> shape dflt \<Longrightarrow> list_all valid xs \<Longrightarrow> nMid \<le> nSize \<Longrightarrow> length xs = nSize - nMid \<Longrightarrow>
     decodes ver (Unserialize_vector_loop step dflt un nSize nMid v) (ser_bytes (concat (map ser xs))) (v @ map (merge dflt) xs)"
proof (induction "nSize - nMid" arbitrary: nMid v xs rule: less_induct)
  case less
  show ?case
  proof (cases "nMid < nSize")
    case True
    define nMid' where "nMid' = (if nSize < nMid + step then nSize else nMid + step)"
    define k where "k = nMid' - nMid"
    have k: "k \<le> length xs" "nMid' \<le> nSize" "nSize - nMid' < nSize - nMid" "length (drop k xs) = nSize - nMid'"
      using less.prems True by (auto simp: k_def nMid'_def)
    have valid: "list_all valid (take k xs)" "list_all valid (drop k xs)"
      using less.prems(3) by (auto simp: list_all_iff dest: in_set_takeD in_set_dropD)
    have "decodes ver (bindU (Unserialize_elems un (replicate k dflt))
        (\<lambda>ys. Unserialize_vector_loop step dflt un nSize nMid' (v @ ys)))
        (ser_bytes (concat (map ser (take k xs))) @ ser_bytes (concat (map ser (drop k xs))))
        ((v @ map (merge dflt) (take k xs)) @ map (merge dflt) (drop k xs))"
    proof (rule decodes_bind)
      show "decodes ver (Unserialize_elems un (replicate k dflt)) (ser_bytes (concat (map ser (take k xs))))
          (map (merge dflt) (take k xs))"
        using decodes_elems [OF less.prems(2) valid(1)] k(1) by simp
    qed (rule less.hyps; use k less.prems valid in simp)
    moreover have "ser_bytes (concat (map ser (take k xs))) @ ser_bytes (concat (map ser (drop k xs))) =
        ser_bytes (concat (map ser xs))"
      by (metis append_take_drop_id concat_append map_append ser_bytes_simps(3))
    moreover have "(v @ map (merge dflt) (take k xs)) @ map (merge dflt) (drop k xs) = v @ map (merge dflt) xs"
      by (simp flip: map_append)
    ultimately show ?thesis
      using True less.prems(1)
      by (simp add: Unserialize_vector_loop.simps [of step dflt un nSize nMid v] Let_def k_def nMid'_def)
  next
    case False
    then show ?thesis
      using less.prems by (simp add: Unserialize_vector_loop.simps [of step dflt un nSize nSize v] decodes_ret)
  qed
qed

lemma decodes_vector:
  assumes "0 < sizeofT" "sizeofT \<le> 5000000" "shape dflt" "list_all valid xs" "length xs \<le> MAX_SIZE"
  shows "decodes ver (Unserialize_vector sizeofT dflt un) (ser_bytes (Serialize_vector ser xs)) (map (merge dflt) xs)"
proof -
  have "0 < 5000000 div sizeofT" using assms(1,2) by (simp add: div_greater_zero_iff)
  from decodes_vector_loop [OF this assms(3,4), of 0 "length xs" "[]"]
  have "decodes ver (Unserialize_vector_loop (5000000 div sizeofT) dflt un (length xs) 0 [])
      (ser_bytes (concat (map ser xs))) (map (merge dflt) xs)" by simp
  then show ?thesis
    unfolding Unserialize_vector_def Serialize_vector_def ser_bytes_simps ser_op_bytes_simps
    by (intro decodes_bind [OF decodes_CompactSize]) (simp_all add: unat_size_word assms)
qed

end

locale codec_vector = codec ver ser un merge valid shape
  for ver :: u32 and ser :: "'a \<Rightarrow> ser_op list" and un merge valid shape +
  fixes sizeofT :: nat and dflt :: 'a
  assumes sizeofT: "0 < sizeofT" "sizeofT \<le> 5000000" and shape_dflt: "shape dflt"

sublocale codec_vector \<subseteq> vec: codec ver "Serialize_vector ser" "\<lambda>old. Unserialize_vector sizeofT dflt un"
    "\<lambda>old xs. map (merge dflt) xs" "\<lambda>xs. list_all valid xs \<and> length xs \<le> MAX_SIZE" "\<lambda>old. True"
  by unfold_locales (use decodes_vector [OF sizeofT shape_dflt] in blast)

locale codec_pair = fst: codec ver ser1 un1 merge1 valid1 shape1 + snd: codec ver ser2 un2 merge2 valid2 shape2
  for ver :: u32 and ser1 :: "'a \<Rightarrow> ser_op list" and un1 merge1 valid1 shape1
    and ser2 :: "'b \<Rightarrow> ser_op list" and un2 merge2 valid2 shape2

sublocale codec_pair \<subseteq> pair: codec ver "Serialize_pair ser1 ser2" "Unserialize_pair un1 un2"
    "\<lambda>old x. (merge1 (fst old) (fst x), merge2 (snd old) (snd x))"
    "\<lambda>x. valid1 (fst x) \<and> valid2 (snd x)" "\<lambda>old. shape1 (fst old) \<and> shape2 (snd old)"
proof unfold_locales
  fix old x
  assume "shape1 (fst old) \<and> shape2 (snd old)" "valid1 (fst x) \<and> valid2 (snd x)"
  then show "decodes ver (Unserialize_pair un1 un2 old) (ser_bytes (Serialize_pair ser1 ser2 x))
      (merge1 (fst old) (fst x), merge2 (snd old) (snd x))"
    by (auto simp: Unserialize_pair_def Serialize_pair_def
        intro!: decodes_bind [OF fst.decodes_un] decodes_bind_last [OF snd.decodes_un] decodes_ret)
qed

text \<open>Maps: the entries are written in key order, so each insertion appends.\<close>

definition map_sorted :: "('k::linorder \<times> 'v) list \<Rightarrow> bool" where
  "map_sorted m \<longleftrightarrow> sorted_wrt (<) (map fst m)"

lemma map_insert_last: "\<forall>e \<in> set m. fst e < fst item \<Longrightarrow> map_insert item m = m @ [item]"
  by (induction m) (auto dest: less_not_sym)

locale codec_map = codec ver ser un merge valid shape
  for ver :: u32 and ser :: "'k::linorder \<times> 'v \<Rightarrow> ser_op list" and un merge valid shape +
  fixes dflt :: "'k \<times> 'v"
  assumes shape_dflt: "shape dflt" and merge_key: "valid x \<Longrightarrow> fst (merge dflt x) = fst x"
begin

lemma decodes_map_loop:
  "list_all valid xs \<Longrightarrow> map_sorted (m @ xs) \<Longrightarrow>
     decodes ver (Unserialize_map_loop (length xs) dflt un m) (ser_bytes (concat (map ser xs))) (m @ map (merge dflt) xs)"
proof (induction xs arbitrary: m)
  case Nil
  then show ?case by (simp add: decodes_ret)
next
  case (Cons x xs)
  then have x: "valid x" "fst (merge dflt x) = fst x" by (simp_all add: merge_key)
  with Cons.prems(2) have "map_insert (merge dflt x) m = m @ [merge dflt x]"
    by (intro map_insert_last) (simp add: map_sorted_def sorted_wrt_append)
  moreover have "map_sorted ((m @ [merge dflt x]) @ xs)"
    using Cons.prems(2) x by (simp add: map_sorted_def)
  ultimately show ?case
    using Cons.IH [of "m @ [merge dflt x]"] Cons.prems(1) x
    by (auto intro!: decodes_bind [OF decodes_un] simp: shape_dflt)
qed

lemma decodes_map:
  assumes "list_all valid m" "map_sorted m" "length m \<le> MAX_SIZE"
  shows "decodes ver (Unserialize_map dflt un) (ser_bytes (Serialize_map ser m)) (map (merge dflt) m)"
proof -
  have "decodes ver (Unserialize_map_loop (length m) dflt un []) (ser_bytes (concat (map ser m))) (map (merge dflt) m)"
    using decodes_map_loop [of m "[]"] assms by simp
  then show ?thesis
    unfolding Unserialize_map_def Serialize_map_def ser_bytes_simps ser_op_bytes_simps
    by (intro decodes_bind [OF decodes_CompactSize]) (simp_all add: unat_size_word assms)
qed

end

subsection \<open>Variable-length integers\<close>

lemma mask7_word: "0x7F = (mask 7 :: 'a::len word)"
  by (simp add: mask_eq_exp_minus_1)

lemma bit_mask7 [simp]: "bit (0x7F :: int) k \<longleftrightarrow> k < 7"
proof -
  have "0x7F = (mask 7 :: int)" by (simp add: mask_eq_exp_minus_1)
  then show ?thesis by (simp only: bit_mask_iff) simp
qed

lemma bit_flag7 [simp]: "bit (0x80 :: int) k \<longleftrightarrow> k = 7"
proof -
  have "0x80 = (2 ^ 7 :: int)" by simp
  then show ?thesis by (simp only: bit_exp_iff) auto
qed

lemma varint_small: "n AND 0x7F = n" if "n \<le> 0x7F" for n :: "'a::len word"
proof -
  have "unat n \<le> 127 mod 2 ^ LENGTH('a)" using that by (simp add: word_le_nat_alt unat_varint_mask take_bit_eq_mod)
  also have "\<dots> \<le> 127" by simp
  finally have "take_bit 7 (unat n) = unat n" by (simp add: take_bit_nat_eq_self)
  then show ?thesis
    unfolding mask7_word by (simp add: word_unat_eq_iff unsigned_take_bit_eq flip: take_bit_eq_mask)
qed

lemma varint_digit:
  "ucast ((ucast (n AND 0x7F) OR c) AND (0x7F :: u8)) = n AND 0x7F" if "c = 0 \<or> c = 0x80" for n :: "'a::len word"
  by (rule bit_word_eqI) (use that in \<open>auto simp: bit_simps\<close>)

lemma varint_flag: "(ucast (n AND 0x7F) OR 0x80) AND (0x80 :: u8) \<noteq> 0" for n :: "'a::len word"
proof -
  have "bit ((ucast (n AND 0x7F) OR 0x80) AND (0x80 :: u8)) 7" by (simp add: bit_simps)
  then show ?thesis by (metis bit_0_eq bot_apply bot_bool_def)
qed

lemma varint_no_flag: "ucast (n AND 0x7F) AND (0x80 :: u8) = 0" for n :: "'a::len word"
  by (rule bit_word_eqI) (auto simp: bit_simps)

lemma varint_join: "push_bit 7 (drop_bit 7 n) OR (n AND 0x7F) = n" for n :: "'a::len word"
  by (rule bit_word_eqI) (auto simp: bit_simps)

lemma varint_fits: "\<not> drop_bit 7 (- 1) < drop_bit 7 n" for n :: "'a::len word"
proof -
  have "unat n \<le> unat (- 1 :: 'a word)" by (simp flip: word_le_nat_alt)
  then show ?thesis unfolding not_less word_le_nat_alt unat_drop_bit_7 by (rule div_le_mono)
qed

lemma ReadVarInt_continues:
  assumes "addressable s" "remaining s = rev (WriteVarInt_loop n False) @ rest" "n \<noteq> - 1"
  shows "ReadVarInt_loop 0 s = ReadVarInt_loop (n + 1) (skip (length (WriteVarInt_loop n False)) s)"
  using assms
proof (induction n False arbitrary: s rest rule: WriteVarInt_loop.induct)
  case (1 n)
  show ?case
  proof (cases "n \<le> 0x7F")
    case True
    then have "n AND 0x7F = n" by (rule varint_small)
    moreover have "WriteVarInt_loop n False = [ucast (n AND 0x7F) OR 0x80]"
      using True by (simp add: WriteVarInt_loop.simps [of n])
    ultimately show ?thesis
      using 1(2-4) varint_flag [of n] varint_digit [of "0x80" n]
      by (simp add: ReadVarInt_loop.simps [of 0] ser_readdata8_Cons)
  next
    case False
    then have big: "0x7F < n" by simp
    let ?n = "drop_bit 7 n - 1"
    have less: "unat ?n < unat n" by (rule varint_step_less [OF big])
    have "?n \<noteq> - 1"
    proof
      assume "?n = - 1"
      with less show False by (metis less_le_not_le unat_mono word_less_nat_alt word_n1_ge)
    qed
    have w: "rev (WriteVarInt_loop n False) = rev (WriteVarInt_loop ?n False) @ [ucast (n AND 0x7F) OR 0x80]"
      using False by (simp add: WriteVarInt_loop.simps [of n])
    let ?s = "skip (length (WriteVarInt_loop ?n False)) s"
    have s: "addressable ?s" "remaining ?s = (ucast (n AND 0x7F) OR 0x80) # rest"
      using 1(2,3) by (simp_all add: w)
    have "ReadVarInt_loop 0 s = ReadVarInt_loop (drop_bit 7 n) ?s"
      using 1(1) [OF False 1(2), of "[ucast (n AND 0x7F) OR 0x80] @ rest"] 1(3) \<open>?n \<noteq> - 1\<close> by (simp add: w)
    also have "\<dots> = ReadVarInt_loop (n + 1) (skip 1 ?s)"
      using varint_fits [of n] varint_flag [of n] varint_digit [of "0x80" n] varint_join [of n] 1(4)
      by (simp add: ReadVarInt_loop.simps [of "drop_bit 7 n"] ser_readdata8_Cons [OF s])
    also have "skip 1 ?s = skip (length (WriteVarInt_loop n False)) s"
      using False by (simp add: WriteVarInt_loop.simps [of n])
    finally show ?thesis .
  qed
qed

lemma decodes_VarInt [decoding]: "decodes ver ReadVarInt (WriteVarInt n) n"
  unfolding decodes_def
proof (intro allI impI)
  fix s rest
  assume s: "addressable s" "nd_version s = ver" "remaining s = WriteVarInt n @ rest"
  show "ReadVarInt s = Inr (n, skip (length (WriteVarInt n)) s)"
  proof (cases "n \<le> 0x7F")
    case True
    then have "n AND 0x7F = n" by (rule varint_small)
    moreover have "WriteVarInt n = [ucast (n AND 0x7F)]"
      using True by (simp add: WriteVarInt_def WriteVarInt_loop.simps [of n])
    ultimately show ?thesis
      using s varint_no_flag [of n] varint_digit [of 0 n]
      by (simp add: ReadVarInt_def ReadVarInt_loop.simps [of 0] ser_readdata8_Cons)
  next
    case False
    then have big: "0x7F < n" by simp
    let ?n = "drop_bit 7 n - 1"
    have less: "unat ?n < unat n" by (rule varint_step_less [OF big])
    then have "?n \<noteq> - 1" by (metis less_le_not_le unat_mono word_less_nat_alt word_n1_ge)
    have w: "WriteVarInt n = rev (WriteVarInt_loop ?n False) @ [ucast (n AND 0x7F)]"
      using False by (simp add: WriteVarInt_def WriteVarInt_loop.simps [of n])
    let ?s = "skip (length (WriteVarInt_loop ?n False)) s"
    have s': "addressable ?s" "remaining ?s = ucast (n AND 0x7F) # rest"
      using s by (simp_all add: w)
    have "ReadVarInt s = ReadVarInt_loop (drop_bit 7 n) ?s"
      using ReadVarInt_continues [of s ?n "[ucast (n AND 0x7F)] @ rest"] s \<open>?n \<noteq> - 1\<close>
      by (simp add: w ReadVarInt_def)
    then show ?thesis
      using varint_fits [of n] varint_no_flag [of n] varint_digit [of 0 n] varint_join [of n]
      by (simp add: ReadVarInt_loop.simps [of "drop_bit 7 n"] ser_readdata8_Cons [OF s'] w)
  qed
qed

lemma varint_split:
  fixes a :: "'a::len word" and b :: u8
  assumes "\<not> drop_bit 7 (- 1) < a"
  shows "drop_bit 7 (push_bit 7 a OR ucast (b AND 0x7F)) = a"
    "(push_bit 7 a OR ucast (b AND 0x7F)) AND 0x7F = ucast (b AND 0x7F)"
proof -
  have high: "\<not> bit a k" if "LENGTH('a) \<le> k + 7" for k
  proof
    assume "bit a k"
    then have odd: "odd (unat a div 2 ^ k)" by (simp add: bit_unsigned_iff flip: bit_iff_odd)
    have "2 ^ k \<le> unat a"
    proof (rule ccontr)
      assume "\<not> 2 ^ k \<le> unat a"
      then have "unat a div 2 ^ k = 0" by simp
      with odd show False by simp
    qed
    moreover have "unat a \<le> (2 ^ LENGTH('a) - 1) div 128"
      using assms unfolding not_less word_le_nat_alt unat_drop_bit_7
      by (simp add: unsigned_minus_1_eq_mask mask_eq_exp_minus_1)
    then have "unat a * 128 \<le> 2 ^ LENGTH('a) - 1" by (simp add: less_eq_div_iff_mult_less_eq)
    ultimately have "2 ^ k * 128 \<le> (2 :: nat) ^ LENGTH('a) - 1" by linarith
    moreover have "(2 :: nat) ^ LENGTH('a) \<le> 2 ^ (k + 7)" using that by (intro power_increasing) simp_all
    moreover have "(2 :: nat) ^ (k + 7) = 2 ^ k * 128" by (simp add: power_add)
    moreover have "(0 :: nat) < 2 ^ LENGTH('a)" by simp
    ultimately show False by linarith
  qed
  show "drop_bit 7 (push_bit 7 a OR ucast (b AND 0x7F)) = a"
  proof (rule bit_word_eqI)
    fix k assume "k < LENGTH('a)"
    show "bit (drop_bit 7 (push_bit 7 a OR ucast (b AND 0x7F))) k = bit a k"
      using high [of k] by (cases "LENGTH('a) \<le> k + 7") (auto simp: bit_simps)
  qed
  show "(push_bit 7 a OR ucast (b AND 0x7F)) AND 0x7F = ucast (b AND 0x7F)"
    by (rule bit_word_eqI) (auto simp: bit_simps)
qed

lemma varint_zero_iff: "drop_bit 7 n = 0 \<longleftrightarrow> n \<le> 0x7F" for n :: "'a::len word"
proof
  assume "n \<le> 0x7F"
  then have "drop_bit 7 n = drop_bit 7 (n AND 0x7F)" by (simp add: varint_small)
  also have "\<dots> = 0" by (rule bit_word_eqI) (auto simp: bit_simps)
  finally show "drop_bit 7 n = 0" .
next
  assume z: "drop_bit 7 n = 0"
  show "n \<le> 0x7F"
  proof (rule ccontr)
    assume "\<not> n \<le> 0x7F"
    then have "128 \<le> unat n" using varint_big [of n] by simp
    then have "0 < unat n div 128" by (simp add: div_greater_zero_iff)
    with z show False by (simp flip: unat_drop_bit_7)
  qed
qed

text \<open>The bytes that lead the reader to an accumulator \<open>a\<close>.\<close>

definition varint_prefix :: "'a::len word \<Rightarrow> bytes" where
  "varint_prefix a = (if a = 0 then [] else rev (WriteVarInt_loop (a - 1) False))"

lemma varint_prefix_snoc:
  "rev (WriteVarInt_loop m first) = varint_prefix (drop_bit 7 m) @ [ucast (m AND 0x7F) OR (if first then 0 else 0x80)]"
  by (simp add: WriteVarInt_loop.simps [of m first] varint_prefix_def varint_zero_iff)

lemma ucast_mask7: "ucast (ucast (b AND 0x7F) :: 'a::len word) = b AND 0x7F" if "7 \<le> LENGTH('a)" for b :: u8
  by (rule bit_word_eqI) (use that in \<open>auto simp: bit_simps\<close>)

lemma byte_bits: "b = (b AND 0x7F) OR (b AND 0x80)" for b :: u8
proof (rule bit_word_eqI)
  fix k assume "k < LENGTH(8)"
  then have "k < 7 \<or> k = 7" by auto
  then show "bit b k = bit ((b AND 0x7F) OR (b AND 0x80)) k" by (auto simp: bit_simps)
qed

lemma flag7_cases: "b AND 0x80 = 0 \<or> b AND 0x80 = 0x80" for b :: u8
proof (cases "bit b 7")
  case True
  then have "b AND 0x80 = 0x80" by (intro bit_word_eqI) (auto simp: bit_simps)
  then show ?thesis ..
next
  case False
  then have "b AND 0x80 = 0" by (intro bit_word_eqI) (auto simp: bit_simps)
  then show ?thesis ..
qed

lemma flag7_clear: "b AND 0x80 = 0 \<Longrightarrow> b AND 0x7F = b" for b :: u8
  using byte_bits [of b] by simp

lemma flag7_set: "b AND 0x80 \<noteq> 0 \<Longrightarrow> (b AND 0x7F) OR 0x80 = b" for b :: u8
  using byte_bits [of b] flag7_cases [of b] by simp

lemma ReadVarInt_loop_sound:
  fixes a :: "'a::len word"
  assumes "7 \<le> LENGTH('a)" "addressable s" "ReadVarInt_loop a s = Inr (n, s')"
  shows "\<exists>bs. remaining s = bs @ remaining s' \<and> s' = skip (length bs) s \<and> WriteVarInt n = varint_prefix a @ bs"
  using assms(2,3)
proof (induction a s rule: ReadVarInt_loop.induct)
  case (1 a s)
  obtain b rest where bs: "remaining s = b # rest"
  proof (cases "remaining s")
    case Nil
    with 1(3) ser_readdata8_Nil [OF Nil] show ?thesis by (simp add: ReadVarInt_loop.simps [of a s])
  qed (rule that)
  note rd = ser_readdata8_Cons [OF 1(2) bs]
  define m where "m = push_bit 7 a OR (ucast (b AND 0x7F) :: 'a word)"
  have fits: "\<not> drop_bit 7 (- 1) < a"
    using 1(3) by (auto simp: ReadVarInt_loop.simps [of a s] rd split: if_splits)
  have split: "drop_bit 7 m = a" "ucast (m AND 0x7F) = b AND 0x7F"
    using varint_split [OF fits, of b] ucast_mask7 [OF assms(1), of b] by (simp_all add: m_def)
  have rest: "remaining (skip 1 s) = rest" using 1(2) bs by simp
  show ?case
  proof (cases "b AND 0x80 = 0")
    case True
    then have "n = m" "s' = skip 1 s"
      using 1(3) fits by (simp_all add: ReadVarInt_loop.simps [of a s] rd m_def)
    moreover have "b AND 0x7F = b" using True by (rule flag7_clear)
    ultimately show ?thesis
      using rest bs split varint_prefix_snoc [of m True] by (intro exI [of _ "[b]"]) (simp add: WriteVarInt_def)
  next
    case False
    then have m: "m \<noteq> - 1" "ReadVarInt_loop (m + 1) (skip 1 s) = Inr (n, s')"
      using 1(3) fits by (auto simp: ReadVarInt_loop.simps [of a s] rd m_def Let_def split: if_splits)
    from 1(1) [OF rd refl fits, unfolded m_def [symmetric], OF refl False m(1) _ m(2)] 1(2)
    obtain cs where cs: "remaining (skip 1 s) = cs @ remaining s'" "s' = skip (length cs) (skip 1 s)"
      "WriteVarInt n = varint_prefix (m + 1) @ cs" by auto
    have "m + 1 \<noteq> 0" using m(1) by (simp add: add_eq_0_iff2)
    then have "varint_prefix (m + 1) = rev (WriteVarInt_loop m False)" by (simp add: varint_prefix_def)
    also have "\<dots> = varint_prefix a @ [b]"
      using varint_prefix_snoc [of m False] split flag7_set [OF False] by simp
    finally show ?thesis
      using cs bs rest by (intro exI [of _ "b # cs"]) simp
  qed
qed

lemma GetSizeOfVarInt_loop_length: "GetSizeOfVarInt_loop n k = k + length (WriteVarInt_loop n first)"
proof (induction n k arbitrary: first rule: GetSizeOfVarInt_loop.induct)
  case (1 n k)
  then show ?case by (simp add: GetSizeOfVarInt_loop.simps [of n] WriteVarInt_loop.simps [of n])
qed

lemma length_WriteVarInt_loop: "unat n < 2 ^ (7 * k) \<Longrightarrow> length (WriteVarInt_loop n first) \<le> max 1 k"
proof (induction k arbitrary: n first)
  case 0
  then have "n = 0" by (simp add: unat_eq_0)
  then show ?case by (simp add: WriteVarInt_loop.simps [of 0])
next
  case (Suc k)
  show ?case
  proof (cases "n \<le> 0x7F")
    case False
    then have big: "0x7F < n" "128 \<le> unat n" using varint_big [of n] by simp_all
    have "unat n div 128 < 2 ^ (7 * k)"
      using Suc.prems by (simp add: div_less_iff_less_mult power_add mult.commute)
    then have less: "unat (drop_bit 7 n - 1) < 2 ^ (7 * k)"
      unfolding unat_varint_step [OF big(1)] by linarith
    have "k \<noteq> 0"
    proof
      assume "k = 0"
      with Suc.prems big(2) show False by simp
    qed
    with Suc.IH [OF less, of False] False show ?thesis by (simp add: WriteVarInt_loop.simps [of n])
  qed (simp add: WriteVarInt_loop.simps [of n])
qed

section \<open>Properties\<close>

text \<open>
  C39. The compact-size reader accepts exactly the canonical encodings: it returns \<open>n\<close> if and only
  if the buffer starts with the bytes \<open>WriteCompactSize\<close> writes for \<open>n\<close> and \<open>n\<close> is at most
  \<open>MAX_SIZE\<close>, and it then consumes \<open>GetSizeOfCompactSize n\<close> bytes.
\<close>

theorem CompactSize_canonical:
  assumes "length (nd_data s) < 2 ^ 32"
  shows "ReadCompactSize s = Inr (n, s') \<longleftrightarrow>
    (\<exists>rest. remaining s = WriteCompactSize n @ rest) \<and> n \<le> word_of_nat MAX_SIZE
      \<and> s' = skip (GetSizeOfCompactSize n) s"
proof -
  have s: "addressable s" using assms by (simp add: addressable_def)
  show ?thesis
  proof
    assume "ReadCompactSize s = Inr (n, s')"
    from ReadCompactSize_sound [OF s this] show "(\<exists>rest. remaining s = WriteCompactSize n @ rest)
        \<and> n \<le> word_of_nat MAX_SIZE \<and> s' = skip (GetSizeOfCompactSize n) s"
      by (auto simp: length_WriteCompactSize)
  next
    assume "(\<exists>rest. remaining s = WriteCompactSize n @ rest)
        \<and> n \<le> word_of_nat MAX_SIZE \<and> s' = skip (GetSizeOfCompactSize n) s"
    then show "ReadCompactSize s = Inr (n, s')"
      using decodesD [OF decodes_CompactSize s] by (auto simp: length_WriteCompactSize)
  qed
qed

theorem CompactSize_canonical_witness:
  "ReadCompactSize (NetMessageData_new [253, 44, 1, 7] 0) = Inr (300, skip 3 (NetMessageData_new [253, 44, 1, 7] 0))"
proof -
  have "remaining (NetMessageData_new [253, 44, 1, 7] 0) = WriteCompactSize 300 @ [7]"
    by (simp add: remaining_def NetMessageData_new_def WriteCompactSize_def WriteLE16_def wdigits_numeral)
  moreover have "(300 :: u64) \<le> word_of_nat MAX_SIZE" "GetSizeOfCompactSize 300 = 3"
    by (simp_all add: MAX_SIZE_def GetSizeOfCompactSize_def)
  moreover have "length (nd_data (NetMessageData_new [253, 44, 1, 7] 0)) < 2 ^ 32"
    by (simp add: NetMessageData_new_def)
  ultimately show ?thesis using CompactSize_canonical by auto
qed

text \<open>
  C40. The variable-length integers of any unsigned width of at least seven bits: the reader accepts
  \<open>n\<close> if and only if the buffer starts with the bytes the writer produces for \<open>n\<close>, so every number
  has exactly one encoding; the computed size is the length written, and it never exceeds the
  temporary array of the writer.
\<close>

theorem VarInt_bijective:
  fixes n :: "'a::len word"
  assumes "7 \<le> LENGTH('a)" "length (nd_data s) < 2 ^ 32"
  shows "(ReadVarInt s = Inr (n, s') \<longleftrightarrow>
      (\<exists>rest. remaining s = WriteVarInt n @ rest) \<and> s' = skip (GetSizeOfVarInt n) s)
    \<and> GetSizeOfVarInt n = length (WriteVarInt n) \<and> length (WriteVarInt n) \<le> (LENGTH('a) + 6) div 7"
proof -
  have s: "addressable s" using assms(2) by (simp add: addressable_def)
  have size: "GetSizeOfVarInt n = length (WriteVarInt n)"
    using GetSizeOfVarInt_loop_length [of n 0 True] by (simp add: GetSizeOfVarInt_def WriteVarInt_def)
  let ?k = "(LENGTH('a) + 6) div 7"
  have "unat n < 2 ^ LENGTH('a)" by (rule unsigned_less)
  also have "\<dots> \<le> 2 ^ (7 * ?k)" by (rule power_increasing) simp_all
  finally have "length (WriteVarInt n) \<le> ?k"
    using length_WriteVarInt_loop [of n ?k True] assms(1) by (simp add: WriteVarInt_def)
  moreover have "ReadVarInt s = Inr (n, s') \<longleftrightarrow>
      (\<exists>rest. remaining s = WriteVarInt n @ rest) \<and> s' = skip (length (WriteVarInt n)) s"
    using ReadVarInt_loop_sound [OF assms(1) s, of 0 n s'] decodesD [OF decodes_VarInt s refl]
    by (auto simp: ReadVarInt_def varint_prefix_def)
  ultimately show ?thesis using size by simp
qed

theorem VarInt_bijective_witness:
  "ReadVarInt (NetMessageData_new [0x82, 0xFE, 0x7F] 0)
     = Inr (65535 :: u64, skip 3 (NetMessageData_new [0x82, 0xFE, 0x7F] 0))"
proof -
  let ?s = "NetMessageData_new [0x82, 0xFE, 0x7F] 0"
  have "WriteVarInt (65535 :: u64) = [0x82, 0xFE, 0x7F]" "GetSizeOfVarInt (65535 :: u64) = 3"
    by (simp_all add: WriteVarInt_def GetSizeOfVarInt_def WriteVarInt_loop.simps GetSizeOfVarInt_loop.simps)
  then have "(\<exists>rest. remaining ?s = WriteVarInt (65535 :: u64) @ rest) \<and> skip 3 ?s = skip (GetSizeOfVarInt (65535 :: u64)) ?s"
    by (simp add: remaining_def NetMessageData_new_def)
  moreover have "length (nd_data ?s) < 2 ^ 32" by (simp add: NetMessageData_new_def)
  moreover have "7 \<le> LENGTH(64)" by simp
  ultimately show ?thesis using VarInt_bijective [of ?s "65535 :: u64" "skip 3 ?s"] by blast
qed

end
