(* ===== verification/Tx.thy ===== *)
theory Tx
  imports Serialize
begin

text \<open>
  Transactions: \<^verbatim>\<open>src/tx.h\<close>, \<^verbatim>\<open>src/amount.h\<close> and the blob class of
  \<^verbatim>\<open>src/uint256.h\<close>. The classes are records with the fields of the source, the in-memory caches of
  the two hashes included; signed integers are words read with \<open>sint\<close>. Serialisers and deserialisers
  are those of \<open>SerializationOp\<close>, which depends on the version flags of the stream.
\<close>

section \<open>Opaque blobs\<close>

text \<open>A \<^verbatim>\<open>uint256\<close> is its 32 bytes; \<open>Compare\<close> is \<open>memcmp\<close>.\<close>

type_synonym uint256 = bytes

definition uint256_new :: uint256 where
  "uint256_new = replicate 32 0"

definition uint256_IsNull :: "uint256 \<Rightarrow> bool" where
  "uint256_IsNull data \<longleftrightarrow> list_all (\<lambda>b. b = 0) data"

fun base_blob_Compare :: "bytes \<Rightarrow> bytes \<Rightarrow> int" where
  "base_blob_Compare (a # as) (b # bs) =
     (if a < b then - 1 else if b < a then 1 else base_blob_Compare as bs)"
| "base_blob_Compare as bs = 0"

definition Serialize_uint256 :: "uint256 \<Rightarrow> ser_op list" where
  "Serialize_uint256 data = [W data]"

definition Unserialize_uint256 :: "uint256 \<Rightarrow> uint256 unser" where
  "Unserialize_uint256 old = Unserialize_array old"

section \<open>Amounts\<close>

type_synonym CAmount = u64

definition COIN :: CAmount where
  "COIN = 100000000"

definition MAX_MONEY :: CAmount where
  "MAX_MONEY = 21000000 * COIN"

definition MoneyRange :: "CAmount \<Rightarrow> bool" where
  "MoneyRange nValue \<longleftrightarrow> 0 \<le>s nValue \<and> nValue \<le>s MAX_MONEY"

section \<open>Outpoints\<close>

definition SERIALIZE_TRANSACTION_NO_WITNESS :: u32 where
  "SERIALIZE_TRANSACTION_NO_WITNESS = 0x40000000"

definition SERIALIZE_BLOCK_HASH :: u32 where
  "SERIALIZE_BLOCK_HASH = 0x20000000"

definition SERIALIZE_TXOUT_ISSPENT :: u32 where
  "SERIALIZE_TXOUT_ISSPENT = 0x10000000"

record OutPoint =
  isUsed :: bool
  op_hashBlock :: uint256
  op_height :: u64
  hashTransaction :: uint256
  outPutIdx :: u32

definition NULL_INDEX :: u32 where
  "NULL_INDEX = - 1"

definition OutPoint_SetNull :: OutPoint where
  "OutPoint_SetNull = \<lparr>isUsed = False, op_hashBlock = uint256_new, op_height = - 1,
     hashTransaction = uint256_new, outPutIdx = NULL_INDEX\<rparr>"

definition OutPoint_IsNull :: "OutPoint \<Rightarrow> bool" where
  "OutPoint_IsNull pt \<longleftrightarrow> uint256_IsNull (hashTransaction pt) \<and> outPutIdx pt = NULL_INDEX"

definition OutPoint_less :: "OutPoint \<Rightarrow> OutPoint \<Rightarrow> bool" where
  "OutPoint_less a b \<longleftrightarrow>
     (let cmp = base_blob_Compare (hashTransaction a) (hashTransaction b)
      in cmp < 0 \<or> (cmp = 0 \<and> outPutIdx a < outPutIdx b))"

definition OutPoint_eq :: "OutPoint \<Rightarrow> OutPoint \<Rightarrow> bool" where
  "OutPoint_eq a b \<longleftrightarrow> hashTransaction a = hashTransaction b \<and> outPutIdx a = outPutIdx b"

definition Serialize_OutPoint :: "u32 \<Rightarrow> OutPoint \<Rightarrow> ser_op list" where
  "Serialize_OutPoint ver pt =
     (if ver AND SERIALIZE_BLOCK_HASH \<noteq> 0
      then Serialize_uint256 (op_hashBlock pt) @ ser_writedata64 (op_height pt) @ Serialize_bool (isUsed pt) else []) @
     Serialize_uint256 (hashTransaction pt) @ ser_writedata32 (outPutIdx pt)"

definition Unserialize_OutPoint :: "OutPoint \<Rightarrow> OutPoint unser" where
  "Unserialize_OutPoint pt = versionU (\<lambda>ver.
     bindU (if ver AND SERIALIZE_BLOCK_HASH \<noteq> 0
            then bindU (Unserialize_uint256 (op_hashBlock pt)) (\<lambda>h.
                 bindU ser_readdata64 (\<lambda>ht.
                 bindU Unserialize_bool (\<lambda>u. retU (pt\<lparr>op_hashBlock := h, op_height := ht, isUsed := u\<rparr>))))
            else retU pt) (\<lambda>pt.
     bindU (Unserialize_uint256 (hashTransaction pt)) (\<lambda>h.
     bindU ser_readdata32 (\<lambda>i. retU (pt\<lparr>hashTransaction := h, outPutIdx := i\<rparr>)))))"

section \<open>Inputs and outputs\<close>

record TxIn =
  previousOutput :: OutPoint
  scriptSig :: bytes
  sequence :: u32
  scriptWitness :: "bytes list"

definition SEQUENCE_FINAL :: u32 where
  "SEQUENCE_FINAL = 0xFFFFFFFF"

definition TxIn_new :: TxIn where
  "TxIn_new = \<lparr>previousOutput = OutPoint_SetNull, scriptSig = [], sequence = SEQUENCE_FINAL, scriptWitness = []\<rparr>"

definition Serialize_TxIn :: "u32 \<Rightarrow> TxIn \<Rightarrow> ser_op list" where
  "Serialize_TxIn ver txin =
     Serialize_OutPoint ver (previousOutput txin) @ Serialize_prevector (scriptSig txin) @ ser_writedata32 (sequence txin)"

definition Unserialize_TxIn :: "TxIn \<Rightarrow> TxIn unser" where
  "Unserialize_TxIn txin =
     bindU (Unserialize_OutPoint (previousOutput txin)) (\<lambda>pt.
     bindU Unserialize_prevector (\<lambda>script.
     bindU ser_readdata32 (\<lambda>seq. retU (txin\<lparr>previousOutput := pt, scriptSig := script, sequence := seq\<rparr>))))"

definition TxIn_eq :: "TxIn \<Rightarrow> TxIn \<Rightarrow> bool" where
  "TxIn_eq a b \<longleftrightarrow> OutPoint_eq (previousOutput a) (previousOutput b) \<and> scriptSig a = scriptSig b \<and> sequence a = sequence b"

record TxOut =
  nValue :: CAmount
  scriptPubKey :: bytes
  isSpent :: bool

definition TxOut_SetNull :: TxOut where
  "TxOut_SetNull = \<lparr>nValue = - 1, scriptPubKey = [], isSpent = False\<rparr>"

definition TxOut_IsNull :: "TxOut \<Rightarrow> bool" where
  "TxOut_IsNull out \<longleftrightarrow> nValue out = - 1"

definition Serialize_TxOut :: "u32 \<Rightarrow> TxOut \<Rightarrow> ser_op list" where
  "Serialize_TxOut ver out =
     ser_writedata64 (nValue out) @ Serialize_prevector (scriptPubKey out) @
     (if ver AND SERIALIZE_TXOUT_ISSPENT \<noteq> 0 then Serialize_bool (isSpent out) else [])"

definition Unserialize_TxOut :: "TxOut \<Rightarrow> TxOut unser" where
  "Unserialize_TxOut out = versionU (\<lambda>ver.
     bindU ser_readdata64 (\<lambda>v.
     bindU Unserialize_prevector (\<lambda>script.
     if ver AND SERIALIZE_TXOUT_ISSPENT \<noteq> 0
     then bindU Unserialize_bool (\<lambda>sp. retU (out\<lparr>nValue := v, scriptPubKey := script, isSpent := sp\<rparr>))
     else retU (out\<lparr>nValue := v, scriptPubKey := script\<rparr>))))"

definition TxOut_eq :: "TxOut \<Rightarrow> TxOut \<Rightarrow> bool" where
  "TxOut_eq a b \<longleftrightarrow> nValue a = nValue b \<and> scriptPubKey a = scriptPubKey b"

section \<open>Transactions\<close>

record NetMessageTransaction =
  tx_hash :: uint256
  tx_witnessHash :: uint256
  vin :: "TxIn list"
  vout :: "TxOut list"
  tx_nVersion :: u32
  nLockTime :: u32

definition CURRENT_VERSION :: u32 where
  "CURRENT_VERSION = 2"

definition NetMessageTransaction_new :: NetMessageTransaction where
  "NetMessageTransaction_new = \<lparr>tx_hash = uint256_new, tx_witnessHash = uint256_new, vin = [], vout = [],
     tx_nVersion = CURRENT_VERSION, nLockTime = 0\<rparr>"

definition NetMessageTransaction_IsNull :: "NetMessageTransaction \<Rightarrow> bool" where
  "NetMessageTransaction_IsNull tx \<longleftrightarrow> vin tx = [] \<and> vout tx = []"

definition HasWitness :: "NetMessageTransaction \<Rightarrow> bool" where
  "HasWitness tx \<longleftrightarrow> list_ex (\<lambda>txin. scriptWitness txin \<noteq> []) (vin tx)"

text \<open>The serialising branch of \<open>SerializationOp\<close>.\<close>

definition Serialize_tx :: "u32 \<Rightarrow> NetMessageTransaction \<Rightarrow> ser_op list" where
  "Serialize_tx ver tx =
     (let bFallowWitness = (ver AND SERIALIZE_TRANSACTION_NO_WITNESS = 0);
          flags = (if HasWitness tx \<and> bFallowWitness then 1 else 0 :: u8)
      in ser_writedata32 (tx_nVersion tx) @
         (if HasWitness tx \<and> bFallowWitness then ser_writedata8 0 @ ser_writedata8 flags else []) @
         Serialize_vector (Serialize_TxIn ver) (vin tx) @
         Serialize_vector (Serialize_TxOut ver) (vout tx) @
         (if flags AND 1 \<noteq> 0
          then concat (map (\<lambda>txin. Serialize_vector Serialize_byte_vector (scriptWitness txin)) (vin tx)) else []) @
         ser_writedata32 (nLockTime tx))"

text \<open>
  Object sizes on the 64-bit targets, which only decide how fast a vector grows while it is read: any
  size between 1 and 5000000 gives the same result.
\<close>

definition sizeof_TxIn :: nat where
  "sizeof_TxIn = 152"

definition sizeof_TxOut :: nat where
  "sizeof_TxOut = 48"

definition sizeof_vector :: nat where
  "sizeof_vector = 24"

primrec Unserialize_witnesses :: "TxIn list \<Rightarrow> TxIn list unser" where
  "Unserialize_witnesses [] = retU []"
| "Unserialize_witnesses (txin # ins) =
     bindU (Unserialize_vector sizeof_vector [] (\<lambda>_. Unserialize_byte_vector)) (\<lambda>stack.
     bindU (Unserialize_witnesses ins) (\<lambda>ins. retU (txin\<lparr>scriptWitness := stack\<rparr> # ins)))"

text \<open>The deserialising branch: an empty input vector announces the extended format.\<close>

definition Unserialize_tx :: "NetMessageTransaction \<Rightarrow> NetMessageTransaction unser" where
  "Unserialize_tx tx = versionU (\<lambda>ver.
     let bFallowWitness = (ver AND SERIALIZE_TRANSACTION_NO_WITNESS = 0);
         read_vin = Unserialize_vector sizeof_TxIn TxIn_new Unserialize_TxIn;
         read_vout = Unserialize_vector sizeof_TxOut TxOut_SetNull Unserialize_TxOut
     in bindU ser_readdata32 (\<lambda>version.
        bindU read_vin (\<lambda>ins.
        bindU (if ins = [] \<and> bFallowWitness then
                 bindU ser_readdata8 (\<lambda>flags.
                   if flags \<noteq> 0 then bindU read_vin (\<lambda>ins. bindU read_vout (\<lambda>outs. retU (flags, ins, outs)))
                   else retU (flags, ins, vout tx))
               else bindU read_vout (\<lambda>outs. retU (0, ins, outs))) (\<lambda>(flags, ins, outs).
        bindU (if flags AND 1 \<noteq> 0 \<and> bFallowWitness
               then bindU (Unserialize_witnesses ins) (\<lambda>ins. retU (flags XOR 1, ins))
               else retU (flags, ins)) (\<lambda>(flags, ins).
        bindU ser_readdata32 (\<lambda>lock.
          retU (tx\<lparr>tx_nVersion := version, nLockTime := lock,
                   vin := (if flags \<noteq> 0 then [] else ins), vout := (if flags \<noteq> 0 then [] else outs)\<rparr>)))))))"

primrec GetValueOut_loop :: "TxOut list \<Rightarrow> CAmount \<Rightarrow> CAmount" where
  "GetValueOut_loop [] nValueOut = nValueOut"
| "GetValueOut_loop (out # outs) nValueOut =
     (let nValueOut = nValueOut + nValue out
      in if \<not> MoneyRange (nValue out) \<or> \<not> MoneyRange nValueOut then - 1 else GetValueOut_loop outs nValueOut)"

definition GetValueOut :: "NetMessageTransaction \<Rightarrow> CAmount" where
  "GetValueOut tx = GetValueOut_loop (vout tx) 0"

text \<open>The hashes are cached in the object, which \<open>GetHash\<close> therefore changes.\<close>

definition GetHash :: "NetMessageTransaction \<Rightarrow> uint256 \<times> NetMessageTransaction" where
  "GetHash tx =
     (if \<not> uint256_IsNull (tx_hash tx) then (tx_hash tx, tx)
      else let tx = tx\<lparr>tx_hash := SerializeHash (Serialize_tx SERIALIZE_TRANSACTION_NO_WITNESS tx)\<rparr>
           in (tx_hash tx, tx))"

definition GetWitnessHash :: "NetMessageTransaction \<Rightarrow> uint256 \<times> NetMessageTransaction" where
  "GetWitnessHash tx =
     (if \<not> uint256_IsNull (tx_witnessHash tx) then (tx_witnessHash tx, tx)
      else if \<not> HasWitness tx then let tx = tx\<lparr>tx_witnessHash := tx_hash tx\<rparr> in (tx_witnessHash tx, tx)
      else let tx = tx\<lparr>tx_witnessHash := SerializeHash (Serialize_tx 0 tx)\<rparr> in (tx_witnessHash tx, tx))"

text \<open>
  The size computer is called with one argument after the object, which is its type; its version is
  the default 0.
\<close>

definition GetTotalSize :: "NetMessageTransaction \<Rightarrow> nat" where
  "GetTotalSize tx = GetSerializeSize (Serialize_tx 0 tx)"

definition WITNESS_SCALE_FACTOR :: nat where
  "WITNESS_SCALE_FACTOR = 4"

definition GetWeight :: "NetMessageTransaction \<Rightarrow> nat" where
  "GetWeight tx = GetSerializeSize (Serialize_tx 0 tx) * (WITNESS_SCALE_FACTOR - 1) + GetSerializeSize (Serialize_tx 0 tx)"

definition TxIn_GetWeight :: "TxIn \<Rightarrow> nat" where
  "TxIn_GetWeight txin =
     GetSerializeSize (Serialize_TxIn 0 txin) * (WITNESS_SCALE_FACTOR - 1) + GetSerializeSize (Serialize_TxIn 0 txin) +
     GetSerializeSize (Serialize_vector Serialize_byte_vector (scriptWitness txin))"

definition IsCoinBase :: "NetMessageTransaction \<Rightarrow> bool" where
  "IsCoinBase tx \<longleftrightarrow> length (vin tx) = 1 \<and> OutPoint_IsNull (previousOutput (vin tx ! 0))"

definition LOCKTIME_THRESHOLD :: int where
  "LOCKTIME_THRESHOLD = 500000000"

definition IsFinalTx :: "NetMessageTransaction \<Rightarrow> int \<Rightarrow> int \<Rightarrow> bool" where
  "IsFinalTx tx nBlockHeight nBlockTime \<longleftrightarrow>
     (if nLockTime tx = 0 then True
      else if uint (nLockTime tx) < (if uint (nLockTime tx) < LOCKTIME_THRESHOLD then nBlockHeight else nBlockTime) then True
      else list_all (\<lambda>txin. sequence txin = SEQUENCE_FINAL) (vin tx))"

section \<open>Round trips\<close>

text \<open>What reading an object leaves of the object read into: the fields that are not in the stream.\<close>

definition OutPoint_wf :: "OutPoint \<Rightarrow> bool" where
  "OutPoint_wf pt \<longleftrightarrow> length (op_hashBlock pt) = 32 \<and> length (hashTransaction pt) = 32"

definition OutPoint_merge :: "u32 \<Rightarrow> OutPoint \<Rightarrow> OutPoint \<Rightarrow> OutPoint" where
  "OutPoint_merge ver old pt =
     (if ver AND SERIALIZE_BLOCK_HASH \<noteq> 0 then pt
      else old\<lparr>hashTransaction := hashTransaction pt, outPutIdx := outPutIdx pt\<rparr>)"

definition TxIn_wf :: "TxIn \<Rightarrow> bool" where
  "TxIn_wf txin \<longleftrightarrow> OutPoint_wf (previousOutput txin) \<and> length (scriptSig txin) \<le> MAX_SIZE"

definition TxIn_merge :: "u32 \<Rightarrow> TxIn \<Rightarrow> TxIn \<Rightarrow> TxIn" where
  "TxIn_merge ver old txin =
     txin\<lparr>previousOutput := OutPoint_merge ver (previousOutput old) (previousOutput txin), scriptWitness := scriptWitness old\<rparr>"

definition TxOut_wf :: "TxOut \<Rightarrow> bool" where
  "TxOut_wf out \<longleftrightarrow> length (scriptPubKey out) \<le> MAX_SIZE"

definition TxOut_merge :: "u32 \<Rightarrow> TxOut \<Rightarrow> TxOut \<Rightarrow> TxOut" where
  "TxOut_merge ver old out = (if ver AND SERIALIZE_TXOUT_ISSPENT \<noteq> 0 then out else out\<lparr>isSpent := isSpent old\<rparr>)"

definition witness_wf :: "bytes list \<Rightarrow> bool" where
  "witness_wf stack \<longleftrightarrow> list_all (\<lambda>v. length v \<le> MAX_SIZE) stack \<and> length stack \<le> MAX_SIZE"

definition tx_wf :: "NetMessageTransaction \<Rightarrow> bool" where
  "tx_wf tx \<longleftrightarrow> list_all TxIn_wf (vin tx) \<and> length (vin tx) \<le> MAX_SIZE \<and>
     list_all TxOut_wf (vout tx) \<and> length (vout tx) \<le> MAX_SIZE \<and>
     list_all (\<lambda>txin. witness_wf (scriptWitness txin)) (vin tx)"

text \<open>An empty input vector cannot be told from the marker of the extended format.\<close>

definition tx_encodable :: "u32 \<Rightarrow> NetMessageTransaction \<Rightarrow> bool" where
  "tx_encodable ver tx \<longleftrightarrow> tx_wf tx \<and> (ver AND SERIALIZE_TRANSACTION_NO_WITNESS = 0 \<longrightarrow> vin tx \<noteq> [])"

definition tx_merge :: "u32 \<Rightarrow> NetMessageTransaction \<Rightarrow> NetMessageTransaction \<Rightarrow> NetMessageTransaction" where
  "tx_merge ver old tx =
     old\<lparr>tx_nVersion := tx_nVersion tx, nLockTime := nLockTime tx,
         vin := map (\<lambda>txin. (TxIn_merge ver TxIn_new txin)\<lparr>scriptWitness :=
                  (if ver AND SERIALIZE_TRANSACTION_NO_WITNESS = 0 then scriptWitness txin else [])\<rparr>) (vin tx),
         vout := map (TxOut_merge ver TxOut_SetNull) (vout tx)\<rparr>"

lemma length_uint256_new [simp]: "length uint256_new = 32"
  by (simp add: uint256_new_def)

lemma OutPoint_wf_SetNull [simp]: "OutPoint_wf OutPoint_SetNull"
  by (simp add: OutPoint_wf_def OutPoint_SetNull_def)

interpretation uint256_codec: codec ver Serialize_uint256 Unserialize_uint256
    "\<lambda>old x. x" "\<lambda>x. length x = 32" "\<lambda>old. length old = 32" for ver
  by unfold_locales (simp add: Unserialize_uint256_def Serialize_uint256_def decodes_array)

lemmas ser_writedata_simps [simp] =
  ser_writedata8_def ser_writedata16_def ser_writedata32_def ser_writedata64_def

lemma decodes_return: "x = y \<Longrightarrow> decodes ver (retU x) [] y"
  by (simp add: decodes_ret)

lemma decodes_OutPoint_key:
  assumes "length (hashTransaction mid) = 32" "length (hashTransaction pt) = 32"
  shows "decodes ver (bindU (Unserialize_uint256 (hashTransaction mid)) (\<lambda>h.
      bindU ser_readdata32 (\<lambda>i. retU (mid\<lparr>hashTransaction := h, outPutIdx := i\<rparr>))))
     (ser_bytes (Serialize_uint256 (hashTransaction pt) @ ser_writedata32 (outPutIdx pt)))
     (mid\<lparr>hashTransaction := hashTransaction pt, outPutIdx := outPutIdx pt\<rparr>)"
  using assms by (auto simp: Serialize_uint256_def Unserialize_uint256_def
      intro!: decodes_bind [OF decodes_array] decodes_bind_last [OF decodes_readdata32] decodes_ret)

lemma decodes_OutPoint:
  assumes "OutPoint_wf old" "OutPoint_wf pt"
  shows "decodes ver (Unserialize_OutPoint old) (ser_bytes (Serialize_OutPoint ver pt)) (OutPoint_merge ver old pt)"
proof -
  define mid where "mid = (if ver AND SERIALIZE_BLOCK_HASH \<noteq> 0
    then old\<lparr>op_hashBlock := op_hashBlock pt, op_height := op_height pt, isUsed := isUsed pt\<rparr> else old)"
  have "decodes ver (if ver AND SERIALIZE_BLOCK_HASH \<noteq> 0
            then bindU (Unserialize_uint256 (op_hashBlock old)) (\<lambda>h.
                 bindU ser_readdata64 (\<lambda>ht.
                 bindU Unserialize_bool (\<lambda>u. retU (old\<lparr>op_hashBlock := h, op_height := ht, isUsed := u\<rparr>))))
            else retU old)
     (ser_bytes (if ver AND SERIALIZE_BLOCK_HASH \<noteq> 0
      then Serialize_uint256 (op_hashBlock pt) @ ser_writedata64 (op_height pt) @ Serialize_bool (isUsed pt) else [])) mid"
    using assms by (auto simp: OutPoint_wf_def Serialize_uint256_def Unserialize_uint256_def mid_def
        intro!: decodes_bind [OF decodes_array] decodes_bind [OF decodes_readdata64] decodes_bind_last [OF decodes_bool] decodes_ret)
  moreover have "decodes ver (bindU (Unserialize_uint256 (hashTransaction mid)) (\<lambda>h.
      bindU ser_readdata32 (\<lambda>i. retU (mid\<lparr>hashTransaction := h, outPutIdx := i\<rparr>))))
     (ser_bytes (Serialize_uint256 (hashTransaction pt) @ ser_writedata32 (outPutIdx pt))) (OutPoint_merge ver old pt)"
  proof -
    have "mid\<lparr>hashTransaction := hashTransaction pt, outPutIdx := outPutIdx pt\<rparr> = OutPoint_merge ver old pt"
      by (simp add: OutPoint_merge_def mid_def)
    then show ?thesis
      using decodes_OutPoint_key [of mid pt ver] assms by (simp add: mid_def OutPoint_wf_def)
  qed
  ultimately show ?thesis
    unfolding Unserialize_OutPoint_def Serialize_OutPoint_def ser_bytes_simps(3) [of "if _ then _ else _"]
    by (intro decodes_version decodes_bind)
qed

interpretation OutPoint_codec: codec ver "Serialize_OutPoint ver" Unserialize_OutPoint "OutPoint_merge ver"
    OutPoint_wf OutPoint_wf for ver
  by unfold_locales (rule decodes_OutPoint)

lemma decodes_TxIn:
  assumes "TxIn_wf old" "TxIn_wf txin"
  shows "decodes ver (Unserialize_TxIn old) (ser_bytes (Serialize_TxIn ver txin)) (TxIn_merge ver old txin)"
proof -
  have "decodes ver (Unserialize_TxIn old)
     (ser_bytes (Serialize_OutPoint ver (previousOutput txin)) @
      ser_bytes (Serialize_prevector (scriptSig txin)) @ WriteLE32 (sequence txin))
     (old\<lparr>previousOutput := OutPoint_merge ver (previousOutput old) (previousOutput txin),
          scriptSig := scriptSig txin, sequence := sequence txin\<rparr>)"
    using assms unfolding Unserialize_TxIn_def TxIn_wf_def
    by (intro decodes_bind [OF decodes_OutPoint] decodes_bind [OF decodes_prevector]
        decodes_bind_last [OF decodes_readdata32] decodes_ret) simp_all
  moreover have "old\<lparr>previousOutput := OutPoint_merge ver (previousOutput old) (previousOutput txin),
      scriptSig := scriptSig txin, sequence := sequence txin\<rparr> = TxIn_merge ver old txin"
    by (rule TxIn.equality) (simp_all add: TxIn_merge_def)
  ultimately show ?thesis by (simp add: Serialize_TxIn_def)
qed

interpretation TxIn_codec: codec_vector ver "Serialize_TxIn ver" Unserialize_TxIn "TxIn_merge ver" TxIn_wf TxIn_wf
    sizeof_TxIn TxIn_new for ver
  by unfold_locales (auto intro: decodes_TxIn simp: sizeof_TxIn_def TxIn_wf_def TxIn_new_def)

lemma decodes_TxOut:
  assumes "TxOut_wf out"
  shows "decodes ver (Unserialize_TxOut old) (ser_bytes (Serialize_TxOut ver out)) (TxOut_merge ver old out)"
proof -
  have "decodes ver (Unserialize_TxOut old)
     (WriteLE64 (nValue out) @ ser_bytes (Serialize_prevector (scriptPubKey out)) @
      ser_bytes (if ver AND SERIALIZE_TXOUT_ISSPENT \<noteq> 0 then Serialize_bool (isSpent out) else []))
     (TxOut_merge ver old out)"
    using assms unfolding Unserialize_TxOut_def TxOut_wf_def
    by (intro decodes_version decodes_bind [OF decodes_readdata64] decodes_bind [OF decodes_prevector])
      (auto intro!: decodes_bind_last [OF decodes_bool] decodes_return simp: TxOut_merge_def)
  then show ?thesis by (simp add: Serialize_TxOut_def)
qed

interpretation TxOut_codec: codec_vector ver "Serialize_TxOut ver" Unserialize_TxOut "TxOut_merge ver" TxOut_wf "\<lambda>_. True"
    sizeof_TxOut TxOut_SetNull for ver
  by unfold_locales (auto intro: decodes_TxOut simp: sizeof_TxOut_def)

interpretation stack_codec: codec_vector ver Serialize_byte_vector "\<lambda>_. Unserialize_byte_vector" "\<lambda>old x. x"
    "\<lambda>v. length v \<le> MAX_SIZE" "\<lambda>_. True" sizeof_vector "[]" for ver
  by unfold_locales (auto intro: decodes_byte_vector simp: sizeof_vector_def)

lemma decodes_stack:
  "witness_wf stack \<Longrightarrow> decodes ver (Unserialize_vector sizeof_vector [] (\<lambda>_. Unserialize_byte_vector))
     (ser_bytes (Serialize_vector Serialize_byte_vector stack)) stack"
  using stack_codec.vec.decodes_un [of stack ver] by (simp add: witness_wf_def)

lemma decodes_witnesses:
  "list_all (\<lambda>txin. witness_wf (scriptWitness txin)) ins \<Longrightarrow> length ins = length outs \<Longrightarrow>
     decodes ver (Unserialize_witnesses outs)
       (ser_bytes (concat (map (\<lambda>txin. Serialize_vector Serialize_byte_vector (scriptWitness txin)) ins)))
       (map2 (\<lambda>txin out. out\<lparr>scriptWitness := scriptWitness txin\<rparr>) ins outs)"
proof (induction ins arbitrary: outs)
  case Nil
  then show ?case by (simp add: decodes_ret)
next
  case (Cons txin ins)
  then obtain out outs' where outs: "outs = out # outs'" "length ins = length outs'" by (cases outs) auto
  with Cons show ?case
    by (auto intro!: decodes_bind [OF decodes_stack] decodes_bind_last [OF Cons.IH] decodes_ret)
qed

lemma decodes_vin:
  "list_all TxIn_wf ins \<Longrightarrow> length ins \<le> MAX_SIZE \<Longrightarrow>
     decodes ver (Unserialize_vector sizeof_TxIn TxIn_new Unserialize_TxIn)
       (ser_bytes (Serialize_vector (Serialize_TxIn ver) ins)) (map (TxIn_merge ver TxIn_new) ins)"
  using TxIn_codec.vec.decodes_un [of ins ver] by simp

lemma decodes_vout:
  "list_all TxOut_wf outs \<Longrightarrow> length outs \<le> MAX_SIZE \<Longrightarrow>
     decodes ver (Unserialize_vector sizeof_TxOut TxOut_SetNull Unserialize_TxOut)
       (ser_bytes (Serialize_vector (Serialize_TxOut ver) outs)) (map (TxOut_merge ver TxOut_SetNull) outs)"
  using TxOut_codec.vec.decodes_un [of outs ver] by simp

lemma decodes_vin_empty:
  "decodes ver (Unserialize_vector sizeof_TxIn TxIn_new Unserialize_TxIn) [0] []"
  using decodes_vin [of "[]" ver] by (simp add: Serialize_vector_def WriteCompactSize_def)

lemma HasWitness_False: "\<not> HasWitness tx \<Longrightarrow> txin \<in> set (vin tx) \<Longrightarrow> scriptWitness txin = []"
  by (auto simp: HasWitness_def list_ex_iff)

lemma decodes_tx:
  assumes "tx_encodable ver tx"
  shows "decodes ver (Unserialize_tx old) (ser_bytes (Serialize_tx ver tx)) (tx_merge ver old tx)"
proof -
  let ?allow = "ver AND SERIALIZE_TRANSACTION_NO_WITNESS = 0"
  let ?flagged = "HasWitness tx \<and> ?allow"
  let ?ins = "map (TxIn_merge ver TxIn_new) (vin tx)"
  let ?outs = "map (TxOut_merge ver TxOut_SetNull) (vout tx)"
  have wf: "list_all TxIn_wf (vin tx)" "length (vin tx) \<le> MAX_SIZE" "list_all TxOut_wf (vout tx)"
    "length (vout tx) \<le> MAX_SIZE" "list_all (\<lambda>txin. witness_wf (scriptWitness txin)) (vin tx)"
    "?allow \<longrightarrow> vin tx \<noteq> []"
    using assms by (simp_all add: tx_encodable_def tx_wf_def)
  note vin = decodes_vin [OF wf(1,2), of ver] and vout = decodes_vout [OF wf(3,4), of ver]
  show ?thesis
  proof (cases ?flagged)
    case True
    let ?wits = "map2 (\<lambda>txin out. out\<lparr>scriptWitness := scriptWitness txin\<rparr>) (vin tx) ?ins"
    have "?wits = map (\<lambda>txin. (TxIn_merge ver TxIn_new txin)\<lparr>scriptWitness := scriptWitness txin\<rparr>) (vin tx)"
      by (rule nth_equalityI) simp_all
    then have merged: "old\<lparr>tx_nVersion := tx_nVersion tx, nLockTime := nLockTime tx, vin := ?wits, vout := ?outs\<rparr> =
        tx_merge ver old tx"
      using True by (simp add: tx_merge_def)
    have bytes: "ser_bytes (Serialize_tx ver tx) = WriteLE32 (tx_nVersion tx) @ [0] @ ([1] @
        (ser_bytes (Serialize_vector (Serialize_TxIn ver) (vin tx)) @
         ser_bytes (Serialize_vector (Serialize_TxOut ver) (vout tx)))) @
        ser_bytes (concat (map (\<lambda>txin. Serialize_vector Serialize_byte_vector (scriptWitness txin)) (vin tx))) @
        WriteLE32 (nLockTime tx)"
      using True by (simp add: Serialize_tx_def Let_def)
    have stage1: "decodes ver (bindU ser_readdata8 (\<lambda>flags. if flags \<noteq> 0
          then bindU (Unserialize_vector sizeof_TxIn TxIn_new Unserialize_TxIn) (\<lambda>ins.
               bindU (Unserialize_vector sizeof_TxOut TxOut_SetNull Unserialize_TxOut) (\<lambda>outs. retU (flags, ins, outs)))
          else retU (flags, [], vout old)))
        ([1] @ ser_bytes (Serialize_vector (Serialize_TxIn ver) (vin tx)) @ ser_bytes (Serialize_vector (Serialize_TxOut ver) (vout tx)))
        (1, ?ins, ?outs)"
      by (rule decodes_bind [OF decodes_readdata8], simp, rule decodes_bind [OF vin], rule decodes_bind_last [OF vout decodes_ret])
    have stage2: "decodes ver (bindU (Unserialize_witnesses ?ins) (\<lambda>ins. retU (1 XOR 1 :: u8, ins)))
        (ser_bytes (concat (map (\<lambda>txin. Serialize_vector Serialize_byte_vector (scriptWitness txin)) (vin tx)))) (0, ?wits)"
      by (rule decodes_bind_last [OF decodes_witnesses [OF wf(5)]]) (simp_all add: decodes_ret)
    show ?thesis
      unfolding bytes Unserialize_tx_def Let_def
      by (rule decodes_version, rule decodes_bind [OF decodes_readdata32], rule decodes_bind [OF decodes_vin_empty],
          rule decodes_bind [where x = "(1, ?ins, ?outs)"], use True stage1 in simp, unfold prod.case,
          rule decodes_bind [where x = "(0, ?wits)"], use True stage2 in simp, unfold prod.case,
          rule decodes_bind_last [OF decodes_readdata32], use merged decodes_ret in simp)
  next
    case False
    have merged: "old\<lparr>tx_nVersion := tx_nVersion tx, nLockTime := nLockTime tx, vin := ?ins, vout := ?outs\<rparr> =
        tx_merge ver old tx"
      using False HasWitness_False [of tx] by (auto simp: tx_merge_def TxIn_merge_def TxIn_new_def)
    have bytes: "ser_bytes (Serialize_tx ver tx) = WriteLE32 (tx_nVersion tx) @
        ser_bytes (Serialize_vector (Serialize_TxIn ver) (vin tx)) @
        ser_bytes (Serialize_vector (Serialize_TxOut ver) (vout tx)) @ [] @ WriteLE32 (nLockTime tx)"
      using False by (auto simp: Serialize_tx_def Let_def)
    have stage1: "decodes ver (bindU (Unserialize_vector sizeof_TxOut TxOut_SetNull Unserialize_TxOut) (\<lambda>outs. retU (0 :: u8, ?ins, outs)))
        (ser_bytes (Serialize_vector (Serialize_TxOut ver) (vout tx))) (0, ?ins, ?outs)"
      by (rule decodes_bind_last [OF vout decodes_ret])
    have cond: "(?ins = [] \<and> ?allow) = False" using wf(6) by auto
    show ?thesis
      unfolding bytes Unserialize_tx_def Let_def
      by (rule decodes_version, rule decodes_bind [OF decodes_readdata32], rule decodes_bind [OF vin],
          rule decodes_bind [where x = "(0, ?ins, ?outs)"], simp only: cond if_False stage1, unfold prod.case,
          rule decodes_bind [where x = "(0, ?ins)"], simp add: decodes_ret, unfold prod.case,
          rule decodes_bind_last [OF decodes_readdata32], use merged decodes_ret in simp)
  qed
qed

section \<open>Hashes, values and weights\<close>

text \<open>The cached hashes are either unset or right.\<close>

definition tx_cache_ok :: "NetMessageTransaction \<Rightarrow> bool" where
  "tx_cache_ok tx \<longleftrightarrow>
     uint256_IsNull (tx_hash tx) \<or> tx_hash tx = sha256d (ser_bytes (Serialize_tx SERIALIZE_TRANSACTION_NO_WITNESS tx))"

lemma Serialize_tx_cache [simp]:
  "Serialize_tx ver (tx\<lparr>tx_hash := h\<rparr>) = Serialize_tx ver tx"
  "Serialize_tx ver (tx\<lparr>tx_witnessHash := h\<rparr>) = Serialize_tx ver tx"
  by (simp_all add: Serialize_tx_def HasWitness_def Let_def)

lemma GetHash_cache_ok:
  "tx_cache_ok tx \<Longrightarrow> fst (GetHash tx) = sha256d (ser_bytes (Serialize_tx SERIALIZE_TRANSACTION_NO_WITNESS tx))"
  "tx_cache_ok tx \<Longrightarrow> tx_cache_ok (snd (GetHash tx))"
  by (auto simp: tx_cache_ok_def GetHash_def Let_def SerializeHash_sha256d)

lemma Serialize_tx_no_witness:
  "Serialize_tx SERIALIZE_TRANSACTION_NO_WITNESS tx =
     ser_writedata32 (tx_nVersion tx) @
     Serialize_vector (Serialize_TxIn SERIALIZE_TRANSACTION_NO_WITNESS) (vin tx) @
     Serialize_vector (Serialize_TxOut SERIALIZE_TRANSACTION_NO_WITNESS) (vout tx) @ ser_writedata32 (nLockTime tx)"
  by (simp add: Serialize_tx_def SERIALIZE_TRANSACTION_NO_WITNESS_def Let_def)

definition strip_witness :: "NetMessageTransaction \<Rightarrow> NetMessageTransaction" where
  "strip_witness tx = tx\<lparr>vin := map (\<lambda>txin. txin\<lparr>scriptWitness := []\<rparr>) (vin tx)\<rparr>"

lemma Serialize_TxIn_witness [simp]: "Serialize_TxIn ver (txin\<lparr>scriptWitness := w\<rparr>) = Serialize_TxIn ver txin"
  by (simp add: Serialize_TxIn_def)

lemma Serialize_tx_strip:
  "Serialize_tx SERIALIZE_TRANSACTION_NO_WITNESS (strip_witness tx) = Serialize_tx SERIALIZE_TRANSACTION_NO_WITNESS tx"
  by (simp add: Serialize_tx_no_witness strip_witness_def Serialize_vector_def comp_def)

lemma sint_MAX_MONEY: "sint MAX_MONEY = 2100000000000000"
  by (simp add: MAX_MONEY_def COIN_def)

lemma MoneyRange_sint: "MoneyRange v \<longleftrightarrow> 0 \<le> sint v \<and> sint v \<le> 2100000000000000"
  by (simp add: MoneyRange_def word_sle_eq sint_MAX_MONEY)

lemma sint_MoneyRange_add:
  assumes "MoneyRange a" "MoneyRange b"
  shows "sint (a + b) = sint a + sint b"
proof -
  have "sint (a + b) = signed_take_bit 63 (sint a + sint b)" by (simp add: sint_word_ariths)
  also have "\<dots> = sint a + sint b"
    using assms by (intro signed_take_bit_int_eq_self) (simp_all add: MoneyRange_sint)
  finally show ?thesis .
qed

lemma GetValueOut_loop_correct:
  "MoneyRange acc \<Longrightarrow> GetValueOut_loop outs acc =
     (if (\<forall>out \<in> set outs. MoneyRange (nValue out)) \<and> sint acc + (\<Sum>out \<leftarrow> outs. sint (nValue out)) \<le> sint MAX_MONEY
      then word_of_int (sint acc + (\<Sum>out \<leftarrow> outs. sint (nValue out))) else - 1)"
proof (induction outs arbitrary: acc)
  case Nil
  then show ?case by (simp add: MoneyRange_sint sint_MAX_MONEY)
next
  case (Cons out outs)
  show ?case
  proof (cases "MoneyRange (nValue out)")
    case True
    have add: "sint (acc + nValue out) = sint acc + sint (nValue out)"
      by (rule sint_MoneyRange_add [OF Cons.prems True])
    show ?thesis
    proof (cases "MoneyRange (acc + nValue out)")
      case True
      from Cons.IH [OF True] \<open>MoneyRange (nValue out)\<close> True show ?thesis by (simp add: add algebra_simps)
    next
      case False
      then have "2100000000000000 < sint acc + sint (nValue out)"
        using Cons.prems \<open>MoneyRange (nValue out)\<close> by (auto simp: MoneyRange_sint add)
      moreover have "0 \<le> (\<Sum>out \<leftarrow> outs. sint (nValue out))" if "\<forall>out \<in> set outs. MoneyRange (nValue out)"
        using that by (intro sum_list_nonneg) (auto simp: MoneyRange_sint)
      ultimately show ?thesis using False by (auto simp: sint_MAX_MONEY)
    qed
  qed simp
qed

text \<open>A transaction that is final for a block stays final for later heights and times.\<close>

lemma IsFinalTx_monotone: "IsFinalTx tx h t \<Longrightarrow> h \<le> h' \<Longrightarrow> t \<le> t' \<Longrightarrow> IsFinalTx tx h' t'"
  by (auto simp: IsFinalTx_def split: if_splits)

section \<open>Properties\<close>

text \<open>
  C15. Transactions survive serialisation: from the bytes written for a transaction with at least one input
  (any transaction, if the stream carries no witnesses), the deserialiser reads back its version, inputs,
  outputs and lock time, and the witnesses when the stream carries them, whatever follows in the buffer;
  it consumes exactly what was written.
\<close>

theorem tx_roundtrip:
  assumes "tx_encodable ver tx" "length (nd_data s) < 2 ^ 32" "nd_version s = ver"
    "remaining s = ser_bytes (Serialize_tx ver tx) @ rest"
  shows "Unserialize_tx old s = Inr (tx_merge ver old tx, skip (GetSerializeSize (Serialize_tx ver tx)) s)"
  using decodesD [OF decodes_tx [OF assms(1)], of s rest old] assms
  by (simp add: addressable_def GetSerializeSize_length)

definition sample_tx :: NetMessageTransaction where
  "sample_tx = NetMessageTransaction_new\<lparr>
     vin := [TxIn_new\<lparr>scriptSig := [1, 2], scriptWitness := [[7]]\<rparr>],
     vout := [\<lparr>nValue = 5, scriptPubKey = [0x51], isSpent = False\<rparr>]\<rparr>"

theorem tx_roundtrip_witness:
  "Unserialize_tx NetMessageTransaction_new (NetMessageData_new (ser_bytes (Serialize_tx 0 sample_tx)) 0) =
     Inr (sample_tx, skip (GetSerializeSize (Serialize_tx 0 sample_tx)) (NetMessageData_new (ser_bytes (Serialize_tx 0 sample_tx)) 0))"
proof -
  let ?s = "NetMessageData_new (ser_bytes (Serialize_tx 0 sample_tx)) 0"
  have enc: "tx_encodable 0 sample_tx"
    by (simp add: tx_encodable_def tx_wf_def sample_tx_def TxIn_wf_def TxOut_wf_def witness_wf_def TxIn_new_def
        NetMessageTransaction_new_def MAX_SIZE_def)
  have rem: "remaining ?s = ser_bytes (Serialize_tx 0 sample_tx) @ []"
    by (simp add: remaining_def NetMessageData_new_def)
  have len: "length (nd_data ?s) < 2 ^ 32"
    by (simp add: NetMessageData_new_def Serialize_tx_def sample_tx_def HasWitness_def TxIn_new_def
        NetMessageTransaction_new_def Serialize_vector_def Serialize_TxIn_def Serialize_TxOut_def Serialize_OutPoint_def
        OutPoint_SetNull_def Serialize_uint256_def Serialize_prevector_def Serialize_byte_vector_def
        length_WriteCompactSize GetSizeOfCompactSize_def uint256_new_def SERIALIZE_BLOCK_HASH_def SERIALIZE_TXOUT_ISSPENT_def Let_def)
  have "tx_merge 0 NetMessageTransaction_new sample_tx = sample_tx"
    by (simp add: tx_merge_def sample_tx_def TxIn_merge_def OutPoint_merge_def TxOut_merge_def TxIn_new_def
        NetMessageTransaction_new_def OutPoint_SetNull_def TxOut_SetNull_def)
  then show ?thesis
    using tx_roundtrip [OF enc len _ rem, of NetMessageTransaction_new] by (simp add: NetMessageData_new_def)
qed

text \<open>
  C35. The transaction id: as long as the cache is unset or right, \<open>GetHash\<close> returns the double SHA-256
  of the serialisation without witnesses, leaves the cache right, and does not depend on the witnesses, so
  signatures in witnesses cannot change the id.
\<close>

theorem GetHash_txid:
  assumes "tx_cache_ok tx"
  shows "fst (GetHash tx) = sha256d (ser_bytes (Serialize_tx SERIALIZE_TRANSACTION_NO_WITNESS tx))
    \<and> fst (GetHash (snd (GetHash tx))) = fst (GetHash tx)
    \<and> fst (GetHash (strip_witness tx)) = fst (GetHash tx)"
proof -
  have strip: "tx_cache_ok (strip_witness tx)"
    using assms by (simp add: tx_cache_ok_def Serialize_tx_strip) (simp add: strip_witness_def)
  have "Serialize_tx SERIALIZE_TRANSACTION_NO_WITNESS (snd (GetHash tx)) = Serialize_tx SERIALIZE_TRANSACTION_NO_WITNESS tx"
    by (simp add: GetHash_def Let_def)
  then show ?thesis
    using GetHash_cache_ok [OF assms] GetHash_cache_ok(1) [OF GetHash_cache_ok(2) [OF assms]] GetHash_cache_ok(1) [OF strip]
    by (simp add: Serialize_tx_strip)
qed

theorem GetHash_txid_witness:
  "fst (GetHash sample_tx) = sha256d (ser_bytes (Serialize_tx SERIALIZE_TRANSACTION_NO_WITNESS sample_tx))"
proof -
  have "tx_cache_ok sample_tx"
    by (simp add: tx_cache_ok_def sample_tx_def NetMessageTransaction_new_def uint256_IsNull_def uint256_new_def list_all_iff)
  from GetHash_txid [OF this] show ?thesis by blast
qed


text \<open>
  \<open>GetWeight\<close> as it is written: the flag that should exclude the witnesses is passed as the stream
  type instead of the version, so the weight is four times the size with witnesses, not three times the
  stripped size plus the total size, and it exceeds the latter whenever there is a witness.
\<close>

theorem GetWeight_counts_witness:
  "GetWeight tx = 4 * length (ser_bytes (Serialize_tx 0 tx))
    \<and> (HasWitness tx \<longrightarrow> 3 * length (ser_bytes (Serialize_tx SERIALIZE_TRANSACTION_NO_WITNESS tx))
         + length (ser_bytes (Serialize_tx 0 tx)) < GetWeight tx)"
proof -
  have flags: "SERIALIZE_TRANSACTION_NO_WITNESS AND SERIALIZE_BLOCK_HASH = 0"
    "SERIALIZE_TRANSACTION_NO_WITNESS AND SERIALIZE_TXOUT_ISSPENT = 0"
    by (simp_all add: SERIALIZE_BLOCK_HASH_def SERIALIZE_TXOUT_ISSPENT_def SERIALIZE_TRANSACTION_NO_WITNESS_def)
  have "Serialize_TxIn 0 = Serialize_TxIn SERIALIZE_TRANSACTION_NO_WITNESS"
    "Serialize_TxOut 0 = Serialize_TxOut SERIALIZE_TRANSACTION_NO_WITNESS"
    by (simp_all add: fun_eq_iff Serialize_TxIn_def Serialize_TxOut_def Serialize_OutPoint_def flags)
  then have "HasWitness tx \<Longrightarrow> length (ser_bytes (Serialize_tx SERIALIZE_TRANSACTION_NO_WITNESS tx)) <
      length (ser_bytes (Serialize_tx 0 tx))"
    unfolding Serialize_tx_no_witness by (simp add: Serialize_tx_def Let_def)
  then show ?thesis
    by (auto simp: GetWeight_def GetSerializeSize_length WITNESS_SCALE_FACTOR_def)
qed

text \<open>The formula of the comment (three times the stripped size plus the total) does differ.\<close>

theorem GetWeight_counts_witness_witness:
  "3 * length (ser_bytes (Serialize_tx SERIALIZE_TRANSACTION_NO_WITNESS sample_tx))
     + length (ser_bytes (Serialize_tx 0 sample_tx)) < GetWeight sample_tx"
proof -
  have "HasWitness sample_tx" by (simp add: HasWitness_def sample_tx_def)
  with GetWeight_counts_witness [of sample_tx] show ?thesis by blast
qed

text \<open>
  \<open>GetWitnessHash\<close> of a transaction without witnesses returns the id only if the id was computed
  before; on a fresh object it returns the null hash.
\<close>

theorem GetWitnessHash_uncomputed:
  assumes "\<not> HasWitness tx" "uint256_IsNull (tx_hash tx)" "uint256_IsNull (tx_witnessHash tx)"
  shows "uint256_IsNull (fst (GetWitnessHash tx))
    \<and> fst (GetWitnessHash (snd (GetHash tx))) = fst (GetHash tx)"
proof -
  have "\<not> HasWitness (snd (GetHash tx))" "uint256_IsNull (tx_witnessHash (snd (GetHash tx)))"
    "tx_hash (snd (GetHash tx)) = fst (GetHash tx)"
    using assms by (simp_all add: GetHash_def HasWitness_def Let_def)
  then show ?thesis using assms by (simp add: GetWitnessHash_def Let_def)
qed

theorem GetWitnessHash_uncomputed_witness:
  "uint256_IsNull (fst (GetWitnessHash NetMessageTransaction_new))"
proof -
  have "uint256_IsNull uint256_new" by (simp add: uint256_IsNull_def uint256_new_def list_all_iff)
  then show ?thesis
    using GetWitnessHash_uncomputed [of NetMessageTransaction_new] by (simp add: NetMessageTransaction_new_def HasWitness_def)
qed

end
