(* ===== verification/Script.thy ===== *)
theory Script
  imports Serialize
begin

text \<open>
  Scripts: \<^verbatim>\<open>src/script/script.h\<close> and \<^verbatim>\<open>src/script/script.cpp\<close>. A script is its bytes, an
  iterator into it is the rest of the bytes, and an opcode is a byte, since the parser casts any byte to
  the enumeration. Script numbers are integers; their encoding works on 64-bit words as in the source.
\<close>

section \<open>Opcodes\<close>

type_synonym opcodetype = u8

abbreviation (input) OP_0 :: opcodetype where "OP_0 \<equiv> 0x00"
abbreviation (input) OP_FALSE :: opcodetype where "OP_FALSE \<equiv> OP_0"
abbreviation (input) OP_PUSHDATA1 :: opcodetype where "OP_PUSHDATA1 \<equiv> 0x4c"
abbreviation (input) OP_PUSHDATA2 :: opcodetype where "OP_PUSHDATA2 \<equiv> 0x4d"
abbreviation (input) OP_PUSHDATA4 :: opcodetype where "OP_PUSHDATA4 \<equiv> 0x4e"
abbreviation (input) OP_1NEGATE :: opcodetype where "OP_1NEGATE \<equiv> 0x4f"
abbreviation (input) OP_RESERVED :: opcodetype where "OP_RESERVED \<equiv> 0x50"
abbreviation (input) OP_1 :: opcodetype where "OP_1 \<equiv> 0x51"
abbreviation (input) OP_TRUE :: opcodetype where "OP_TRUE \<equiv> OP_1"
abbreviation (input) OP_2 :: opcodetype where "OP_2 \<equiv> 0x52"
abbreviation (input) OP_3 :: opcodetype where "OP_3 \<equiv> 0x53"
abbreviation (input) OP_4 :: opcodetype where "OP_4 \<equiv> 0x54"
abbreviation (input) OP_5 :: opcodetype where "OP_5 \<equiv> 0x55"
abbreviation (input) OP_6 :: opcodetype where "OP_6 \<equiv> 0x56"
abbreviation (input) OP_7 :: opcodetype where "OP_7 \<equiv> 0x57"
abbreviation (input) OP_8 :: opcodetype where "OP_8 \<equiv> 0x58"
abbreviation (input) OP_9 :: opcodetype where "OP_9 \<equiv> 0x59"
abbreviation (input) OP_10 :: opcodetype where "OP_10 \<equiv> 0x5a"
abbreviation (input) OP_11 :: opcodetype where "OP_11 \<equiv> 0x5b"
abbreviation (input) OP_12 :: opcodetype where "OP_12 \<equiv> 0x5c"
abbreviation (input) OP_13 :: opcodetype where "OP_13 \<equiv> 0x5d"
abbreviation (input) OP_14 :: opcodetype where "OP_14 \<equiv> 0x5e"
abbreviation (input) OP_15 :: opcodetype where "OP_15 \<equiv> 0x5f"
abbreviation (input) OP_16 :: opcodetype where "OP_16 \<equiv> 0x60"
abbreviation (input) OP_NOP :: opcodetype where "OP_NOP \<equiv> 0x61"
abbreviation (input) OP_VER :: opcodetype where "OP_VER \<equiv> 0x62"
abbreviation (input) OP_IF :: opcodetype where "OP_IF \<equiv> 0x63"
abbreviation (input) OP_NOTIF :: opcodetype where "OP_NOTIF \<equiv> 0x64"
abbreviation (input) OP_VERIF :: opcodetype where "OP_VERIF \<equiv> 0x65"
abbreviation (input) OP_VERNOTIF :: opcodetype where "OP_VERNOTIF \<equiv> 0x66"
abbreviation (input) OP_ELSE :: opcodetype where "OP_ELSE \<equiv> 0x67"
abbreviation (input) OP_ENDIF :: opcodetype where "OP_ENDIF \<equiv> 0x68"
abbreviation (input) OP_VERIFY :: opcodetype where "OP_VERIFY \<equiv> 0x69"
abbreviation (input) OP_RETURN :: opcodetype where "OP_RETURN \<equiv> 0x6a"
abbreviation (input) OP_TOALTSTACK :: opcodetype where "OP_TOALTSTACK \<equiv> 0x6b"
abbreviation (input) OP_FROMALTSTACK :: opcodetype where "OP_FROMALTSTACK \<equiv> 0x6c"
abbreviation (input) OP_2DROP :: opcodetype where "OP_2DROP \<equiv> 0x6d"
abbreviation (input) OP_2DUP :: opcodetype where "OP_2DUP \<equiv> 0x6e"
abbreviation (input) OP_3DUP :: opcodetype where "OP_3DUP \<equiv> 0x6f"
abbreviation (input) OP_2OVER :: opcodetype where "OP_2OVER \<equiv> 0x70"
abbreviation (input) OP_2ROT :: opcodetype where "OP_2ROT \<equiv> 0x71"
abbreviation (input) OP_2SWAP :: opcodetype where "OP_2SWAP \<equiv> 0x72"
abbreviation (input) OP_IFDUP :: opcodetype where "OP_IFDUP \<equiv> 0x73"
abbreviation (input) OP_DEPTH :: opcodetype where "OP_DEPTH \<equiv> 0x74"
abbreviation (input) OP_DROP :: opcodetype where "OP_DROP \<equiv> 0x75"
abbreviation (input) OP_DUP :: opcodetype where "OP_DUP \<equiv> 0x76"
abbreviation (input) OP_NIP :: opcodetype where "OP_NIP \<equiv> 0x77"
abbreviation (input) OP_OVER :: opcodetype where "OP_OVER \<equiv> 0x78"
abbreviation (input) OP_PICK :: opcodetype where "OP_PICK \<equiv> 0x79"
abbreviation (input) OP_ROLL :: opcodetype where "OP_ROLL \<equiv> 0x7a"
abbreviation (input) OP_ROT :: opcodetype where "OP_ROT \<equiv> 0x7b"
abbreviation (input) OP_SWAP :: opcodetype where "OP_SWAP \<equiv> 0x7c"
abbreviation (input) OP_TUCK :: opcodetype where "OP_TUCK \<equiv> 0x7d"
abbreviation (input) OP_CAT :: opcodetype where "OP_CAT \<equiv> 0x7e"
abbreviation (input) OP_SUBSTR :: opcodetype where "OP_SUBSTR \<equiv> 0x7f"
abbreviation (input) OP_LEFT :: opcodetype where "OP_LEFT \<equiv> 0x80"
abbreviation (input) OP_RIGHT :: opcodetype where "OP_RIGHT \<equiv> 0x81"
abbreviation (input) OP_SIZE :: opcodetype where "OP_SIZE \<equiv> 0x82"
abbreviation (input) OP_INVERT :: opcodetype where "OP_INVERT \<equiv> 0x83"
abbreviation (input) OP_AND :: opcodetype where "OP_AND \<equiv> 0x84"
abbreviation (input) OP_OR :: opcodetype where "OP_OR \<equiv> 0x85"
abbreviation (input) OP_XOR :: opcodetype where "OP_XOR \<equiv> 0x86"
abbreviation (input) OP_EQUAL :: opcodetype where "OP_EQUAL \<equiv> 0x87"
abbreviation (input) OP_EQUALVERIFY :: opcodetype where "OP_EQUALVERIFY \<equiv> 0x88"
abbreviation (input) OP_RESERVED1 :: opcodetype where "OP_RESERVED1 \<equiv> 0x89"
abbreviation (input) OP_RESERVED2 :: opcodetype where "OP_RESERVED2 \<equiv> 0x8a"
abbreviation (input) OP_1ADD :: opcodetype where "OP_1ADD \<equiv> 0x8b"
abbreviation (input) OP_1SUB :: opcodetype where "OP_1SUB \<equiv> 0x8c"
abbreviation (input) OP_2MUL :: opcodetype where "OP_2MUL \<equiv> 0x8d"
abbreviation (input) OP_2DIV :: opcodetype where "OP_2DIV \<equiv> 0x8e"
abbreviation (input) OP_NEGATE :: opcodetype where "OP_NEGATE \<equiv> 0x8f"
abbreviation (input) OP_ABS :: opcodetype where "OP_ABS \<equiv> 0x90"
abbreviation (input) OP_NOT :: opcodetype where "OP_NOT \<equiv> 0x91"
abbreviation (input) OP_0NOTEQUAL :: opcodetype where "OP_0NOTEQUAL \<equiv> 0x92"
abbreviation (input) OP_ADD :: opcodetype where "OP_ADD \<equiv> 0x93"
abbreviation (input) OP_SUB :: opcodetype where "OP_SUB \<equiv> 0x94"
abbreviation (input) OP_MUL :: opcodetype where "OP_MUL \<equiv> 0x95"
abbreviation (input) OP_DIV :: opcodetype where "OP_DIV \<equiv> 0x96"
abbreviation (input) OP_MOD :: opcodetype where "OP_MOD \<equiv> 0x97"
abbreviation (input) OP_LSHIFT :: opcodetype where "OP_LSHIFT \<equiv> 0x98"
abbreviation (input) OP_RSHIFT :: opcodetype where "OP_RSHIFT \<equiv> 0x99"
abbreviation (input) OP_BOOLAND :: opcodetype where "OP_BOOLAND \<equiv> 0x9a"
abbreviation (input) OP_BOOLOR :: opcodetype where "OP_BOOLOR \<equiv> 0x9b"
abbreviation (input) OP_NUMEQUAL :: opcodetype where "OP_NUMEQUAL \<equiv> 0x9c"
abbreviation (input) OP_NUMEQUALVERIFY :: opcodetype where "OP_NUMEQUALVERIFY \<equiv> 0x9d"
abbreviation (input) OP_NUMNOTEQUAL :: opcodetype where "OP_NUMNOTEQUAL \<equiv> 0x9e"
abbreviation (input) OP_LESSTHAN :: opcodetype where "OP_LESSTHAN \<equiv> 0x9f"
abbreviation (input) OP_GREATERTHAN :: opcodetype where "OP_GREATERTHAN \<equiv> 0xa0"
abbreviation (input) OP_LESSTHANOREQUAL :: opcodetype where "OP_LESSTHANOREQUAL \<equiv> 0xa1"
abbreviation (input) OP_GREATERTHANOREQUAL :: opcodetype where "OP_GREATERTHANOREQUAL \<equiv> 0xa2"
abbreviation (input) OP_MIN :: opcodetype where "OP_MIN \<equiv> 0xa3"
abbreviation (input) OP_MAX :: opcodetype where "OP_MAX \<equiv> 0xa4"
abbreviation (input) OP_WITHIN :: opcodetype where "OP_WITHIN \<equiv> 0xa5"
abbreviation (input) OP_RIPEMD160 :: opcodetype where "OP_RIPEMD160 \<equiv> 0xa6"
abbreviation (input) OP_SHA1 :: opcodetype where "OP_SHA1 \<equiv> 0xa7"
abbreviation (input) OP_SHA256 :: opcodetype where "OP_SHA256 \<equiv> 0xa8"
abbreviation (input) OP_HASH160 :: opcodetype where "OP_HASH160 \<equiv> 0xa9"
abbreviation (input) OP_HASH256 :: opcodetype where "OP_HASH256 \<equiv> 0xaa"
abbreviation (input) OP_CODESEPARATOR :: opcodetype where "OP_CODESEPARATOR \<equiv> 0xab"
abbreviation (input) OP_CHECKSIG :: opcodetype where "OP_CHECKSIG \<equiv> 0xac"
abbreviation (input) OP_CHECKSIGVERIFY :: opcodetype where "OP_CHECKSIGVERIFY \<equiv> 0xad"
abbreviation (input) OP_CHECKMULTISIG :: opcodetype where "OP_CHECKMULTISIG \<equiv> 0xae"
abbreviation (input) OP_CHECKMULTISIGVERIFY :: opcodetype where "OP_CHECKMULTISIGVERIFY \<equiv> 0xaf"
abbreviation (input) OP_NOP1 :: opcodetype where "OP_NOP1 \<equiv> 0xb0"
abbreviation (input) OP_CHECKLOCKTIMEVERIFY :: opcodetype where "OP_CHECKLOCKTIMEVERIFY \<equiv> 0xb1"
abbreviation (input) OP_NOP2 :: opcodetype where "OP_NOP2 \<equiv> OP_CHECKLOCKTIMEVERIFY"
abbreviation (input) OP_CHECKSEQUENCEVERIFY :: opcodetype where "OP_CHECKSEQUENCEVERIFY \<equiv> 0xb2"
abbreviation (input) OP_NOP3 :: opcodetype where "OP_NOP3 \<equiv> OP_CHECKSEQUENCEVERIFY"
abbreviation (input) OP_NOP4 :: opcodetype where "OP_NOP4 \<equiv> 0xb3"
abbreviation (input) OP_NOP5 :: opcodetype where "OP_NOP5 \<equiv> 0xb4"
abbreviation (input) OP_NOP6 :: opcodetype where "OP_NOP6 \<equiv> 0xb5"
abbreviation (input) OP_NOP7 :: opcodetype where "OP_NOP7 \<equiv> 0xb6"
abbreviation (input) OP_NOP8 :: opcodetype where "OP_NOP8 \<equiv> 0xb7"
abbreviation (input) OP_NOP9 :: opcodetype where "OP_NOP9 \<equiv> 0xb8"
abbreviation (input) OP_NOP10 :: opcodetype where "OP_NOP10 \<equiv> 0xb9"
abbreviation (input) OP_INVALIDOPCODE :: opcodetype where "OP_INVALIDOPCODE \<equiv> 0xff"

definition GetOpName_cases :: "(opcodetype \<times> string) list" where
  "GetOpName_cases =
    [(OP_0, ''0''),
     (OP_PUSHDATA1, ''OP_PUSHDATA1''),
     (OP_PUSHDATA2, ''OP_PUSHDATA2''),
     (OP_PUSHDATA4, ''OP_PUSHDATA4''),
     (OP_1NEGATE, ''-1''),
     (OP_RESERVED, ''OP_RESERVED''),
     (OP_1, ''1''),
     (OP_2, ''2''),
     (OP_3, ''3''),
     (OP_4, ''4''),
     (OP_5, ''5''),
     (OP_6, ''6''),
     (OP_7, ''7''),
     (OP_8, ''8''),
     (OP_9, ''9''),
     (OP_10, ''10''),
     (OP_11, ''11''),
     (OP_12, ''12''),
     (OP_13, ''13''),
     (OP_14, ''14''),
     (OP_15, ''15''),
     (OP_16, ''16''),
     (OP_NOP, ''OP_NOP''),
     (OP_VER, ''OP_VER''),
     (OP_IF, ''OP_IF''),
     (OP_NOTIF, ''OP_NOTIF''),
     (OP_VERIF, ''OP_VERIF''),
     (OP_VERNOTIF, ''OP_VERNOTIF''),
     (OP_ELSE, ''OP_ELSE''),
     (OP_ENDIF, ''OP_ENDIF''),
     (OP_VERIFY, ''OP_VERIFY''),
     (OP_RETURN, ''OP_RETURN''),
     (OP_TOALTSTACK, ''OP_TOALTSTACK''),
     (OP_FROMALTSTACK, ''OP_FROMALTSTACK''),
     (OP_2DROP, ''OP_2DROP''),
     (OP_2DUP, ''OP_2DUP''),
     (OP_3DUP, ''OP_3DUP''),
     (OP_2OVER, ''OP_2OVER''),
     (OP_2ROT, ''OP_2ROT''),
     (OP_2SWAP, ''OP_2SWAP''),
     (OP_IFDUP, ''OP_IFDUP''),
     (OP_DEPTH, ''OP_DEPTH''),
     (OP_DROP, ''OP_DROP''),
     (OP_DUP, ''OP_DUP''),
     (OP_NIP, ''OP_NIP''),
     (OP_OVER, ''OP_OVER''),
     (OP_PICK, ''OP_PICK''),
     (OP_ROLL, ''OP_ROLL''),
     (OP_ROT, ''OP_ROT''),
     (OP_SWAP, ''OP_SWAP''),
     (OP_TUCK, ''OP_TUCK''),
     (OP_CAT, ''OP_CAT''),
     (OP_SUBSTR, ''OP_SUBSTR''),
     (OP_LEFT, ''OP_LEFT''),
     (OP_RIGHT, ''OP_RIGHT''),
     (OP_SIZE, ''OP_SIZE''),
     (OP_INVERT, ''OP_INVERT''),
     (OP_AND, ''OP_AND''),
     (OP_OR, ''OP_OR''),
     (OP_XOR, ''OP_XOR''),
     (OP_EQUAL, ''OP_EQUAL''),
     (OP_EQUALVERIFY, ''OP_EQUALVERIFY''),
     (OP_RESERVED1, ''OP_RESERVED1''),
     (OP_RESERVED2, ''OP_RESERVED2''),
     (OP_1ADD, ''OP_1ADD''),
     (OP_1SUB, ''OP_1SUB''),
     (OP_2MUL, ''OP_2MUL''),
     (OP_2DIV, ''OP_2DIV''),
     (OP_NEGATE, ''OP_NEGATE''),
     (OP_ABS, ''OP_ABS''),
     (OP_NOT, ''OP_NOT''),
     (OP_0NOTEQUAL, ''OP_0NOTEQUAL''),
     (OP_ADD, ''OP_ADD''),
     (OP_SUB, ''OP_SUB''),
     (OP_MUL, ''OP_MUL''),
     (OP_DIV, ''OP_DIV''),
     (OP_MOD, ''OP_MOD''),
     (OP_LSHIFT, ''OP_LSHIFT''),
     (OP_RSHIFT, ''OP_RSHIFT''),
     (OP_BOOLAND, ''OP_BOOLAND''),
     (OP_BOOLOR, ''OP_BOOLOR''),
     (OP_NUMEQUAL, ''OP_NUMEQUAL''),
     (OP_NUMEQUALVERIFY, ''OP_NUMEQUALVERIFY''),
     (OP_NUMNOTEQUAL, ''OP_NUMNOTEQUAL''),
     (OP_LESSTHAN, ''OP_LESSTHAN''),
     (OP_GREATERTHAN, ''OP_GREATERTHAN''),
     (OP_LESSTHANOREQUAL, ''OP_LESSTHANOREQUAL''),
     (OP_GREATERTHANOREQUAL, ''OP_GREATERTHANOREQUAL''),
     (OP_MIN, ''OP_MIN''),
     (OP_MAX, ''OP_MAX''),
     (OP_WITHIN, ''OP_WITHIN''),
     (OP_RIPEMD160, ''OP_RIPEMD160''),
     (OP_SHA1, ''OP_SHA1''),
     (OP_SHA256, ''OP_SHA256''),
     (OP_HASH160, ''OP_HASH160''),
     (OP_HASH256, ''OP_HASH256''),
     (OP_CODESEPARATOR, ''OP_CODESEPARATOR''),
     (OP_CHECKSIG, ''OP_CHECKSIG''),
     (OP_CHECKSIGVERIFY, ''OP_CHECKSIGVERIFY''),
     (OP_CHECKMULTISIG, ''OP_CHECKMULTISIG''),
     (OP_CHECKMULTISIGVERIFY, ''OP_CHECKMULTISIGVERIFY''),
     (OP_NOP1, ''OP_NOP1''),
     (OP_CHECKLOCKTIMEVERIFY, ''OP_CHECKLOCKTIMEVERIFY''),
     (OP_CHECKSEQUENCEVERIFY, ''OP_CHECKSEQUENCEVERIFY''),
     (OP_NOP4, ''OP_NOP4''),
     (OP_NOP5, ''OP_NOP5''),
     (OP_NOP6, ''OP_NOP6''),
     (OP_NOP7, ''OP_NOP7''),
     (OP_NOP8, ''OP_NOP8''),
     (OP_NOP9, ''OP_NOP9''),
     (OP_NOP10, ''OP_NOP10''),
     (OP_INVALIDOPCODE, ''OP_INVALIDOPCODE'')]"

definition GetOpName :: "opcodetype \<Rightarrow> string" where
  "GetOpName opcode = (case map_of GetOpName_cases opcode of Some name \<Rightarrow> name | None \<Rightarrow> ''OP_UNKNOWN'')"

definition MAX_OPCODE :: opcodetype where
  "MAX_OPCODE = OP_NOP10"

definition MAX_SCRIPT_ELEMENT_SIZE :: nat where
  "MAX_SCRIPT_ELEMENT_SIZE = 520"

definition MAX_OPS_PER_SCRIPT :: int where
  "MAX_OPS_PER_SCRIPT = 201"

definition MAX_PUBKEYS_PER_MULTISIG :: int where
  "MAX_PUBKEYS_PER_MULTISIG = 20"

definition MAX_SCRIPT_SIZE :: nat where
  "MAX_SCRIPT_SIZE = 10000"

definition MAX_STACK_SIZE :: nat where
  "MAX_STACK_SIZE = 1000"

section \<open>Script numbers\<close>

function CScriptNum_serialize_loop :: "u64 \<Rightarrow> bytes" where
  "CScriptNum_serialize_loop absvalue =
     (if absvalue \<noteq> 0 then ucast (absvalue AND 0xFF) # CScriptNum_serialize_loop (drop_bit 8 absvalue) else [])"
  by pat_completeness auto
termination
proof (relation "measure unat", goal_cases)
  case (2 v)
  then have "0 < unat v" by (simp add: unat_gt_0)
  moreover have "unat (drop_bit 8 v) = unat v div 256"
    by (simp only: unat_drop_bit_eq) (simp add: drop_bit_eq_div)
  ultimately show ?case by simp
qed simp

declare CScriptNum_serialize_loop.simps [simp del]

definition CScriptNum_serialize :: "int \<Rightarrow> bytes" where
  "CScriptNum_serialize val =
     (if val = 0 then []
      else let neg = val < 0;
               absvalue = word_of_int (if neg then - val else val) :: u64;
               result = CScriptNum_serialize_loop absvalue
           in if last result AND 0x80 \<noteq> 0 then result @ [if neg then 0x80 else 0]
              else if neg then butlast result @ [last result OR 0x80]
              else result)"

primrec set_vch_loop :: "bytes \<Rightarrow> nat \<Rightarrow> u64 \<Rightarrow> u64" where
  "set_vch_loop [] i result = result"
| "set_vch_loop (b # vch) i result = set_vch_loop vch (Suc i) (result OR push_bit (8 * i) (ucast b))"

definition CScriptNum_set_vch :: "bytes \<Rightarrow> int" where
  "CScriptNum_set_vch vch =
     (if vch = [] then 0
      else let result = set_vch_loop vch 0 0
           in if last vch AND 0x80 \<noteq> 0
              then - sint (result AND NOT (push_bit (8 * (length vch - 1)) 0x80))
              else sint result)"

text \<open>The constructor throws \<open>scriptnum_error\<close>, which is \<open>None\<close> here.\<close>

definition CScriptNum :: "bytes \<Rightarrow> bool \<Rightarrow> nat \<Rightarrow> int option" where
  "CScriptNum vch fRequireMinimal nMaxNumSize =
     (if nMaxNumSize < length vch then None
      else if fRequireMinimal \<and> 0 < length vch \<and> last vch AND 0x7F = 0 \<and>
              (length vch \<le> 1 \<or> vch ! (length vch - 2) AND 0x80 = 0) then None
      else Some (CScriptNum_set_vch vch))"

definition nDefaultMaxNumSize :: nat where
  "nDefaultMaxNumSize = 4"

definition CScriptNum_getint :: "int \<Rightarrow> int" where
  "CScriptNum_getint m_value =
     (if 2147483647 < m_value then 2147483647 else if m_value < - 2147483648 then - 2147483648 else m_value)"

section \<open>Building and parsing scripts\<close>

text \<open>\<open>operator<<\<close> on a byte vector: the bytes it appends.\<close>

definition CScript_push :: "bytes \<Rightarrow> bytes" where
  "CScript_push b =
     (if length b < unat OP_PUSHDATA1 then [word_of_nat (length b)]
      else if length b \<le> 0xFF then [OP_PUSHDATA1, word_of_nat (length b)]
      else if length b \<le> 0xFFFF then OP_PUSHDATA2 # WriteLE16 (word_of_nat (length b))
      else OP_PUSHDATA4 # WriteLE32 (word_of_nat (length b))) @ b"

definition push_int64 :: "int \<Rightarrow> bytes" where
  "push_int64 n =
     (if n = - 1 \<or> (1 \<le> n \<and> n \<le> 16) then [word_of_int (n + (uint OP_1 - 1))]
      else if n = 0 then [OP_0]
      else CScript_push (CScriptNum_serialize n))"

text \<open>
  \<open>GetScriptOp\<close> returns whether it succeeded, the opcode, the pushed bytes and the iterator, which moves
  even when a truncated push makes it fail.
\<close>

definition GetScriptOp :: "bytes \<Rightarrow> bool \<times> opcodetype \<times> bytes \<times> bytes" where
  "GetScriptOp pc =
     (case pc of
        [] \<Rightarrow> (False, OP_INVALIDOPCODE, [], pc)
      | opcode # pc \<Rightarrow>
          if opcode \<le> OP_PUSHDATA4 then
            case (if opcode < OP_PUSHDATA1 then Inr (unat opcode, pc)
                  else if opcode = OP_PUSHDATA1 then
                    (if length pc < 1 then Inl pc else Inr (unat (hd pc), drop 1 pc))
                  else if opcode = OP_PUSHDATA2 then
                    (if length pc < 2 then Inl pc else Inr (unat (ReadLE16 pc), drop 2 pc))
                  else
                    (if length pc < 4 then Inl pc else Inr (unat (ReadLE32 pc), drop 4 pc))) of
              Inl pc \<Rightarrow> (False, OP_INVALIDOPCODE, [], pc)
            | Inr (nSize, pc) \<Rightarrow>
                if length pc < nSize then (False, OP_INVALIDOPCODE, [], pc)
                else (True, opcode, take nSize pc, drop nSize pc)
          else (True, opcode, [], pc))"

lemma GetScriptOp_progress: "GetScriptOp pc = (True, opcode, vch, pc') \<Longrightarrow> length pc' < length pc"
  by (auto simp: GetScriptOp_def split: list.splits if_splits sum.splits)

definition DecodeOP_N :: "opcodetype \<Rightarrow> nat option" where
  "DecodeOP_N opcode =
     (if opcode = OP_0 then Some 0
      else if OP_1 \<le> opcode \<and> opcode \<le> OP_16 then Some (unat opcode - (unat OP_1 - 1)) else None)"

definition EncodeOP_N :: "nat \<Rightarrow> opcodetype option" where
  "EncodeOP_N n = (if n \<le> 16 then Some (if n = 0 then OP_0 else OP_1 + word_of_nat n - 1) else None)"

function GetSigOpCount_loop :: "bool \<Rightarrow> bytes \<Rightarrow> opcodetype \<Rightarrow> nat \<Rightarrow> nat" where
  "GetSigOpCount_loop fAccurate pc lastOpcode n =
     (if pc = [] then n
      else case GetScriptOp pc of
        (ok, opcode, vch, pc') \<Rightarrow>
          if \<not> ok then n
          else let n = (if opcode = OP_CHECKSIG \<or> opcode = OP_CHECKSIGVERIFY then n + 1
                        else if opcode = OP_CHECKMULTISIG \<or> opcode = OP_CHECKMULTISIGVERIFY then
                          (if fAccurate \<and> OP_1 \<le> lastOpcode \<and> lastOpcode \<le> OP_16
                           then n + the (DecodeOP_N lastOpcode) else n + nat MAX_PUBKEYS_PER_MULTISIG)
                        else n)
               in GetSigOpCount_loop fAccurate pc' opcode n)"
  by pat_completeness auto
termination
  by (relation "measure (\<lambda>(fAccurate, pc, lastOpcode, n). length pc)") (auto dest: GetScriptOp_progress [OF sym])

declare GetSigOpCount_loop.simps [simp del]

definition GetSigOpCount :: "bytes \<Rightarrow> bool \<Rightarrow> nat" where
  "GetSigOpCount script fAccurate = GetSigOpCount_loop fAccurate script OP_INVALIDOPCODE 0"

definition IsPayToScriptHash :: "bytes \<Rightarrow> bool" where
  "IsPayToScriptHash script \<longleftrightarrow>
     length script = 23 \<and> script ! 0 = OP_HASH160 \<and> script ! 1 = 0x14 \<and> script ! 22 = OP_EQUAL"

definition IsPayToWitnessScriptHash :: "bytes \<Rightarrow> bool" where
  "IsPayToWitnessScriptHash script \<longleftrightarrow> length script = 34 \<and> script ! 0 = OP_0 \<and> script ! 1 = 0x20"

definition IsWitnessProgram :: "bytes \<Rightarrow> (nat \<times> bytes) option" where
  "IsWitnessProgram script =
     (if length script < 4 \<or> 42 < length script then None
      else if script ! 0 \<noteq> OP_0 \<and> (script ! 0 < OP_1 \<or> OP_16 < script ! 0) then None
      else if unat (script ! 1) + 2 = length script then Some (the (DecodeOP_N (script ! 0)), drop 2 script)
      else None)"

text \<open>The data of the last push of a script that only pushes; \<open>None\<close> for any other script.\<close>

function last_push_loop :: "bytes \<Rightarrow> bytes \<Rightarrow> bytes option" where
  "last_push_loop pc vData =
     (if pc = [] then Some vData
      else case GetScriptOp pc of
        (ok, opcode, vch, pc') \<Rightarrow>
          if \<not> ok then None else if OP_16 < opcode then None else last_push_loop pc' vch)"
  by pat_completeness auto
termination
  by (relation "measure (\<lambda>(pc, vData). length pc)") (auto dest: GetScriptOp_progress [OF sym])

declare last_push_loop.simps [simp del]

definition GetSigOpCount_P2SH :: "bytes \<Rightarrow> bytes \<Rightarrow> nat" where
  "GetSigOpCount_P2SH script scriptSig =
     (if \<not> IsPayToScriptHash script then GetSigOpCount script True
      else case last_push_loop scriptSig [] of None \<Rightarrow> 0 | Some vData \<Rightarrow> GetSigOpCount vData True)"

function IsPushOnly :: "bytes \<Rightarrow> bool" where
  "IsPushOnly pc =
     (if pc = [] then True
      else case GetScriptOp pc of
        (ok, opcode, vch, pc') \<Rightarrow> if \<not> ok then False else if OP_16 < opcode then False else IsPushOnly pc')"
  by pat_completeness auto
termination
  by (relation "measure length") (auto dest: GetScriptOp_progress [OF sym])

declare IsPushOnly.simps [simp del]

function HasValidOps :: "bytes \<Rightarrow> bool" where
  "HasValidOps it =
     (if it = [] then True
      else case GetScriptOp it of
        (ok, opcode, item, it') \<Rightarrow>
          if \<not> ok \<or> MAX_OPCODE < opcode \<or> MAX_SCRIPT_ELEMENT_SIZE < length item then False else HasValidOps it')"
  by pat_completeness auto
termination
  by (relation "measure length") (auto dest: GetScriptOp_progress [OF sym])

declare HasValidOps.simps [simp del]

definition IsUnspendable :: "bytes \<Rightarrow> bool" where
  "IsUnspendable script \<longleftrightarrow> (0 < length script \<and> hd script = OP_RETURN) \<or> MAX_SCRIPT_SIZE < length script"

section \<open>Script numbers are a canonical signed-magnitude encoding\<close>

text \<open>A number below \<open>2 ^ k\<close> and a multiple of \<open>2 ^ k\<close> share no bit.\<close>

lemma or_push_bit_add: "r < 2 ^ k \<Longrightarrow> r OR push_bit k a = r + 2 ^ k * a" for r a :: nat
proof -
  assume "r < 2 ^ k"
  then have "bit r n \<Longrightarrow> n < k" for n
    by (metis bit_take_bit_iff take_bit_nat_eq_self)
  then have "r OR push_bit k a = r + push_bit k a"
    by (intro disjunctive_add [symmetric]) (auto simp: bit_push_bit_iff dest!: leD)
  then show ?thesis by (simp add: push_bit_eq_mult mult.commute)
qed

text \<open>Sign-bit tests on a byte, as arithmetic on its value.\<close>

lemma u8_sign_bit: "t AND 0x80 = 0 \<longleftrightarrow> unat t < 128" for t :: u8
proof -
  have "unat (t AND 0x80) = unat t AND 2 ^ 7" by (simp add: unsigned_and_eq)
  then have "t AND 0x80 = 0 \<longleftrightarrow> \<not> bit (unat t) 7"
    by (metis and_exp_eq_0_iff_not_bit unsigned_eq_0_iff)
  moreover have "unat t < 256" using unsigned_less [of t, where 'a = nat] by simp
  then have "bit (unat t) 7 \<longleftrightarrow> \<not> unat t < 128"
    using le_div_geq [of 128 "unat t"] by (cases "unat t < 128") (simp_all add: bit_iff_odd)
  ultimately show ?thesis by blast
qed

lemma u8_low_bits: "unat (t AND 0x7F) = unat t mod 128" for t :: u8
proof -
  have "unat (t AND 0x7F) = unat t AND mask 7" by (simp add: unsigned_and_eq mask_eq_exp_minus_1)
  then show ?thesis by (simp add: take_bit_eq_mask [symmetric] take_bit_eq_mod)
qed

lemma u8_low_bits_0: "t AND 0x7F = 0 \<longleftrightarrow> t = 0 \<or> t = 0x80" for t :: u8
proof -
  have "t AND 0x7F = 0 \<longleftrightarrow> unat t mod 128 = 0"
    using u8_low_bits [of t] by (metis unsigned_eq_0_iff)
  moreover have "unat t < 256" using unsigned_less [of t, where 'a = nat] by simp
  moreover have "t = 0 \<longleftrightarrow> unat t = 0" "t = 0x80 \<longleftrightarrow> unat t = 128" by (simp_all add: word_unat_eq_iff)
  moreover have "unat t mod 128 = (if unat t < 128 then unat t else unat t - 128)"
    using \<open>unat t < 256\<close> by (simp add: mod_if)
  ultimately show ?thesis by auto
qed

lemma unat_set_sign_bit: "unat t < 128 \<Longrightarrow> unat (t OR 0x80) = unat t + 128" for t :: u8
proof -
  assume *: "unat t < 128"
  have "unat (t OR 0x80) = unat t OR push_bit 7 1" by (simp add: unsigned_or_eq)
  also have "\<dots> = unat t + 2 ^ 7 * 1" using * by (intro or_push_bit_add) simp
  finally show ?thesis by simp
qed

lemma u8_drop_sign: "unat t < 128 \<Longrightarrow> t AND 0x7F = t" for t :: u8
  by (simp add: word_unat_eq_iff u8_low_bits)

lemma u8_restore_sign: "\<not> unat t < 128 \<Longrightarrow> (t AND 0x7F) OR 0x80 = t" for t :: u8
proof -
  assume *: "\<not> unat t < 128"
  have "unat t < 256" using unsigned_less [of t, where 'a = nat] by simp
  with * have "unat t mod 128 = unat t - 128" by (simp add: le_mod_geq)
  then show ?thesis using * unat_set_sign_bit [of "t AND 0x7F"] by (simp add: word_unat_eq_iff u8_low_bits)
qed

lemma serialize_loop_wval:
  "\<lbrakk>length bs \<le> 8; bs = [] \<or> last bs \<noteq> 0\<rbrakk> \<Longrightarrow> CScriptNum_serialize_loop (word_of_nat (wval bs)) = bs"
proof (induction bs)
  case Nil
  then show ?case by (simp add: CScriptNum_serialize_loop.simps)
next
  case (Cons b bs)
  let ?w = "word_of_nat (wval (b # bs)) :: u64"
  have "wval (b # bs) < 2 ^ (8 * length (b # bs))" using wval_less [of "b # bs"] by simp
  also have "\<dots> \<le> 2 ^ 64" using Cons.prems(1) by (intro power_increasing) simp_all
  finally have w: "unat ?w = unat b + 256 * wval bs"
    by (simp only: unat_of_nat) simp
  have b: "unat b < 256" using unsigned_less [of b, where 'a = nat] by simp
  have nz: "?w \<noteq> 0"
  proof
    assume "?w = 0"
    with w have "wval (b # bs) = 0" by simp
    then show False using Cons.prems(2) last_in_set [of "b # bs"] by (auto simp: wval_eq_0_iff simp del: wval_Cons)
  qed
  have "unat (drop_bit 8 ?w) = wval bs"
    using b by (simp only: unat_drop_bit_eq w) (simp add: drop_bit_eq_div)
  then have "drop_bit 8 ?w = word_of_nat (wval bs)" by (metis word_of_nat_eq_iff of_nat_unat ucast_id)
  moreover have "ucast (?w AND 0xFF) = b"
  proof (rule word_unat_eq_iff [THEN iffD2])
    have "unat (?w AND 0xFF) = unat ?w AND mask 8" by (simp add: unsigned_and_eq mask_eq_exp_minus_1)
    then have "unat (?w AND 0xFF) = unat b"
      using b unfolding w by (simp add: take_bit_eq_mask [symmetric] take_bit_eq_mod)
    then show "unat (ucast (?w AND 0xFF) :: u8) = unat b" using b by (simp add: unat_ucast_small)
  qed
  ultimately show ?case
    using Cons nz by (subst CScriptNum_serialize_loop.simps) (auto split: if_splits)
qed

lemma wval_serialize_loop: "wval (CScriptNum_serialize_loop w) = unat w"
proof (induction w rule: CScriptNum_serialize_loop.induct)
  case (1 w)
  have "unat (ucast (w AND 0xFF) :: u8) = unat w mod 256"
  proof -
    have "unat (w AND 0xFF) = unat w AND mask 8" by (simp add: unsigned_and_eq mask_eq_exp_minus_1)
    then have "unat (w AND 0xFF) = unat w mod 256" by (simp add: take_bit_eq_mask [symmetric] take_bit_eq_mod)
    then show ?thesis by (simp add: unat_ucast_small)
  qed
  moreover have "unat (drop_bit 8 w) = unat w div 256"
    by (simp only: unat_drop_bit_eq) (simp add: drop_bit_eq_div)
  ultimately show ?case
    using 1 by (subst CScriptNum_serialize_loop.simps) simp
qed

lemma last_serialize_loop: "w \<noteq> 0 \<Longrightarrow> CScriptNum_serialize_loop w \<noteq> [] \<and> last (CScriptNum_serialize_loop w) \<noteq> 0"
proof (induction w rule: CScriptNum_serialize_loop.induct)
  case (1 w)
  show ?case
  proof (cases "drop_bit 8 w = 0")
    case True
    have "wval (CScriptNum_serialize_loop w) \<noteq> 0" using 1(2) by (simp add: wval_serialize_loop unat_eq_0)
    moreover have "CScriptNum_serialize_loop w = [ucast (w AND 0xFF)]"
      using True 1(2) by (subst CScriptNum_serialize_loop.simps) (simp add: CScriptNum_serialize_loop.simps)
    ultimately show ?thesis by (simp add: unat_eq_0)
  next
    case False
    then show ?thesis using 1 by (subst (1 2) CScriptNum_serialize_loop.simps) simp
  qed
qed

lemma set_vch_loop_wval:
  "i + length vch \<le> 8 \<Longrightarrow> r < 2 ^ (8 * i) \<Longrightarrow>
     set_vch_loop vch i (word_of_nat r) = word_of_nat (r + 2 ^ (8 * i) * wval vch)"
proof (induction vch arbitrary: i r)
  case Nil
  then show ?case by simp
next
  case (Cons b vch)
  have b: "unat b < 256" using unsigned_less [of b, where 'a = nat] by simp
  have "r + 2 ^ (8 * i) * unat b = r OR push_bit (8 * i) (unat b)"
    using Cons.prems(2) by (simp add: or_push_bit_add)
  then have "(word_of_nat r :: u64) OR push_bit (8 * i) (ucast b) = word_of_nat (r + 2 ^ (8 * i) * unat b)"
    by (simp only: of_nat_or_eq of_nat_push_bit) simp
  moreover have "r + 2 ^ (8 * i) * unat b < 2 ^ (8 * Suc i)"
  proof -
    have "2 ^ (8 * i) * (unat b + 1) \<le> (2 :: nat) ^ (8 * i) * 256" using b by (intro mult_le_mono2) simp
    then have "r + 2 ^ (8 * i) * unat b < 2 ^ (8 * i) * 256"
      using Cons.prems(2) unfolding distrib_left by linarith
    then show ?thesis by (simp add: power_add)
  qed
  ultimately show ?case
    using Cons.IH [of "Suc i" "r + 2 ^ (8 * i) * unat b"] Cons.prems(1)
    by (simp add: algebra_simps power_add)
qed

lemma unat_of_nat_wval: "length vch \<le> 8 \<Longrightarrow> unat (word_of_nat (wval vch) :: u64) = wval vch" for vch :: bytes
proof -
  assume "length vch \<le> 8"
  then have "(2 :: nat) ^ (8 * length vch) \<le> 2 ^ 64" by (intro power_increasing) simp_all
  then have "wval vch < 2 ^ 64" using wval_less [of vch] by simp
  then show ?thesis by (simp only: unat_of_nat) simp
qed

lemma clear_sign_bit:
  assumes "m < 2 ^ (k + 7)"
  shows "word_of_nat (m + 2 ^ k * 128) AND NOT (push_bit k 0x80) = (word_of_nat m :: u64)"
proof -
  have "m + 2 ^ k * 128 = m OR push_bit (k + 7) 1" using or_push_bit_add [OF assms, of 1] by (simp add: power_add)
  then have 1: "(word_of_nat (m + 2 ^ k * 128) :: u64) = word_of_nat m OR push_bit (k + 7) 1"
    by (simp only: of_nat_or_eq of_nat_push_bit) simp
  have "push_bit (k + 7) 1 = push_bit k (push_bit 7 1 :: u64)" by (simp only: push_bit_push_bit)
  then have 2: "push_bit k 0x80 = (push_bit (k + 7) 1 :: u64)" by simp
  have "bit m n \<Longrightarrow> n < k + 7" for n
    using assms by (metis bit_take_bit_iff take_bit_nat_eq_self)
  then show ?thesis
    unfolding 1 2 by (intro bit_eqI) (auto simp: bit_simps bit_of_nat_iff)
qed

text \<open>The value of a non-empty encoding: the top bit of the last byte is the sign.\<close>

lemma set_vch_value:
  assumes "length xs < 8"
  shows "CScriptNum_set_vch (xs @ [t]) =
    (if unat t < 128 then 1 else - 1) * int (wval xs + 2 ^ (8 * length xs) * (unat t mod 128))"
proof -
  let ?k = "8 * length xs"
  have t: "unat t < 256" using unsigned_less [of t, where 'a = nat] by simp
  have xs: "wval xs < 2 ^ ?k" using wval_less [of xs] by simp
  have k56: "(2 :: nat) ^ ?k \<le> 2 ^ 56" using assms by (intro power_increasing) simp_all
  have loop: "set_vch_loop (xs @ [t]) 0 0 = word_of_nat (wval xs + 2 ^ ?k * unat t)"
    using set_vch_loop_wval [of 0 "xs @ [t]" 0] assms by (simp add: wval_append)
  have mag: "wval xs + 2 ^ ?k * u < 2 ^ 63" if "u < 128" for u
  proof -
    have "2 ^ ?k * (u + 1) \<le> 2 ^ ?k * 128" using that by (intro mult_le_mono2) simp
    moreover have "(2 :: nat) ^ ?k * 128 \<le> 2 ^ 63" using mult_le_mono1 [OF k56, of 128] by simp
    ultimately show ?thesis using xs unfolding distrib_left by linarith
  qed
  have sgn: "sint (word_of_nat m :: u64) = int m" if "m < 2 ^ 63" for m
    using that by (simp add: signed_of_nat signed_take_bit_int_eq_self)
  show ?thesis
  proof (cases "unat t < 128")
    case True
    then show ?thesis
      using u8_sign_bit [of t] loop sgn [OF mag [OF True]] by (simp add: CScriptNum_set_vch_def)
  next
    case False
    let ?m = "wval xs + 2 ^ ?k * (unat t - 128)"
    have u: "unat t - 128 < 128" "unat t mod 128 = unat t - 128" "unat t = 128 + (unat t - 128)"
      using t False by (simp_all add: mod_if)
    have m63: "?m < 2 ^ 63" by (rule mag [OF u(1)])
    have "2 ^ ?k * (unat t - 128 + 1) \<le> 2 ^ ?k * (128 :: nat)" using u(1) by (intro mult_le_mono2) simp
    then have "?m < 2 ^ ?k * 128" using xs unfolding distrib_left by linarith
    then have "?m < 2 ^ (?k + 7)" by (simp add: power_add)
    moreover have "wval xs + 2 ^ ?k * unat t = ?m + 2 ^ ?k * 128"
      by (subst u(3)) (simp add: distrib_left)
    ultimately have "word_of_nat (wval xs + 2 ^ ?k * unat t) AND NOT (push_bit ?k 0x80) = (word_of_nat ?m :: u64)"
      by (simp only: clear_sign_bit)
    then show ?thesis
      using u8_sign_bit [of t] loop sgn [OF m63] False u(2) by (simp add: CScriptNum_set_vch_def)
  qed
qed

lemma sign_of_magnitude: "n = (if b then 1 else - 1) * int m \<Longrightarrow> m \<noteq> 0 \<Longrightarrow> n < 0 \<longleftrightarrow> \<not> b"
  by auto

lemma wval_snoc: "wval (xs @ [t]) = wval xs + 2 ^ (8 * length xs) * unat t" for t :: u8
  by (simp add: wval_append)

lemma wval_snoc_nonzero: "t \<noteq> 0 \<Longrightarrow> wval (xs @ [t]) \<noteq> 0" for t :: u8
  by (simp add: wval_snoc unat_eq_0)

text \<open>The bytes written for a non-zero number with magnitude \<open>wval (xs @ [t])\<close>, split at the sign bit.\<close>

lemma serialize_digits:
  assumes "length xs < 8" "t \<noteq> 0" "\<bar>n\<bar> = int (wval (xs @ [t]))" "\<bar>n\<bar> < 2 ^ 63"
  shows "CScriptNum_serialize n =
    (if unat t < 128 then xs @ [if n < 0 then t OR 0x80 else t] else xs @ [t, if n < 0 then 0x80 else 0])"
proof -
  have "n \<noteq> 0" using assms(3) wval_snoc_nonzero [OF assms(2), of xs] by linarith
  moreover have "(if n < 0 then - n else n) = int (wval (xs @ [t]))" using assms(3) by (simp only: abs_if)
  then have "CScriptNum_serialize_loop (word_of_int (if n < 0 then - n else n)) = xs @ [t]"
    using serialize_loop_wval [of "xs @ [t]"] assms(1,2) by (simp only: of_int_of_nat_eq) simp
  ultimately show ?thesis
    using assms(1,2) u8_sign_bit [of t]
    by (simp only: CScriptNum_serialize_def Let_def if_False last_snoc butlast_snoc) simp
qed

lemma serialize_magnitude:
  assumes "n \<noteq> 0" "\<bar>n\<bar> < 2 ^ 63"
  obtains xs :: bytes and t where "length xs < 8" "t \<noteq> 0" "\<bar>n\<bar> = int (wval (xs @ [t]))" "length xs = 7 \<longrightarrow> unat t < 128"
proof -
  let ?w = "word_of_nat (nat \<bar>n\<bar>) :: u64"
  let ?ds = "CScriptNum_serialize_loop ?w"
  have w: "unat ?w = nat \<bar>n\<bar>" using assms(2) by (simp only: unat_of_nat) (simp add: nat_less_iff)
  then have "?w \<noteq> 0" using assms(1) by (auto simp: unat_eq_0 [symmetric] simp del: unat_eq_0)
  then obtain xs t where ds: "?ds = xs @ [t]" "t \<noteq> 0"
    using last_serialize_loop [of ?w] by (metis append_butlast_last_id)
  have val: "nat \<bar>n\<bar> = wval (xs @ [t])" using wval_serialize_loop [of ?w] unfolding w ds(1) by (rule sym)
  have small: "2 ^ (8 * length xs) * unat t < 2 ^ 63"
    using val assms(2) by (simp add: wval_append)
  have "1 \<le> unat t" using ds(2) by (simp add: Suc_le_eq unat_gt_0)
  have "length xs < 8"
  proof (rule ccontr)
    assume "\<not> ?thesis"
    then have "(2 :: nat) ^ 64 \<le> 2 ^ (8 * length xs)" by (intro power_increasing) simp_all
    also have "\<dots> \<le> 2 ^ (8 * length xs) * unat t" using \<open>1 \<le> unat t\<close> by simp
    finally show False using small by simp
  qed
  moreover have "length xs = 7 \<Longrightarrow> unat t < 128" using small by simp
  ultimately show thesis using that [of xs t] ds(2) val by linarith
qed

lemma CScriptNum_serialize_roundtrip:
  assumes "\<bar>n\<bar> < 2 ^ 63"
  shows "CScriptNum (CScriptNum_serialize n) True 8 = Some n"
proof (cases "n = 0")
  case True
  then show ?thesis by (simp add: CScriptNum_def CScriptNum_serialize_def CScriptNum_set_vch_def)
next
  case False
  from serialize_magnitude [OF this assms] obtain xs :: bytes and t
    where xt: "length xs < 8" "t \<noteq> 0" "\<bar>n\<bar> = int (wval (xs @ [t]))" "length xs = 7 \<longrightarrow> unat t < 128" .
  note ser = serialize_digits [OF xt(1-3) assms]
  have t256: "unat t < 256" using unsigned_less [of t, where 'a = nat] by simp
  show ?thesis
  proof (cases "unat t < 128")
    case True
    have nz: "(if n < 0 then t OR 0x80 else t) AND 0x7F \<noteq> 0"
      using True xt(2) unat_set_sign_bit [OF True] u8_low_bits_0 
      by (auto simp: word_unat_eq_iff)
    have "CScriptNum_set_vch (xs @ [if n < 0 then t OR 0x80 else t]) = n"
      using True unat_set_sign_bit [OF True] xt(3)
      by (simp only: set_vch_value [OF xt(1)] wval_snoc split: if_split) auto
    then show ?thesis using ser True nz xt(1) by (simp add: CScriptNum_def)
  next
    case False
    then have len: "length (xs @ [t]) < 8" using xt(1,4) by (cases "length xs = 7") auto
    have "CScriptNum_set_vch ((xs @ [t]) @ [if n < 0 then 0x80 else 0]) = n"
      using xt(3) by (subst set_vch_value [OF len]) (cases "n < 0"; simp)
    then show ?thesis
      using ser False len u8_sign_bit [of t] by (auto simp: CScriptNum_def nth_append)
  qed
qed

lemma CScriptNum_parse_roundtrip:
  assumes "CScriptNum vch True 8 = Some n"
  shows "CScriptNum_serialize n = vch \<and> \<bar>n\<bar> < 2 ^ 63"
proof (cases vch rule: rev_cases)
  case Nil
  then show ?thesis using assms by (auto simp: CScriptNum_def CScriptNum_serialize_def CScriptNum_set_vch_def)
next
  case (snoc xs t)
  have len: "length xs < 8" and n: "n = CScriptNum_set_vch (xs @ [t])"
    and minimal: "t AND 0x7F = 0 \<Longrightarrow> xs \<noteq> [] \<and> \<not> unat (last xs) < 128"
    using assms snoc u8_sign_bit [of "last xs"]
    by (auto simp: CScriptNum_def nth_append last_conv_nth split: if_splits)
  have xs: "wval xs < 2 ^ (8 * length xs)" using wval_less [of xs] by simp
  have t256: "unat t < 256" using unsigned_less [of t, where 'a = nat] by simp
  let ?m = "wval xs + 2 ^ (8 * length xs) * (unat t mod 128)"
  have n_val: "n = (if unat t < 128 then 1 else - 1) * int ?m" using n set_vch_value [OF len, of t] by simp
  then have abs_n: "\<bar>n\<bar> = int ?m" by (simp only: abs_mult abs_of_nat) simp
  have "2 ^ (8 * length xs) * (unat t mod 128 + 1) \<le> 2 ^ (8 * length xs) * (128 :: nat)"
    by (intro mult_le_mono2) (simp add: Suc_le_eq)
  moreover have "(2 :: nat) ^ (8 * length xs) * 128 \<le> 2 ^ 56 * 128"
    using len by (intro mult_le_mono1 power_increasing) simp_all
  ultimately have "?m < 2 ^ 56 * 128" using xs unfolding distrib_left by linarith
  then have "int ?m < int (2 ^ 63)" by (simp only: of_nat_less_iff) simp
  then have bound: "\<bar>n\<bar> < 2 ^ 63" unfolding abs_n by simp
  show ?thesis
  proof (cases "t AND 0x7F = 0")
    case True
    then obtain ys s where ys: "xs = ys @ [s]" "\<not> unat s < 128" using minimal by (metis append_butlast_last_id last_snoc)
    have t: "t = 0 \<or> t = 0x80" using True u8_low_bits_0 by blast
    have s: "s \<noteq> 0" using ys(2) by auto
    have abs: "\<bar>n\<bar> = int (wval (ys @ [s]))" using abs_n t ys(1) by auto
    then have "n \<noteq> 0" using wval_snoc_nonzero [OF s, of ys] by linarith
    then have "n < 0 \<longleftrightarrow> t = 0x80" using n_val t by auto
    moreover have "length ys < 8" using len ys(1) by simp
    ultimately show ?thesis
      using serialize_digits [OF _ s abs bound] ys t bound snoc by auto
  next
    case False
    let ?t = "t AND 0x7F"
    have ut: "unat ?t = unat t mod 128" by (rule u8_low_bits)
    have abs: "\<bar>n\<bar> = int (wval (xs @ [?t]))" unfolding wval_snoc ut by (rule abs_n)
    have "?m \<noteq> 0" using wval_snoc_nonzero [OF False, of xs] unfolding wval_snoc ut .
    then have "n < 0 \<longleftrightarrow> \<not> unat t < 128" using sign_of_magnitude [OF n_val] by blast
    moreover have "(if unat t < 128 then ?t else ?t OR 0x80) = t"
      using u8_restore_sign [of t] u8_drop_sign [of t] by simp
    moreover have "unat ?t < 128" using ut by simp
    ultimately show ?thesis
      using serialize_digits [OF len False abs bound] snoc bound by (cases "unat t < 128") simp_all
  qed
qed


section \<open>Pushing and parsing\<close>

text \<open>What \<open>operator<<\<close> appends for a byte vector is read back by \<open>GetScriptOp\<close> as one push of it.\<close>

lemma GetScriptOp_push:
  assumes "length b < 2 ^ 32"
  shows "\<exists>opcode. opcode \<le> OP_PUSHDATA4 \<and> GetScriptOp (CScript_push b @ rest) = (True, opcode, b, rest)"
proof -
  consider "length b < 76" | "76 \<le> length b" "length b \<le> 255" | "256 \<le> length b" "length b \<le> 65535" | "65536 \<le> length b"
    by linarith
  then show ?thesis
  proof cases
    case 1
    then have "unat (word_of_nat (length b) :: u8) = length b" by (simp add: unat_of_nat)
    then show ?thesis
      using 1 by (intro exI [of _ "word_of_nat (length b)"])
        (auto simp: CScript_push_def GetScriptOp_def word_le_nat_alt word_less_nat_alt)
  next
    case 2
    then have "unat (word_of_nat (length b) :: u8) = length b" by (simp add: unat_of_nat)
    then show ?thesis using 2 by (intro exI [of _ OP_PUSHDATA1]) (simp add: CScript_push_def GetScriptOp_def)
  next
    case 3
    then have "unat (word_of_nat (length b) :: u16) = length b" by (simp add: unat_of_nat)
    then show ?thesis using 3 by (intro exI [of _ OP_PUSHDATA2]) (simp add: CScript_push_def GetScriptOp_def)
  next
    case 4
    then have "unat (word_of_nat (length b) :: u32) = length b" using assms by (simp add: unat_of_nat)
    then show ?thesis using 4 by (intro exI [of _ OP_PUSHDATA4]) (simp add: CScript_push_def GetScriptOp_def)
  qed
qed

text \<open>A truncated script is refused: whatever \<open>GetScriptOp\<close> accepts is a prefix of the input.\<close>

lemma GetScriptOp_consumes:
  assumes "GetScriptOp pc = (True, opcode, vch, pc')"
  shows "\<exists>hdr. pc = opcode # hdr @ vch @ pc' \<and> (OP_PUSHDATA4 < opcode \<longrightarrow> hdr = [] \<and> vch = [])"
proof (cases pc)
  case Nil
  then show ?thesis using assms by (simp add: GetScriptOp_def)
next
  case (Cons c rest)
  have split: "rest = take k rest @ take n (drop k rest) @ drop n (drop k rest)" for k n
    by (metis append_take_drop_id)
  consider "\<not> c \<le> OP_PUSHDATA4" | "c < OP_PUSHDATA1" | "c = OP_PUSHDATA1" | "c = OP_PUSHDATA2" | "c \<le> OP_PUSHDATA4" "\<not> c < OP_PUSHDATA1" "c \<noteq> OP_PUSHDATA1" "c \<noteq> OP_PUSHDATA2"
    by blast
  then show ?thesis
  proof cases
    case 1
    then show ?thesis using assms Cons by (auto simp: GetScriptOp_def)
  next
    case 2
    then show ?thesis using assms Cons split [of 0 "unat c"]
      by (intro exI [of _ "[]"]) (auto simp: GetScriptOp_def split: if_splits)
  next
    case 3
    then show ?thesis using assms Cons split [of 1 "unat (hd rest)"]
      by (intro exI [of _ "take 1 rest"]) (auto simp: GetScriptOp_def split: if_splits)
  next
    case 4
    then show ?thesis using assms Cons split [of 2 "unat (ReadLE16 rest)"]
      by (intro exI [of _ "take 2 rest"]) (auto simp: GetScriptOp_def split: if_splits)
  next
    case 5
    then show ?thesis using assms Cons split [of 4 "unat (ReadLE32 rest)"]
      by (intro exI [of _ "take 4 rest"]) (auto simp: GetScriptOp_def split: if_splits)
  qed
qed

lemma DecodeOP_N_le: "DecodeOP_N opcode = Some n \<Longrightarrow> n \<le> 16"
  by (auto simp: DecodeOP_N_def word_le_nat_alt split: if_splits)

lemma DecodeOP_N_EncodeOP_N: "EncodeOP_N n = Some opcode \<Longrightarrow> DecodeOP_N opcode = Some n"
proof -
  assume *: "EncodeOP_N n = Some opcode"
  then have n: "n \<le> 16" by (simp add: EncodeOP_N_def split: if_splits)
  then have "unat (word_of_nat (80 + n) :: u8) = 80 + n" by (simp only: unat_of_nat) simp
  moreover have "OP_1 + word_of_nat n - 1 = (word_of_nat (80 + n) :: u8)" by simp
  ultimately show ?thesis
    using * n by (auto simp: EncodeOP_N_def DecodeOP_N_def word_le_nat_alt word_unat_eq_iff simp del: of_nat_add split: if_splits)
qed

text \<open>Signature operations: at most twenty for every byte of script, and accurate counting counts no more.\<close>

lemma GetSigOpCount_loop_bound: "GetSigOpCount_loop acc pc lst n \<le> n + 20 * length pc"
proof (induction acc pc lst n rule: GetSigOpCount_loop.induct)
  case (1 acc pc lst n)
  obtain ok opcode vch pc' where op: "GetScriptOp pc = (ok, opcode, vch, pc')" by (cases "GetScriptOp pc")
  show ?case
  proof (cases "pc = [] \<or> \<not> ok")
    case True
    then show ?thesis using op by (subst GetSigOpCount_loop.simps) auto
  next
    case False
    let ?n = "(if opcode = OP_CHECKSIG \<or> opcode = OP_CHECKSIGVERIFY then n + 1
                        else if opcode = OP_CHECKMULTISIG \<or> opcode = OP_CHECKMULTISIGVERIFY then
                          (if acc \<and> OP_1 \<le> lst \<and> lst \<le> OP_16
                           then n + the (DecodeOP_N lst) else n + nat MAX_PUBKEYS_PER_MULTISIG)
                        else n)"
    have "?n \<le> n + 20"
      by (auto simp: MAX_PUBKEYS_PER_MULTISIG_def DecodeOP_N_def word_le_nat_alt)
    moreover have "length pc' < length pc" using op False GetScriptOp_progress [of pc opcode vch pc'] by simp
    moreover have "GetSigOpCount_loop acc pc' opcode ?n \<le> ?n + 20 * length pc'"
      using 1 [OF _ op [symmetric]] op False by simp
    moreover have "GetSigOpCount_loop acc pc lst n = GetSigOpCount_loop acc pc' opcode ?n"
      using op False by (subst GetSigOpCount_loop.simps) simp
    ultimately show ?thesis by linarith
  qed
qed

lemma IsPushOnly_last_push: "IsPushOnly pc \<longleftrightarrow> last_push_loop pc vData \<noteq> None"
proof (induction pc vData rule: last_push_loop.induct)
  case (1 pc vData)
  then show ?case by (subst last_push_loop.simps, subst IsPushOnly.simps) (auto split: prod.splits)
qed


section \<open>Properties\<close>

text \<open>
  C21. Script numbers have exactly one accepted encoding: with the minimality check on, a byte vector of
  at most eight bytes is read as \<open>n\<close> exactly when it is what \<open>serialize\<close> writes for \<open>n\<close>, and the
  numbers so written are those of magnitude below \<open>2 ^ 63\<close>.
\<close>

theorem CScriptNum_canonical:
  "CScriptNum vch True 8 = Some n \<longleftrightarrow> CScriptNum_serialize n = vch \<and> \<bar>n\<bar> < 2 ^ 63"
  using CScriptNum_serialize_roundtrip CScriptNum_parse_roundtrip by blast

text \<open>
  C34. Parsing inverts pushing: the bytes appended for a vector shorter than \<open>2 ^ 32\<close> are read back as
  one push of that vector, whichever of the four length forms was chosen, and the iterator is left at
  the bytes that follow.
\<close>

theorem push_parse_roundtrip:
  assumes "length b < 2 ^ 32"
  shows "\<exists>opcode. GetScriptOp (CScript_push b @ rest) = (True, opcode, b, rest)"
  using GetScriptOp_push [OF assms] by blast

theorem push_parse_roundtrip_witness:
  "\<exists>opcode. GetScriptOp (CScript_push (replicate 300 7) @ [OP_CHECKSIG]) = (True, opcode, replicate 300 7, [OP_CHECKSIG])"
  by (rule push_parse_roundtrip) simp

text \<open>
  The number of signature operations counted in a script is at most twenty per byte, in both
  counting modes and for every byte string, so that it cannot exceed the 32-bit counter of the code on
  any script that fits in a message.
\<close>

theorem GetSigOpCount_bound: "GetSigOpCount script fAccurate \<le> 20 * length script"
  using GetSigOpCount_loop_bound [of fAccurate script OP_INVALIDOPCODE 0] by (simp add: GetSigOpCount_def)

end
