(* ===== verification/Sha1.thy ===== *)
theory Sha1
  imports Sha256_Cpu
begin

text \<open>
  SHA-1: \<^verbatim>\<open>src/sha1.cpp\<close>. As for SHA-256, the unrolled transformation is a list with one entry
  for each source line, and the reference is the compression function of FIPS 180-4. The class writes
  its input block by block; \<open>chunked_Write\<close> is that loop, which \<open>CSHA1\<close> and \<open>CRIPEMD160\<close> have in
  common apart from the transformation.
\<close>

section \<open>Writing block by block\<close>

function write_chunks :: "nat \<Rightarrow> ('s \<Rightarrow> bytes \<Rightarrow> 's) \<Rightarrow> 's hasher \<Rightarrow> bytes \<Rightarrow> 's hasher \<times> bytes" where
  "write_chunks B transform this data =
     (if 0 < B \<and> B \<le> length data
      then write_chunks B transform
             (this\<lparr>hs := transform (hs this) data, hbytes := hbytes this + word_of_nat B\<rparr>) (drop B data)
      else (this, data))"
  by pat_completeness auto
termination
  by (relation "measure (\<lambda>(B, transform, this, data). length data)") auto

declare write_chunks.simps [simp del]

definition chunked_Write :: "nat \<Rightarrow> ('s \<Rightarrow> bytes \<Rightarrow> 's) \<Rightarrow> 's hasher \<Rightarrow> bytes \<Rightarrow> 's hasher" where
  "chunked_Write B transform this data =
     (let len = length data;
          bufsize = unat (hbytes this) mod B;
          (this, data, bufsize) =
            (if bufsize \<noteq> 0 \<and> B \<le> bufsize + len then
               let buf = memcpy (hbuf this) bufsize (take (B - bufsize) data)
               in (this\<lparr>hbuf := buf, hbytes := hbytes this + word_of_nat (B - bufsize),
                        hs := transform (hs this) buf\<rparr>,
                   drop (B - bufsize) data, 0)
             else (this, data, bufsize));
          (this, data) = write_chunks B transform this data
      in if data \<noteq> [] then
           this\<lparr>hbuf := memcpy (hbuf this) bufsize data, hbytes := hbytes this + word_of_nat (length data)\<rparr>
         else this)"

lemma write_chunks_iter:
  "0 < B \<Longrightarrow> write_chunks B f st d =
     (st\<lparr>hs := iter_blocks B f (length d div B) (hs st) d, hbytes := hbytes st + word_of_nat (B * (length d div B))\<rparr>,
      drop (B * (length d div B)) d)"
proof (induction "length d div B" arbitrary: st d)
  case 0
  then have "length d < B" by (simp add: div_eq_0_iff)
  then show ?case by (subst write_chunks.simps) simp
next
  case (Suc n)
  then have len: "B \<le> length d" by (metis div_less not_less nat.distinct(1))
  have n: "n = length (drop B d) div B" using Suc(2,3) len by (simp add: le_div_geq)
  have "length d div B = Suc n" using Suc(2) by simp
  then show ?case
    using Suc(1) [OF n Suc(3)] len Suc(3) unfolding n [symmetric]
    by (subst write_chunks.simps) (simp add: algebra_simps)
qed

text \<open>The loop that processes one block at a time is the common form of \<open>Write\<close>.\<close>

lemma chunked_Write_stream:
  assumes "0 < B"
  shows "chunked_Write B f st d = stream_write B f st d"
proof -
  have tail: "(let (this, data) = write_chunks B f this data
      in if data \<noteq> [] then
           this\<lparr>hbuf := memcpy (hbuf this) r data, hbytes := hbytes this + word_of_nat (length data)\<rparr>
         else this) = stream_tail B f this data r" for this data r
    using assms by (simp add: stream_tail_def write_chunks_iter Let_def)
  show ?thesis
    unfolding chunked_Write_def stream_write_def Let_def [of "length d"] Let_def [of "unat _ mod _"]
    by (cases "unat (hbytes st) mod B \<noteq> 0 \<and> B \<le> unat (hbytes st) mod B + length d")
      (simp_all only: if_True if_False simp_thms Let_def [of "(_, _, _)"] Let_def [of "memcpy _ _ _"] prod.case tail)
qed

context block_function
begin

lemma chunked_Write_absorbs: "absorbed B f init st m \<Longrightarrow> absorbed B f init (chunked_Write B f st d) (m @ d)"
  using stream_write_absorbs B_pos by (simp add: chunked_Write_stream)

end

section \<open>The transformation\<close>

definition sha1_Round :: "u32 \<Rightarrow> u32 \<Rightarrow> u32 \<Rightarrow> u32 \<Rightarrow> u32 \<Rightarrow> u32 \<Rightarrow> u32 \<Rightarrow> u32 \<Rightarrow> u32 \<times> u32" where
  "sha1_Round a b c d e f k w =
     (let e = e + ((push_bit 5 a OR drop_bit 27 a) + f + k + w);
          b = push_bit 30 b OR drop_bit 2 b
      in (b, e))"

definition sha1_f1 :: "u32 \<Rightarrow> u32 \<Rightarrow> u32 \<Rightarrow> u32" where
  "sha1_f1 b c d = d XOR (b AND (c XOR d))"

definition sha1_f2 :: "u32 \<Rightarrow> u32 \<Rightarrow> u32 \<Rightarrow> u32" where
  "sha1_f2 b c d = b XOR c XOR d"

definition sha1_f3 :: "u32 \<Rightarrow> u32 \<Rightarrow> u32 \<Rightarrow> u32" where
  "sha1_f3 b c d = (b AND c) OR (d AND (b OR c))"

definition sha1_left :: "u32 \<Rightarrow> u32" where
  "sha1_left x = push_bit 1 x OR drop_bit 31 x"

definition sha1_Initialize :: "u32 list" where
  "sha1_Initialize = [0x67452301, 0xEFCDAB89, 0x98BADCFE, 0x10325476, 0xC3D2E1F0]"

definition sha1_k1 :: u32 where "sha1_k1 = 0x5A827999"
definition sha1_k2 :: u32 where "sha1_k2 = 0x6ED9EBA1"
definition sha1_k3 :: u32 where "sha1_k3 = 0x8F1BBCDC"
definition sha1_k4 :: u32 where "sha1_k4 = 0xCA62C1D6"

text \<open>
  A line is \<open>SRND regs f k act\<close>: the five registers in the order they are passed, the boolean function,
  which every line applies to the second, third and fourth of them, the constant, and the schedule word:
  loaded from the chunk, computed and stored, or only computed.
\<close>

datatype sha1_action = SLoad nat nat | SSet nat nat nat nat nat | SUse nat nat nat nat

datatype sha1_fn = F1 | F2 | F3

primrec sha1_f :: "sha1_fn \<Rightarrow> u32 \<Rightarrow> u32 \<Rightarrow> u32 \<Rightarrow> u32" where
  "sha1_f F1 = sha1_f1"
| "sha1_f F2 = sha1_f2"
| "sha1_f F3 = sha1_f3"

datatype sha1_instr = SRND "nat list" sha1_fn u32 sha1_action

abbreviation (input) "abcde \<equiv> [0, 1, 2, 3, 4 :: nat]"
abbreviation (input) "eabcd \<equiv> [4, 0, 1, 2, 3 :: nat]"
abbreviation (input) "deabc \<equiv> [3, 4, 0, 1, 2 :: nat]"
abbreviation (input) "cdeab \<equiv> [2, 3, 4, 0, 1 :: nat]"
abbreviation (input) "bcdea \<equiv> [1, 2, 3, 4, 0 :: nat]"

fun exec_sha1_action :: "bytes \<Rightarrow> u32 list \<Rightarrow> sha1_action \<Rightarrow> u32 \<times> u32 list" where
  "exec_sha1_action chunk w (SLoad i off) = (let v = ReadBE32 (drop off chunk) in (v, w[i := v]))"
| "exec_sha1_action chunk w (SSet i j k l m) =
     (let v = sha1_left (w ! j XOR w ! k XOR w ! l XOR w ! m) in (v, w[i := v]))"
| "exec_sha1_action chunk w (SUse j k l m) = (sha1_left (w ! j XOR w ! k XOR w ! l XOR w ! m), w)"

fun exec_sha1_round :: "bytes \<Rightarrow> sha1_instr \<Rightarrow> u32 list \<times> u32 list \<Rightarrow> u32 list \<times> u32 list" where
  "exec_sha1_round chunk (SRND r f k act) (regs, w) =
     (let (v, w) = exec_sha1_action chunk w act;
          x = (\<lambda>i. regs ! (r ! i));
          (b, e) = sha1_Round (x 0) (x 1) (x 2) (x 3) (x 4) (sha1_f f (x 1) (x 2) (x 3)) k v
      in (regs[r ! 1 := b, r ! 4 := e], w))"

definition sha1_rounds :: "sha1_instr list" where
  "sha1_rounds = [
    SRND abcde F1 sha1_k1 (SLoad 0 0),
    SRND eabcd F1 sha1_k1 (SLoad 1 4),
    SRND deabc F1 sha1_k1 (SLoad 2 8),
    SRND cdeab F1 sha1_k1 (SLoad 3 12),
    SRND bcdea F1 sha1_k1 (SLoad 4 16),
    SRND abcde F1 sha1_k1 (SLoad 5 20),
    SRND eabcd F1 sha1_k1 (SLoad 6 24),
    SRND deabc F1 sha1_k1 (SLoad 7 28),
    SRND cdeab F1 sha1_k1 (SLoad 8 32),
    SRND bcdea F1 sha1_k1 (SLoad 9 36),
    SRND abcde F1 sha1_k1 (SLoad 10 40),
    SRND eabcd F1 sha1_k1 (SLoad 11 44),
    SRND deabc F1 sha1_k1 (SLoad 12 48),
    SRND cdeab F1 sha1_k1 (SLoad 13 52),
    SRND bcdea F1 sha1_k1 (SLoad 14 56),
    SRND abcde F1 sha1_k1 (SLoad 15 60),
    SRND eabcd F1 sha1_k1 (SSet 0 0 13 8 2),
    SRND deabc F1 sha1_k1 (SSet 1 1 14 9 3),
    SRND cdeab F1 sha1_k1 (SSet 2 2 15 10 4),
    SRND bcdea F1 sha1_k1 (SSet 3 3 0 11 5),
    SRND abcde F2 sha1_k2 (SSet 4 4 1 12 6),
    SRND eabcd F2 sha1_k2 (SSet 5 5 2 13 7),
    SRND deabc F2 sha1_k2 (SSet 6 6 3 14 8),
    SRND cdeab F2 sha1_k2 (SSet 7 7 4 15 9),
    SRND bcdea F2 sha1_k2 (SSet 8 8 5 0 10),
    SRND abcde F2 sha1_k2 (SSet 9 9 6 1 11),
    SRND eabcd F2 sha1_k2 (SSet 10 10 7 2 12),
    SRND deabc F2 sha1_k2 (SSet 11 11 8 3 13),
    SRND cdeab F2 sha1_k2 (SSet 12 12 9 4 14),
    SRND bcdea F2 sha1_k2 (SSet 13 13 10 5 15),
    SRND abcde F2 sha1_k2 (SSet 14 14 11 6 0),
    SRND eabcd F2 sha1_k2 (SSet 15 15 12 7 1),
    SRND deabc F2 sha1_k2 (SSet 0 0 13 8 2),
    SRND cdeab F2 sha1_k2 (SSet 1 1 14 9 3),
    SRND bcdea F2 sha1_k2 (SSet 2 2 15 10 4),
    SRND abcde F2 sha1_k2 (SSet 3 3 0 11 5),
    SRND eabcd F2 sha1_k2 (SSet 4 4 1 12 6),
    SRND deabc F2 sha1_k2 (SSet 5 5 2 13 7),
    SRND cdeab F2 sha1_k2 (SSet 6 6 3 14 8),
    SRND bcdea F2 sha1_k2 (SSet 7 7 4 15 9),
    SRND abcde F3 sha1_k3 (SSet 8 8 5 0 10),
    SRND eabcd F3 sha1_k3 (SSet 9 9 6 1 11),
    SRND deabc F3 sha1_k3 (SSet 10 10 7 2 12),
    SRND cdeab F3 sha1_k3 (SSet 11 11 8 3 13),
    SRND bcdea F3 sha1_k3 (SSet 12 12 9 4 14),
    SRND abcde F3 sha1_k3 (SSet 13 13 10 5 15),
    SRND eabcd F3 sha1_k3 (SSet 14 14 11 6 0),
    SRND deabc F3 sha1_k3 (SSet 15 15 12 7 1),
    SRND cdeab F3 sha1_k3 (SSet 0 0 13 8 2),
    SRND bcdea F3 sha1_k3 (SSet 1 1 14 9 3),
    SRND abcde F3 sha1_k3 (SSet 2 2 15 10 4),
    SRND eabcd F3 sha1_k3 (SSet 3 3 0 11 5),
    SRND deabc F3 sha1_k3 (SSet 4 4 1 12 6),
    SRND cdeab F3 sha1_k3 (SSet 5 5 2 13 7),
    SRND bcdea F3 sha1_k3 (SSet 6 6 3 14 8),
    SRND abcde F3 sha1_k3 (SSet 7 7 4 15 9),
    SRND eabcd F3 sha1_k3 (SSet 8 8 5 0 10),
    SRND deabc F3 sha1_k3 (SSet 9 9 6 1 11),
    SRND cdeab F3 sha1_k3 (SSet 10 10 7 2 12),
    SRND bcdea F3 sha1_k3 (SSet 11 11 8 3 13),
    SRND abcde F2 sha1_k4 (SSet 12 12 9 4 14),
    SRND eabcd F2 sha1_k4 (SSet 13 13 10 5 15),
    SRND deabc F2 sha1_k4 (SSet 14 14 11 6 0),
    SRND cdeab F2 sha1_k4 (SSet 15 15 12 7 1),
    SRND bcdea F2 sha1_k4 (SSet 0 0 13 8 2),
    SRND abcde F2 sha1_k4 (SSet 1 1 14 9 3),
    SRND eabcd F2 sha1_k4 (SSet 2 2 15 10 4),
    SRND deabc F2 sha1_k4 (SSet 3 3 0 11 5),
    SRND cdeab F2 sha1_k4 (SSet 4 4 1 12 6),
    SRND bcdea F2 sha1_k4 (SSet 5 5 2 13 7),
    SRND abcde F2 sha1_k4 (SSet 6 6 3 14 8),
    SRND eabcd F2 sha1_k4 (SSet 7 7 4 15 9),
    SRND deabc F2 sha1_k4 (SSet 8 8 5 0 10),
    SRND cdeab F2 sha1_k4 (SSet 9 9 6 1 11),
    SRND bcdea F2 sha1_k4 (SSet 10 10 7 2 12),
    SRND abcde F2 sha1_k4 (SSet 11 11 8 3 13),
    SRND eabcd F2 sha1_k4 (SSet 12 12 9 4 14),
    SRND deabc F2 sha1_k4 (SUse 13 10 5 15),
    SRND cdeab F2 sha1_k4 (SUse 14 11 6 0),
    SRND bcdea F2 sha1_k4 (SUse 15 12 7 1)]"

definition sha1_Transform :: "u32 list \<Rightarrow> bytes \<Rightarrow> u32 list" where
  "sha1_Transform s chunk =
     (let regs = fst (fold (exec_sha1_round chunk) sha1_rounds (s, replicate 16 0))
      in [s ! 0 + regs ! 0, s ! 1 + regs ! 1, s ! 2 + regs ! 2, s ! 3 + regs ! 3, s ! 4 + regs ! 4])"

section \<open>The class\<close>

type_synonym CSHA1 = "u32 list hasher"

definition CSHA1_new :: CSHA1 where
  "CSHA1_new = \<lparr>hs = sha1_Initialize, hbuf = replicate 64 0, hbytes = 0\<rparr>"

definition CSHA1_Write :: "CSHA1 \<Rightarrow> bytes \<Rightarrow> CSHA1" where
  "CSHA1_Write = chunked_Write 64 sha1_Transform"

definition CSHA1_Finalize :: "CSHA1 \<Rightarrow> bytes \<times> CSHA1" where
  "CSHA1_Finalize this =
     (let sizedesc = WriteBE64 (push_bit 3 (hbytes this));
          this = CSHA1_Write this (take (1 + (119 - unat (hbytes this) mod 64) mod 64) sha256_pad64);
          this = CSHA1_Write this sizedesc
      in (concat (map WriteBE32 (take 5 (hs this))), this))"

definition CSHA1_Reset :: "CSHA1 \<Rightarrow> CSHA1" where
  "CSHA1_Reset this = this\<lparr>hbytes := 0, hs := sha1_Initialize\<rparr>"

section \<open>The specification: FIPS 180-4\<close>

definition fips_sha1_f :: "nat \<Rightarrow> u32 \<Rightarrow> u32 \<Rightarrow> u32 \<Rightarrow> u32" where
  "fips_sha1_f t x y z =
     (if t < 20 then fips_Ch x y z else if t < 40 then x XOR y XOR z
      else if t < 60 then fips_Maj x y z else x XOR y XOR z)"

definition fips_sha1_K :: "nat \<Rightarrow> u32" where
  "fips_sha1_K t = (if t < 20 then 0x5A827999 else if t < 40 then 0x6ED9EBA1 else if t < 60 then 0x8F1BBCDC else 0xCA62C1D6)"

primrec sha1_sched_ext :: "nat \<Rightarrow> u32 list \<Rightarrow> u32 list" where
  "sha1_sched_ext 0 ws = ws"
| "sha1_sched_ext (Suc n) ws =
     (let vs = sha1_sched_ext n ws; t = length vs
      in vs @ [word_rotl 1 (vs ! (t - 3) XOR vs ! (t - 8) XOR vs ! (t - 14) XOR vs ! (t - 16))])"

definition fips_sha1_step :: "u32 list \<Rightarrow> nat \<Rightarrow> u32 list \<Rightarrow> u32 list" where
  "fips_sha1_step ws t s =
     [word_rotl 5 (s ! 0) + fips_sha1_f t (s ! 1) (s ! 2) (s ! 3) + s ! 4 + fips_sha1_K t + ws ! t,
      s ! 0, word_rotl 30 (s ! 1), s ! 2, s ! 3]"

definition fips_sha1_compress :: "u32 list \<Rightarrow> bytes \<Rightarrow> u32 list" where
  "fips_sha1_compress s chunk = map2 (+) s (fold (fips_sha1_step (sha1_sched_ext 64 (block_words chunk))) [0..<80] s)"

definition sha1 :: "bytes \<Rightarrow> bytes" where
  "sha1 m = concat (map WriteBE32
     (iter_blocks 64 fips_sha1_compress (length (sha256_pad m) div 64) sha1_Initialize (sha256_pad m)))"

section \<open>The unrolled rounds follow the standard\<close>

definition rot5_rel :: "nat \<Rightarrow> u32 list \<Rightarrow> u32 list \<Rightarrow> bool" where
  "rot5_rel t regs spec \<longleftrightarrow> length regs = 5 \<and> spec = map (\<lambda>j. regs ! ((j + 4 * t) mod 5)) [0..<5]"

definition rot5_args :: "nat \<Rightarrow> nat list" where
  "rot5_args t = map (\<lambda>j. (j + 4 * t) mod 5) [0..<5]"

lemma mod5_shift: "(j + 4 * t) mod 5 = (j + 4 * (t mod 5)) mod 5" for j t :: nat
  by (metis mod_add_right_eq mod_mult_right_eq)

lemma rot5_rel_mod: "rot5_rel t = rot5_rel (t mod 5)"
  unfolding rot5_rel_def fun_eq_iff by (subst mod5_shift) simp

lemma rot5_args_mod: "rot5_args t = rot5_args (t mod 5)"
  unfolding rot5_args_def by (subst mod5_shift) simp

lemma upt_0_5: "[0..<5] = [0, 1, 2, 3, 4 :: nat]"
  by (simp add: upt_rec)

lemma list5_cases:
  assumes "length xs = 5"
  obtains a b c d e where "xs = [a, b, c, d, e]"
  using assms by (auto simp: length_Suc_conv numeral_eq_Suc)

lemma rot5_rel_0: "length s = 5 \<Longrightarrow> rot5_rel 0 s s"
  by (erule list5_cases) (simp add: rot5_rel_def upt_0_5)

lemma rot5_rel_80:
  assumes "rot5_rel 80 regs spec"
  shows "spec = regs" "length regs = 5"
proof -
  have rel: "rot5_rel 0 regs spec" using assms rot5_rel_mod [of 80] by simp
  then show len: "length regs = 5" by (simp add: rot5_rel_def)
  obtain a b c d e where "regs = [a, b, c, d, e]" using len by (rule list5_cases)
  with rel show "spec = regs" by (simp add: rot5_rel_def upt_0_5)
qed

lemma rotl_shifts: "0 < k \<Longrightarrow> k < 32 \<Longrightarrow> push_bit k x OR drop_bit (32 - k) x = word_rotl k x" for x :: u32
proof -
  assume "0 < k" "k < 32"
  then have "drop_bit (32 - k) x OR push_bit (32 - (32 - k)) x = word_rotr (32 - k) x"
    by (intro rotr_shifts) simp_all
  moreover have "word_rotr (32 - k) x = word_rotl k x"
  proof (rule bit_word_eqI)
    fix n
    assume "n < LENGTH(32)"
    with \<open>k < 32\<close> show "bit (word_rotr (32 - k) x) n = bit (word_rotl k x) n"
      by (simp add: bit_word_rotr_iff bit_word_rotl_iff)
  qed
  ultimately show ?thesis using \<open>k < 32\<close> by (simp add: or.commute)
qed

lemma sha1_functions:
  "sha1_f1 x y z = fips_Ch x y z" "sha1_f2 x y z = x XOR y XOR z" "sha1_f3 x y z = fips_Maj x y z"
  "sha1_left x = word_rotl 1 x" "push_bit 5 x OR drop_bit 27 x = word_rotl 5 x"
  "push_bit 30 x OR drop_bit 2 x = word_rotl 30 x"
  using rotl_shifts [of 1 x] rotl_shifts [of 5 x] rotl_shifts [of 30 x]
  by (auto intro!: bit_word_eqI simp: sha1_f1_def sha1_f2_def sha1_f3_def fips_Ch_def fips_Maj_def
      sha1_left_def bit_simps)

lemma sha1_rot_step:
  assumes rel: "rot5_rel t regs spec"
    and act: "exec_sha1_action chunk w act = (ws ! t, w')" "sha1_f f = fips_sha1_f t" "k = fips_sha1_K t"
  shows "\<exists>regs'. exec_sha1_round chunk (SRND (rot5_args t) f k act) (regs, w) = (regs', w')
    \<and> rot5_rel (Suc t) regs' (fips_sha1_step ws t spec)"
proof -
  define r where "r = t mod 5"
  have r5: "r < 5" by (simp add: r_def)
  have suc: "rot5_rel (Suc t) = rot5_rel (Suc r)"
    by (subst (1 2) rot5_rel_mod) (simp add: r_def mod_Suc_eq)
  obtain a b c d e where regs: "regs = [a, b, c, d, e]"
    using rel list5_cases [of regs] unfolding rot5_rel_def by metis
  have "rot5_rel r regs spec" using rel rot5_rel_mod [of t] by (simp add: r_def)
  then have spec: "spec = map (\<lambda>j. regs ! ((j + 4 * r) mod 5)) [0..<5]" by (simp add: rot5_rel_def)
  have args: "rot5_args t = rot5_args r" using rot5_args_mod by (simp add: r_def)
  consider "r = 0" | "r = 1" | "r = 2" | "r = 3" | "r = 4" using r5 by linarith
  then show ?thesis
    unfolding args suc
    by cases (simp_all add: spec regs act fips_sha1_step_def rot5_args_def rot5_rel_def upt_0_5 sha1_Round_def
        Let_def sha1_functions add.assoc add.commute add.left_commute)
qed

section \<open>The schedule in place\<close>

lemma length_sha1_sched_ext [simp]: "length (sha1_sched_ext n m) = n + length m"
  by (induction n) (simp_all add: Let_def)

lemma nth_sha1_sched_old: "i < length m + n \<Longrightarrow> sha1_sched_ext (n + k) m ! i = sha1_sched_ext n m ! i"
  by (induction k) (simp_all add: Let_def nth_append)

lemma nth_sha1_sched_new:
  assumes "length m = 16" "16 \<le> t" "t < 16 + n"
  shows "sha1_sched_ext n m ! t =
    word_rotl 1 (sha1_sched_ext n m ! (t - 3) XOR sha1_sched_ext n m ! (t - 8) XOR
      sha1_sched_ext n m ! (t - 14) XOR sha1_sched_ext n m ! (t - 16))"
proof -
  define k where "k = t - 16"
  have t: "t = k + 16" using assms(2) by (simp add: k_def)
  obtain j where n: "n = Suc k + j" using assms(3) t by (metis add_less_cancel_left add.commute less_iff_Suc_add add_Suc)
  have old: "sha1_sched_ext n m ! i = sha1_sched_ext k m ! i" if "i < 16 + k" for i
    using nth_sha1_sched_old [of i m k "Suc j"] that assms(1) by (simp add: n)
  have "sha1_sched_ext n m ! t = sha1_sched_ext (Suc k) m ! t"
    using nth_sha1_sched_old [of t m "Suc k" j] assms(1) by (simp add: n t)
  also have "\<dots> = word_rotl 1 (sha1_sched_ext k m ! (t - 3) XOR sha1_sched_ext k m ! (t - 8) XOR
      sha1_sched_ext k m ! (t - 14) XOR sha1_sched_ext k m ! (t - 16))"
    using assms(1) by (simp add: Let_def t nth_append)
  finally show ?thesis by (simp add: old t)
qed

text \<open>Sixteen words hold the last sixteen values of the schedule; the last three are never stored.\<close>

definition window :: "nat \<Rightarrow> nat \<Rightarrow> u32 list \<Rightarrow> u32 list \<Rightarrow> bool" where
  "window N t w ws \<longleftrightarrow> length w = 16 \<and> (\<forall>u < t. u < N \<longrightarrow> t \<le> u + 16 \<longrightarrow> w ! (u mod 16) = ws ! u)"

lemma window_nth:
  assumes "window N t w ws" "16 \<le> t" "0 < d" "d \<le> 16" "t - d < N"
  shows "w ! ((t + (16 - d)) mod 16) = ws ! (t - d)"
proof -
  have "t - d < t" "t \<le> t - d + 16" using assms by linarith+
  with assms show ?thesis by (simp only: mod16_shift window_def)
qed

lemma window_store:
  assumes "window N t w ws"
  shows "window N (Suc t) (w[t mod 16 := ws ! t]) ws"
  unfolding window_def
proof (intro conjI allI impI)
  have len: "length w = 16" using assms by (simp add: window_def)
  then show "length (w[t mod 16 := ws ! t]) = 16" by simp
  fix u
  assume u: "u < Suc t" "u < N" "Suc t \<le> u + 16"
  show "w[t mod 16 := ws ! t] ! (u mod 16) = ws ! u"
  proof (cases "u = t")
    case True
    then show ?thesis using len by simp
  next
    case False
    then have "t mod 16 \<noteq> u mod 16" using u mod16_inj [of u t] by auto
    with False u assms show ?thesis by (simp add: window_def)
  qed
qed

lemma window_skip: "window N t w ws \<Longrightarrow> N \<le> t \<Longrightarrow> window N (Suc t) w ws"
  by (auto simp: window_def)

definition sha1_gen_action :: "nat \<Rightarrow> sha1_action" where
  "sha1_gen_action t =
     (if t < 16 then SLoad t (4 * t)
      else if t < 77 then SSet (t mod 16) (t mod 16) ((t + 13) mod 16) ((t + 8) mod 16) ((t + 2) mod 16)
      else SUse (t mod 16) ((t + 13) mod 16) ((t + 8) mod 16) ((t + 2) mod 16))"

lemma sha1_gen_action_step:
  assumes win: "window 77 t w ws" and t: "t < 80"
    and ws: "ws = sha1_sched_ext 64 (block_words chunk)"
  shows "\<exists>w'. exec_sha1_action chunk w (sha1_gen_action t) = (ws ! t, w') \<and> window 77 (Suc t) w' ws"
proof (cases "t < 16")
  case True
  then have "ws ! t = ReadBE32 (drop (4 * t) chunk)"
    using nth_sha1_sched_old [of t "block_words chunk" 0 64] by (simp add: ws block_words_def)
  then show ?thesis
    using True window_store [OF win] by (simp add: sha1_gen_action_def Let_def)
next
  case False
  then have t16: "16 \<le> t" and t80: "t < 16 + 64" using t by simp_all
  have vals: "w ! (t mod 16) = ws ! (t - 16)" "w ! ((t + 13) mod 16) = ws ! (t - 3)"
    "w ! ((t + 8) mod 16) = ws ! (t - 8)" "w ! ((t + 2) mod 16) = ws ! (t - 14)"
    using window_nth [OF win t16, of 16] window_nth [OF win t16, of 3] window_nth [OF win t16, of 8]
      window_nth [OF win t16, of 14] t by simp_all
  have "sha1_left (w ! (t mod 16) XOR w ! ((t + 13) mod 16) XOR w ! ((t + 8) mod 16) XOR w ! ((t + 2) mod 16)) = ws ! t"
    unfolding vals sha1_functions unfolding ws nth_sha1_sched_new [OF length_block_words t16 t80]
    by (simp only: xor.assoc xor.commute xor.left_commute)
  then show ?thesis
    using t16 window_store [OF win] window_skip [OF win]
    by (cases "t < 77") (simp_all add: sha1_gen_action_def Let_def)
qed

definition sha1_gen_round :: "nat \<Rightarrow> sha1_instr" where
  "sha1_gen_round t = SRND (rot5_args t)
     (if t < 20 then F1 else if t < 40 then F2 else if t < 60 then F3 else F2)
     (if t < 20 then sha1_k1 else if t < 40 then sha1_k2 else if t < 60 then sha1_k3 else sha1_k4)
     (sha1_gen_action t)"

lemma sha1_rounds_gen: "sha1_rounds = map sha1_gen_round [0..<80]"
  by code_simp

lemma sha1_gen_round_parts:
  "\<exists>f k. sha1_gen_round t = SRND (rot5_args t) f k (sha1_gen_action t) \<and> sha1_f f = fips_sha1_f t \<and> k = fips_sha1_K t"
  by (auto simp: sha1_gen_round_def fips_sha1_f_def fips_sha1_K_def fun_eq_iff sha1_functions
      sha1_k1_def sha1_k2_def sha1_k3_def sha1_k4_def)

lemma sha1_rounds_sim:
  assumes ws: "ws = sha1_sched_ext 64 (block_words chunk)" and "n \<le> 80" and s: "length s = 5" and "length w = 16"
  shows "\<exists>regs' w'. fold (exec_sha1_round chunk) (map sha1_gen_round [0..<n]) (s, w) = (regs', w')
     \<and> rot5_rel n regs' (fold (fips_sha1_step ws) [0..<n] s) \<and> window 77 n w' ws"
  using \<open>n \<le> 80\<close>
proof (induction n)
  case 0
  then show ?case using rot5_rel_0 [OF s] assms(4) by (simp add: window_def)
next
  case (Suc n)
  then obtain regs' w' where IH: "fold (exec_sha1_round chunk) (map sha1_gen_round [0..<n]) (s, w) = (regs', w')"
    "rot5_rel n regs' (fold (fips_sha1_step ws) [0..<n] s)" "window 77 n w' ws" by auto
  obtain w'' where act: "exec_sha1_action chunk w' (sha1_gen_action n) = (ws ! n, w'')" "window 77 (Suc n) w'' ws"
    using sha1_gen_action_step [OF IH(3) _ ws] Suc.prems by auto
  obtain f k where fk: "sha1_gen_round n = SRND (rot5_args n) f k (sha1_gen_action n)" "sha1_f f = fips_sha1_f n" "k = fips_sha1_K n"
    using sha1_gen_round_parts by blast
  obtain regs'' where "exec_sha1_round chunk (sha1_gen_round n) (regs', w') = (regs'', w'')"
    "rot5_rel (Suc n) regs'' (fips_sha1_step ws n (fold (fips_sha1_step ws) [0..<n] s))"
    using sha1_rot_step [OF IH(2) act(1) fk(2,3)] unfolding fk(1) by blast
  with IH(1) act(2) show ?case by simp
qed

lemma sha1_Transform_fips: "length s = 5 \<Longrightarrow> sha1_Transform s chunk = fips_sha1_compress s chunk"
proof -
  assume s: "length s = 5"
  define ws where "ws = sha1_sched_ext 64 (block_words chunk)"
  obtain regs w where run: "fold (exec_sha1_round chunk) sha1_rounds (s, replicate 16 0) = (regs, w)"
    "rot5_rel 80 regs (fold (fips_sha1_step ws) [0..<80] s)"
    using sha1_rounds_sim [OF ws_def order_refl s, of "replicate 16 0"] by (auto simp: sha1_rounds_gen)
  obtain a b c d e where "regs = [a, b, c, d, e]" using rot5_rel_80(2) [OF run(2)] by (rule list5_cases)
  moreover obtain a' b' c' d' e' where "s = [a', b', c', d', e']" using s by (rule list5_cases)
  ultimately show ?thesis
    using run(1) rot5_rel_80(1) [OF run(2)]
    by (simp add: sha1_Transform_def fips_sha1_compress_def flip: ws_def)
qed

section \<open>Finalising\<close>

text \<open>
  The interface of a hash class that pads to whole blocks of 64 bytes with a one bit, zeroes and the
  length in bits: \<open>size64\<close> writes the length, \<open>out\<close> the digest. The digest is a function of the message
  alone, however it was cut into pieces.
\<close>

definition md_pad :: "(u64 \<Rightarrow> bytes) \<Rightarrow> bytes \<Rightarrow> bytes" where
  "md_pad size64 m = m @ 0x80 # replicate (sha256_zeros (length m)) 0 @ size64 (word_of_nat (8 * length m))"

definition md_Finalize ::
  "('s hasher \<Rightarrow> bytes \<Rightarrow> 's hasher) \<Rightarrow> (u64 \<Rightarrow> bytes) \<Rightarrow> ('s \<Rightarrow> bytes) \<Rightarrow> 's hasher \<Rightarrow> bytes \<times> 's hasher" where
  "md_Finalize Write size64 out this =
     (let sizedesc = size64 (push_bit 3 (hbytes this));
          this = Write this (take (1 + (119 - unat (hbytes this) mod 64) mod 64) sha256_pad64);
          this = Write this sizedesc
      in (out (hs this), this))"

lemma md_pad_length: "length (size64 (word_of_nat (8 * length m))) = 8 \<Longrightarrow> 64 dvd length (md_pad size64 m)"
  using length_sha256_pad [of m] by (simp add: md_pad_def sha256_pad_def)

locale md_hash = stream_hash 64 f init Write for f :: "'s \<Rightarrow> bytes \<Rightarrow> 's" and init Write +
  fixes size64 :: "u64 \<Rightarrow> bytes" and out :: "'s \<Rightarrow> bytes"
  assumes length_size64: "length (size64 n) = 8"
begin

definition digest :: "bytes \<Rightarrow> bytes" where
  "digest m = out (iter_blocks 64 f (length (md_pad size64 m) div 64) init (md_pad size64 m))"

lemma Finalize_absorbed:
  assumes "absorbed 64 f init st m"
  shows "fst (md_Finalize Write size64 out st) = digest m"
    "absorbed 64 f init (snd (md_Finalize Write size64 out st)) (md_pad size64 m)"
proof -
  let ?p = "0x80 # replicate (sha256_zeros (length m)) 0"
  let ?z = "size64 (word_of_nat (8 * length m))"
  have bytes: "hbytes st = word_of_nat (length m)" using assms by (simp add: absorbed_def)
  have "(119 - unat (hbytes st) mod 64) mod 64 = sha256_zeros (length m)"
    by (simp only: bufsize_absorbed [OF assms] sha256_zeros_code)
  then have snd: "snd (md_Finalize Write size64 out st) = Write (Write st ?p) ?z"
    by (simp only: md_Finalize_def Let_def snd_conv take_sha256_pad64 bytes sha256_sizedesc)
  with absorbed_fold [OF assms, of "[?p, ?z]"]
  show abs: "absorbed 64 f init (snd (md_Finalize Write size64 out st)) (md_pad size64 m)"
    by (simp add: md_pad_def)
  have "fst (md_Finalize Write size64 out st) = out (hs (snd (md_Finalize Write size64 out st)))"
    by (simp add: md_Finalize_def Let_def)
  with abs show "fst (md_Finalize Write size64 out st) = digest m"
    by (simp add: digest_def absorbed_def)
qed

lemma streaming:
  "length buf = 64 \<Longrightarrow>
     fst (md_Finalize Write size64 out (foldl Write \<lparr>hs = init, hbuf = buf, hbytes = 0\<rparr> ds)) = digest (concat ds)"
  using Finalize_absorbed(1) [OF absorbed_fold [OF absorbed_init]] by simp

end

text \<open>Two transformations that agree on the states that occur give the same \<open>Write\<close>.\<close>

lemma iter_blocks_cong:
  assumes "\<And>s d. P s \<Longrightarrow> f s d = g s d" "\<And>s d. P s \<Longrightarrow> P (g s d)"
  shows "P s \<Longrightarrow> iter_blocks B f n s d = iter_blocks B g n s d"
  using assms by (induction n arbitrary: s d) simp_all

lemma iter_blocks_inv: "(\<And>s d. P s \<Longrightarrow> P (g s d)) \<Longrightarrow> P s \<Longrightarrow> P (iter_blocks B g n s d)"
  by (induction n arbitrary: s d) simp_all

lemma stream_write_cong:
  assumes "\<And>s d. P s \<Longrightarrow> f s d = g s d" "\<And>s d. P s \<Longrightarrow> P (g s d)" "P (hs st)"
  shows "stream_write B f st d = stream_write B g st d"
  using assms(2,3) iter_blocks_cong [of P f g, OF assms(1,2)]
  by (simp add: stream_write_def stream_tail_def Let_def assms(1))

section \<open>The class implements SHA-1\<close>

lemma length_sha1_step [simp]: "length (fips_sha1_step ws t s) = 5"
  by (simp add: fips_sha1_step_def)

lemma length_fold_sha1_step: "length s = 5 \<Longrightarrow> length (fold (fips_sha1_step ws) ts s) = 5"
  by (induction ts arbitrary: s) simp_all

lemma length_fips_sha1_compress: "length s = 5 \<Longrightarrow> length (fips_sha1_compress s d) = 5"
  by (simp add: fips_sha1_compress_def length_fold_sha1_step)

lemma length_sha1_Initialize: "length sha1_Initialize = 5"
  by (simp add: sha1_Initialize_def)

interpretation sha1_blocks: block_function 64 fips_sha1_compress
  by unfold_locales (simp_all add: fips_sha1_compress_def block_words_take)

lemma CSHA1_Write_absorbs:
  assumes "absorbed 64 fips_sha1_compress sha1_Initialize st m"
  shows "absorbed 64 fips_sha1_compress sha1_Initialize (CSHA1_Write st d) (m @ d)"
proof -
  have "length (hs st) = 5"
    using assms iter_blocks_inv [of "\<lambda>s. length s = 5" fips_sha1_compress, OF length_fips_sha1_compress]
    by (simp add: absorbed_def length_sha1_Initialize)
  then have "CSHA1_Write st d = stream_write 64 fips_sha1_compress st d"
    unfolding CSHA1_Write_def chunked_Write_stream [of 64, simplified]
    by (intro stream_write_cong [where P = "\<lambda>s. length s = 5"])
      (simp_all add: sha1_Transform_fips length_fips_sha1_compress)
  then show ?thesis using sha1_blocks.stream_write_absorbs [OF assms] by simp
qed

interpretation sha1_md: md_hash fips_sha1_compress sha1_Initialize CSHA1_Write WriteBE64
  "\<lambda>s. concat (map WriteBE32 (take 5 s))"
  by unfold_locales (simp_all add: CSHA1_Write_absorbs)

lemma sha1_digest: "sha1_md.digest m = sha1 m"
proof -
  have "length (iter_blocks 64 fips_sha1_compress n sha1_Initialize d) = 5" for n d
    using iter_blocks_inv [of "\<lambda>s. length s = 5" fips_sha1_compress, OF length_fips_sha1_compress length_sha1_Initialize] .
  then show ?thesis by (simp add: sha1_md.digest_def sha1_def md_pad_def sha256_pad_def)
qed

lemma CSHA1_Finalize_md: "CSHA1_Finalize = md_Finalize CSHA1_Write WriteBE64 (\<lambda>s. concat (map WriteBE32 (take 5 s)))"
  by (simp add: fun_eq_iff CSHA1_Finalize_def md_Finalize_def)

section \<open>Property\<close>

text \<open>
  C37. The class \<open>CSHA1\<close> implements SHA-1: whatever the pieces in which a message is written, \<open>Finalize\<close>
  returns the FIPS 180-4 digest of their concatenation.
\<close>

theorem CSHA1_streaming: "fst (CSHA1_Finalize (foldl CSHA1_Write CSHA1_new ds)) = sha1 (concat ds)"
  using sha1_md.streaming [of "replicate 64 0" ds] by (simp add: CSHA1_Finalize_md CSHA1_new_def sha1_digest)

end
