(* ===== verification/Ripemd160.thy ===== *)
theory Ripemd160
  imports Sha1
begin

text \<open>
  RIPEMD-160: \<^verbatim>\<open>src/ripemd160.cpp\<close>, and the 160-bit hash \<open>CHash160\<close> of
  \<^verbatim>\<open>src/hash.h\<close>, which is RIPEMD-160 of SHA-256. The two parallel lines of 80 steps are
  interleaved in the source; the list of steps keeps that order, and the reference runs the two lines one
  after the other with the tables of the definition of the function.
\<close>

section \<open>The transformation\<close>

definition rmd_f1 :: "u32 \<Rightarrow> u32 \<Rightarrow> u32 \<Rightarrow> u32" where "rmd_f1 x y z = x XOR y XOR z"
definition rmd_f2 :: "u32 \<Rightarrow> u32 \<Rightarrow> u32 \<Rightarrow> u32" where "rmd_f2 x y z = (x AND y) OR (NOT x AND z)"
definition rmd_f3 :: "u32 \<Rightarrow> u32 \<Rightarrow> u32 \<Rightarrow> u32" where "rmd_f3 x y z = (x OR NOT y) XOR z"
definition rmd_f4 :: "u32 \<Rightarrow> u32 \<Rightarrow> u32 \<Rightarrow> u32" where "rmd_f4 x y z = (x AND z) OR (y AND NOT z)"
definition rmd_f5 :: "u32 \<Rightarrow> u32 \<Rightarrow> u32 \<Rightarrow> u32" where "rmd_f5 x y z = x XOR (y OR NOT z)"

definition ripemd160_Initialize :: "u32 list" where
  "ripemd160_Initialize = [0x67452301, 0xEFCDAB89, 0x98BADCFE, 0x10325476, 0xC3D2E1F0]"

definition rmd_rol :: "u32 \<Rightarrow> nat \<Rightarrow> u32" where
  "rmd_rol x i = push_bit i x OR drop_bit (32 - i) x"

text \<open>\<open>Round\<close> returns the registers it takes by reference, \<open>a\<close> and \<open>c\<close>.\<close>

definition rmd_Round :: "u32 \<Rightarrow> u32 \<Rightarrow> u32 \<Rightarrow> u32 \<Rightarrow> u32 \<Rightarrow> u32 \<Rightarrow> u32 \<Rightarrow> u32 \<Rightarrow> nat \<Rightarrow> u32 \<times> u32" where
  "rmd_Round a b c d e f x k r = (rmd_rol (a + f + x + k) r + e, rmd_rol c 10)"

text \<open>The ten functions \<open>R11\<close> to \<open>R52\<close> differ in the boolean function and the constant.\<close>

datatype rmd_op = R11 | R21 | R31 | R41 | R51 | R12 | R22 | R32 | R42 | R52

primrec rmd_op_f :: "rmd_op \<Rightarrow> u32 \<Rightarrow> u32 \<Rightarrow> u32 \<Rightarrow> u32" where
  "rmd_op_f R11 = rmd_f1" | "rmd_op_f R21 = rmd_f2" | "rmd_op_f R31 = rmd_f3" | "rmd_op_f R41 = rmd_f4" | "rmd_op_f R51 = rmd_f5"
| "rmd_op_f R12 = rmd_f5" | "rmd_op_f R22 = rmd_f4" | "rmd_op_f R32 = rmd_f3" | "rmd_op_f R42 = rmd_f2" | "rmd_op_f R52 = rmd_f1"

primrec rmd_op_k :: "rmd_op \<Rightarrow> u32" where
  "rmd_op_k R11 = 0" | "rmd_op_k R21 = 0x5A827999" | "rmd_op_k R31 = 0x6ED9EBA1" | "rmd_op_k R41 = 0x8F1BBCDC"
| "rmd_op_k R51 = 0xA953FD4E" | "rmd_op_k R12 = 0x50A28BE6" | "rmd_op_k R22 = 0x5C4DD124" | "rmd_op_k R32 = 0x6D703EF3"
| "rmd_op_k R42 = 0x7A6D76E9" | "rmd_op_k R52 = 0"

text \<open>Whether the function works on the registers of the second line.\<close>

primrec rmd_op_second :: "rmd_op \<Rightarrow> bool" where
  "rmd_op_second R11 = False" | "rmd_op_second R21 = False" | "rmd_op_second R31 = False" | "rmd_op_second R41 = False"
| "rmd_op_second R51 = False" | "rmd_op_second R12 = True" | "rmd_op_second R22 = True" | "rmd_op_second R32 = True"
| "rmd_op_second R42 = True" | "rmd_op_second R52 = True"

text \<open>\<open>RR op regs i r\<close>: the function, the registers in the order they are passed, the word and the rotation.\<close>

datatype ripemd160_instr = RR rmd_op "nat list" nat nat

definition rmd_R :: "u32 list \<Rightarrow> rmd_op \<Rightarrow> nat list \<Rightarrow> nat \<Rightarrow> nat \<Rightarrow> u32 list \<Rightarrow> u32 list" where
  "rmd_R w op r i s regs =
     (let x = (\<lambda>j. regs ! (r ! j));
          (a, c) = rmd_Round (x 0) (x 1) (x 2) (x 3) (x 4) (rmd_op_f op (x 1) (x 2) (x 3)) (w ! i) (rmd_op_k op) s
      in regs[r ! 0 := a, r ! 2 := c])"

fun exec_ripemd160 :: "u32 list \<Rightarrow> ripemd160_instr \<Rightarrow> u32 list \<times> u32 list \<Rightarrow> u32 list \<times> u32 list" where
  "exec_ripemd160 w (RR op r i s) (regs1, regs2) =
     (if rmd_op_second op then (regs1, rmd_R w op r i s regs2) else (rmd_R w op r i s regs1, regs2))"

definition ripemd160_rounds :: "ripemd160_instr list" where
  "ripemd160_rounds = [
    RR R11 abcde 0 11, RR R12 abcde 5 8,
    RR R11 eabcd 1 14, RR R12 eabcd 14 9,
    RR R11 deabc 2 15, RR R12 deabc 7 9,
    RR R11 cdeab 3 12, RR R12 cdeab 0 11,
    RR R11 bcdea 4 5, RR R12 bcdea 9 13,
    RR R11 abcde 5 8, RR R12 abcde 2 15,
    RR R11 eabcd 6 7, RR R12 eabcd 11 15,
    RR R11 deabc 7 9, RR R12 deabc 4 5,
    RR R11 cdeab 8 11, RR R12 cdeab 13 7,
    RR R11 bcdea 9 13, RR R12 bcdea 6 7,
    RR R11 abcde 10 14, RR R12 abcde 15 8,
    RR R11 eabcd 11 15, RR R12 eabcd 8 11,
    RR R11 deabc 12 6, RR R12 deabc 1 14,
    RR R11 cdeab 13 7, RR R12 cdeab 10 14,
    RR R11 bcdea 14 9, RR R12 bcdea 3 12,
    RR R11 abcde 15 8, RR R12 abcde 12 6,
    RR R21 eabcd 7 7, RR R22 eabcd 6 9,
    RR R21 deabc 4 6, RR R22 deabc 11 13,
    RR R21 cdeab 13 8, RR R22 cdeab 3 15,
    RR R21 bcdea 1 13, RR R22 bcdea 7 7,
    RR R21 abcde 10 11, RR R22 abcde 0 12,
    RR R21 eabcd 6 9, RR R22 eabcd 13 8,
    RR R21 deabc 15 7, RR R22 deabc 5 9,
    RR R21 cdeab 3 15, RR R22 cdeab 10 11,
    RR R21 bcdea 12 7, RR R22 bcdea 14 7,
    RR R21 abcde 0 12, RR R22 abcde 15 7,
    RR R21 eabcd 9 15, RR R22 eabcd 8 12,
    RR R21 deabc 5 9, RR R22 deabc 12 7,
    RR R21 cdeab 2 11, RR R22 cdeab 4 6,
    RR R21 bcdea 14 7, RR R22 bcdea 9 15,
    RR R21 abcde 11 13, RR R22 abcde 1 13,
    RR R21 eabcd 8 12, RR R22 eabcd 2 11,
    RR R31 deabc 3 11, RR R32 deabc 15 9,
    RR R31 cdeab 10 13, RR R32 cdeab 5 7,
    RR R31 bcdea 14 6, RR R32 bcdea 1 15,
    RR R31 abcde 4 7, RR R32 abcde 3 11,
    RR R31 eabcd 9 14, RR R32 eabcd 7 8,
    RR R31 deabc 15 9, RR R32 deabc 14 6,
    RR R31 cdeab 8 13, RR R32 cdeab 6 6,
    RR R31 bcdea 1 15, RR R32 bcdea 9 14,
    RR R31 abcde 2 14, RR R32 abcde 11 12,
    RR R31 eabcd 7 8, RR R32 eabcd 8 13,
    RR R31 deabc 0 13, RR R32 deabc 12 5,
    RR R31 cdeab 6 6, RR R32 cdeab 2 14,
    RR R31 bcdea 13 5, RR R32 bcdea 10 13,
    RR R31 abcde 11 12, RR R32 abcde 0 13,
    RR R31 eabcd 5 7, RR R32 eabcd 4 7,
    RR R31 deabc 12 5, RR R32 deabc 13 5,
    RR R41 cdeab 1 11, RR R42 cdeab 8 15,
    RR R41 bcdea 9 12, RR R42 bcdea 6 5,
    RR R41 abcde 11 14, RR R42 abcde 4 8,
    RR R41 eabcd 10 15, RR R42 eabcd 1 11,
    RR R41 deabc 0 14, RR R42 deabc 3 14,
    RR R41 cdeab 8 15, RR R42 cdeab 11 14,
    RR R41 bcdea 12 9, RR R42 bcdea 15 6,
    RR R41 abcde 4 8, RR R42 abcde 0 14,
    RR R41 eabcd 13 9, RR R42 eabcd 5 6,
    RR R41 deabc 3 14, RR R42 deabc 12 9,
    RR R41 cdeab 7 5, RR R42 cdeab 2 12,
    RR R41 bcdea 15 6, RR R42 bcdea 13 9,
    RR R41 abcde 14 8, RR R42 abcde 9 12,
    RR R41 eabcd 5 6, RR R42 eabcd 7 5,
    RR R41 deabc 6 5, RR R42 deabc 10 15,
    RR R41 cdeab 2 12, RR R42 cdeab 14 8,
    RR R51 bcdea 4 9, RR R52 bcdea 12 8,
    RR R51 abcde 0 15, RR R52 abcde 15 5,
    RR R51 eabcd 5 5, RR R52 eabcd 10 12,
    RR R51 deabc 9 11, RR R52 deabc 4 9,
    RR R51 cdeab 7 6, RR R52 cdeab 1 12,
    RR R51 bcdea 12 8, RR R52 bcdea 5 5,
    RR R51 abcde 2 13, RR R52 abcde 8 14,
    RR R51 eabcd 10 12, RR R52 eabcd 7 6,
    RR R51 deabc 14 5, RR R52 deabc 6 8,
    RR R51 cdeab 1 12, RR R52 cdeab 2 13,
    RR R51 bcdea 3 13, RR R52 bcdea 13 6,
    RR R51 abcde 8 14, RR R52 abcde 14 5,
    RR R51 eabcd 11 11, RR R52 eabcd 0 15,
    RR R51 deabc 6 8, RR R52 deabc 3 13,
    RR R51 cdeab 15 5, RR R52 cdeab 9 11,
    RR R51 bcdea 13 6, RR R52 bcdea 11 11]"

definition ripemd160_words :: "bytes \<Rightarrow> u32 list" where
  "ripemd160_words chunk = map (\<lambda>i. ReadLE32 (drop (4 * i) chunk)) [0..<16]"

definition ripemd160_Transform :: "u32 list \<Rightarrow> bytes \<Rightarrow> u32 list" where
  "ripemd160_Transform s chunk =
     (let (r1, r2) = fold (exec_ripemd160 (ripemd160_words chunk)) ripemd160_rounds (s, s)
      in [s ! 1 + r1 ! 2 + r2 ! 3, s ! 2 + r1 ! 3 + r2 ! 4, s ! 3 + r1 ! 4 + r2 ! 0, s ! 4 + r1 ! 0 + r2 ! 1,
          s ! 0 + r1 ! 1 + r2 ! 2])"

section \<open>The class and CHash160\<close>

type_synonym CRIPEMD160 = "u32 list hasher"

definition CRIPEMD160_new :: CRIPEMD160 where
  "CRIPEMD160_new = \<lparr>hs = ripemd160_Initialize, hbuf = replicate 64 0, hbytes = 0\<rparr>"

definition CRIPEMD160_Write :: "CRIPEMD160 \<Rightarrow> bytes \<Rightarrow> CRIPEMD160" where
  "CRIPEMD160_Write = chunked_Write 64 ripemd160_Transform"

definition CRIPEMD160_Finalize :: "CRIPEMD160 \<Rightarrow> bytes \<times> CRIPEMD160" where
  "CRIPEMD160_Finalize this =
     (let sizedesc = WriteLE64 (push_bit 3 (hbytes this));
          this = CRIPEMD160_Write this (take (1 + (119 - unat (hbytes this) mod 64) mod 64) sha256_pad64);
          this = CRIPEMD160_Write this sizedesc
      in (concat (map WriteLE32 (take 5 (hs this))), this))"

definition CRIPEMD160_Reset :: "CRIPEMD160 \<Rightarrow> CRIPEMD160" where
  "CRIPEMD160_Reset this = this\<lparr>hbytes := 0, hs := ripemd160_Initialize\<rparr>"

definition CHash160_Finalize :: "SHA256_CPU \<Rightarrow> bytes \<times> SHA256_CPU" where
  "CHash160_Finalize sha =
     (let (buf, sha) = SHA256_CPU_Finalize sha
      in (fst (CRIPEMD160_Finalize (CRIPEMD160_Write CRIPEMD160_new buf)), sha))"

definition Hash160 :: "bytes \<Rightarrow> bytes" where
  "Hash160 data = fst (CHash160_Finalize (SHA256_CPU_Write SHA256_CPU_new data))"

section \<open>The specification\<close>

text \<open>Message word, rotation, boolean function and constant of step \<open>j\<close> of each line.\<close>

definition rmd_r1 :: "nat list" where
  "rmd_r1 = [0, 1, 2, 3, 4, 5, 6, 7, 8, 9, 10, 11, 12, 13, 14, 15,
     7, 4, 13, 1, 10, 6, 15, 3, 12, 0, 9, 5, 2, 14, 11, 8,
     3, 10, 14, 4, 9, 15, 8, 1, 2, 7, 0, 6, 13, 11, 5, 12,
     1, 9, 11, 10, 0, 8, 12, 4, 13, 3, 7, 15, 14, 5, 6, 2,
     4, 0, 5, 9, 7, 12, 2, 10, 14, 1, 3, 8, 11, 6, 15, 13]"

definition rmd_r2 :: "nat list" where
  "rmd_r2 = [5, 14, 7, 0, 9, 2, 11, 4, 13, 6, 15, 8, 1, 10, 3, 12,
     6, 11, 3, 7, 0, 13, 5, 10, 14, 15, 8, 12, 4, 9, 1, 2,
     15, 5, 1, 3, 7, 14, 6, 9, 11, 8, 12, 2, 10, 0, 4, 13,
     8, 6, 4, 1, 3, 11, 15, 0, 5, 12, 2, 13, 9, 7, 10, 14,
     12, 15, 10, 4, 1, 5, 8, 7, 6, 2, 13, 14, 0, 3, 9, 11]"

definition rmd_s1 :: "nat list" where
  "rmd_s1 = [11, 14, 15, 12, 5, 8, 7, 9, 11, 13, 14, 15, 6, 7, 9, 8,
     7, 6, 8, 13, 11, 9, 7, 15, 7, 12, 15, 9, 11, 7, 13, 12,
     11, 13, 6, 7, 14, 9, 13, 15, 14, 8, 13, 6, 5, 12, 7, 5,
     11, 12, 14, 15, 14, 15, 9, 8, 9, 14, 5, 6, 8, 6, 5, 12,
     9, 15, 5, 11, 6, 8, 13, 12, 5, 12, 13, 14, 11, 8, 5, 6]"

definition rmd_s2 :: "nat list" where
  "rmd_s2 = [8, 9, 9, 11, 13, 15, 15, 5, 7, 7, 8, 11, 14, 14, 12, 6,
     9, 13, 15, 7, 12, 8, 9, 11, 7, 7, 12, 7, 6, 15, 13, 11,
     9, 7, 15, 11, 8, 6, 6, 14, 12, 13, 5, 14, 13, 13, 7, 5,
     15, 5, 8, 11, 14, 14, 6, 14, 6, 9, 12, 9, 12, 5, 15, 8,
     8, 5, 12, 9, 12, 5, 14, 6, 8, 13, 6, 5, 15, 13, 11, 11]"

definition rmd_op1 :: "nat \<Rightarrow> rmd_op" where
  "rmd_op1 j = [R11, R21, R31, R41, R51] ! (j div 16)"

definition rmd_op2 :: "nat \<Rightarrow> rmd_op" where
  "rmd_op2 j = [R12, R22, R32, R42, R52] ! (j div 16)"

text \<open>One step of a line on \<open>[A, B, C, D, E]\<close>.\<close>

definition rmd_step :: "u32 list \<Rightarrow> (nat \<Rightarrow> rmd_op) \<Rightarrow> nat list \<Rightarrow> nat list \<Rightarrow> nat \<Rightarrow> u32 list \<Rightarrow> u32 list" where
  "rmd_step w ops rs ss j s =
     [s ! 4,
      word_rotl (ss ! j) (s ! 0 + rmd_op_f (ops j) (s ! 1) (s ! 2) (s ! 3) + w ! (rs ! j) + rmd_op_k (ops j)) + s ! 4,
      s ! 1, word_rotl 10 (s ! 2), s ! 3]"

definition rmd_compress :: "u32 list \<Rightarrow> bytes \<Rightarrow> u32 list" where
  "rmd_compress s chunk =
     (let w = ripemd160_words chunk;
          l = fold (rmd_step w rmd_op1 rmd_r1 rmd_s1) [0..<80] s;
          r = fold (rmd_step w rmd_op2 rmd_r2 rmd_s2) [0..<80] s
      in [s ! 1 + l ! 2 + r ! 3, s ! 2 + l ! 3 + r ! 4, s ! 3 + l ! 4 + r ! 0, s ! 4 + l ! 0 + r ! 1,
          s ! 0 + l ! 1 + r ! 2])"

definition ripemd160 :: "bytes \<Rightarrow> bytes" where
  "ripemd160 m = concat (map WriteLE32
     (iter_blocks 64 rmd_compress (length (md_pad WriteLE64 m) div 64) ripemd160_Initialize (md_pad WriteLE64 m)))"

section \<open>The two lines\<close>

lemma rmd_rol_rotl: "0 < k \<Longrightarrow> k < 32 \<Longrightarrow> rmd_rol x k = word_rotl k x"
  by (simp add: rmd_rol_def rotl_shifts)

lemma rmd_rot_step:
  assumes rel: "rot5_rel t regs spec" and s: "0 < ss ! t" "ss ! t < 32"
  shows "rot5_rel (Suc t) (rmd_R w (ops t) (rot5_args t) (rs ! t) (ss ! t) regs) (rmd_step w ops rs ss t spec)"
proof -
  define r where "r = t mod 5"
  have r5: "r < 5" by (simp add: r_def)
  have suc: "rot5_rel (Suc t) = rot5_rel (Suc r)"
    by (subst (1 2) rot5_rel_mod) (simp add: r_def mod_Suc_eq)
  obtain a b c d e where regs: "regs = [a, b, c, d, e]"
    using rel list5_cases [of regs] unfolding rot5_rel_def by metis
  have "rot5_rel r regs spec" using rel rot5_rel_mod [of t] by (simp add: r_def)
  then have spec: "spec = map (\<lambda>j. regs ! ((j + 4 * r) mod 5)) [0..<5]" by (simp add: rot5_rel_def)
  have args: "rot5_args t = rot5_args r" using rot5_args_mod by (simp add: r_def)
  consider "r = 0" | "r = 1" | "r = 2" | "r = 3" | "r = 4" using r5 by linarith
  then show ?thesis
    unfolding args suc
    by cases (simp_all add: spec regs rmd_R_def rmd_step_def rot5_args_def rot5_rel_def upt_0_5 rmd_Round_def
        Let_def rmd_rol_rotl s)
qed

definition rmd_gen_rounds :: "nat \<Rightarrow> ripemd160_instr list" where
  "rmd_gen_rounds j =
     [RR (rmd_op1 j) (rot5_args j) (rmd_r1 ! j) (rmd_s1 ! j), RR (rmd_op2 j) (rot5_args j) (rmd_r2 ! j) (rmd_s2 ! j)]"

lemma ripemd160_rounds_gen: "ripemd160_rounds = concat (map rmd_gen_rounds [0..<80])"
  by code_simp

lemma rmd_op_lines: "j < 80 \<Longrightarrow> \<not> rmd_op_second (rmd_op1 j)" "j < 80 \<Longrightarrow> rmd_op_second (rmd_op2 j)"
proof -
  have "list_all (\<lambda>j. \<not> rmd_op_second (rmd_op1 j) \<and> rmd_op_second (rmd_op2 j)) [0..<80]" by code_simp
  then show "j < 80 \<Longrightarrow> \<not> rmd_op_second (rmd_op1 j)" "j < 80 \<Longrightarrow> rmd_op_second (rmd_op2 j)"
    by (simp_all add: list_all_iff)
qed

lemma rmd_s_bounds: "j < 80 \<Longrightarrow> 0 < rmd_s1 ! j \<and> rmd_s1 ! j < 32 \<and> 0 < rmd_s2 ! j \<and> rmd_s2 ! j < 32"
proof -
  have "list_all (\<lambda>j. 0 < rmd_s1 ! j \<and> rmd_s1 ! j < 32 \<and> 0 < rmd_s2 ! j \<and> rmd_s2 ! j < 32) [0..<80]" by code_simp
  then show "j < 80 \<Longrightarrow> 0 < rmd_s1 ! j \<and> rmd_s1 ! j < 32 \<and> 0 < rmd_s2 ! j \<and> rmd_s2 ! j < 32"
    by (simp add: list_all_iff)
qed

lemma rmd_rounds_sim:
  assumes "n \<le> 80" "length s = 5"
  shows "\<exists>r1 r2. fold (exec_ripemd160 w) (concat (map rmd_gen_rounds [0..<n])) (s, s) = (r1, r2)
    \<and> rot5_rel n r1 (fold (rmd_step w rmd_op1 rmd_r1 rmd_s1) [0..<n] s)
    \<and> rot5_rel n r2 (fold (rmd_step w rmd_op2 rmd_r2 rmd_s2) [0..<n] s)"
  using assms(1)
proof (induction n)
  case 0
  then show ?case using rot5_rel_0 [OF assms(2)] by simp
next
  case (Suc n)
  then obtain r1 r2 where IH: "fold (exec_ripemd160 w) (concat (map rmd_gen_rounds [0..<n])) (s, s) = (r1, r2)"
    "rot5_rel n r1 (fold (rmd_step w rmd_op1 rmd_r1 rmd_s1) [0..<n] s)"
    "rot5_rel n r2 (fold (rmd_step w rmd_op2 rmd_r2 rmd_s2) [0..<n] s)" by auto
  have "n < 80" using Suc.prems by simp
  then show ?case
    using IH rmd_op_lines [of n] rmd_s_bounds [of n] rmd_rot_step [OF IH(2)] rmd_rot_step [OF IH(3)]
    by (simp add: rmd_gen_rounds_def [of n])
qed

lemma ripemd160_Transform_compress:
  assumes "length s = 5"
  shows "ripemd160_Transform s chunk = rmd_compress s chunk"
proof -
  let ?w = "ripemd160_words chunk"
  obtain r1 r2 where run: "fold (exec_ripemd160 ?w) ripemd160_rounds (s, s) = (r1, r2)"
    "rot5_rel 80 r1 (fold (rmd_step ?w rmd_op1 rmd_r1 rmd_s1) [0..<80] s)"
    "rot5_rel 80 r2 (fold (rmd_step ?w rmd_op2 rmd_r2 rmd_s2) [0..<80] s)"
    using rmd_rounds_sim [OF order_refl assms] unfolding ripemd160_rounds_gen by blast
  then show ?thesis
    by (simp only: ripemd160_Transform_def rmd_compress_def Let_def prod.case rot5_rel_80(1) [OF run(2)] rot5_rel_80(1) [OF run(3)])
qed

section \<open>The class implements RIPEMD-160\<close>

lemma length_rmd_compress [simp]: "length (rmd_compress s d) = 5"
  by (simp add: rmd_compress_def Let_def)

lemma ripemd160_words_take: "ripemd160_words (take 64 chunk) = ripemd160_words chunk"
  by (auto simp: ripemd160_words_def ReadLE32_def drop_take min_def)

lemma length_ripemd160_Initialize: "length ripemd160_Initialize = 5"
  by (simp add: ripemd160_Initialize_def)

interpretation rmd_blocks: block_function 64 rmd_compress
  by unfold_locales (simp_all add: rmd_compress_def ripemd160_words_take)

lemma CRIPEMD160_Write_absorbs:
  assumes "absorbed 64 rmd_compress ripemd160_Initialize st m"
  shows "absorbed 64 rmd_compress ripemd160_Initialize (CRIPEMD160_Write st d) (m @ d)"
proof -
  have "length (hs st) = 5"
    using assms iter_blocks_inv [of "\<lambda>s. length s = 5" rmd_compress] by (simp add: absorbed_def length_ripemd160_Initialize)
  then have "CRIPEMD160_Write st d = stream_write 64 rmd_compress st d"
    unfolding CRIPEMD160_Write_def chunked_Write_stream [of 64, simplified]
    by (intro stream_write_cong [where P = "\<lambda>s. length s = 5"]) (simp_all add: ripemd160_Transform_compress)
  then show ?thesis using rmd_blocks.stream_write_absorbs [OF assms] by simp
qed

interpretation rmd_md: md_hash rmd_compress ripemd160_Initialize CRIPEMD160_Write WriteLE64
  "\<lambda>s. concat (map WriteLE32 (take 5 s))"
  by unfold_locales (simp_all add: CRIPEMD160_Write_absorbs)

lemma ripemd160_digest: "rmd_md.digest m = ripemd160 m"
proof -
  have "length (iter_blocks 64 rmd_compress n ripemd160_Initialize d) = 5" for n d
    using iter_blocks_inv [of "\<lambda>s. length s = 5" rmd_compress ripemd160_Initialize] length_ripemd160_Initialize by simp
  then show ?thesis by (simp add: rmd_md.digest_def ripemd160_def)
qed

lemma CRIPEMD160_Finalize_md:
  "CRIPEMD160_Finalize = md_Finalize CRIPEMD160_Write WriteLE64 (\<lambda>s. concat (map WriteLE32 (take 5 s)))"
  by (simp add: fun_eq_iff CRIPEMD160_Finalize_def md_Finalize_def)

lemma CRIPEMD160_ripemd160: "fst (CRIPEMD160_Finalize (foldl CRIPEMD160_Write CRIPEMD160_new ds)) = ripemd160 (concat ds)"
  using rmd_md.streaming [of "replicate 64 0" ds] by (simp add: CRIPEMD160_Finalize_md CRIPEMD160_new_def ripemd160_digest)

lemma Hash160_ripemd160: "Hash160 data = ripemd160 (sha256 data)"
  using SHA256_CPU_Finalize_absorbed(1) [OF SHA256_CPU_Write_absorbs [OF sha256_absorbed_new], of data]
    CRIPEMD160_ripemd160 [of "[sha256 data]"]
  by (auto simp: Hash160_def CHash160_Finalize_def split: prod.splits)

section \<open>Property\<close>


end
