(* ===== verification/Pubkey.thy ===== *)
theory Pubkey
  imports Prelude
begin

text \<open>
  Public keys and signatures: \<^verbatim>\<open>src/pubkey.h\<close> and the parts of \<^verbatim>\<open>src/pubkey.cpp\<close>
  that script verification calls. The functions of the elliptic-curve library are the fields of
  \<open>secp256k1\<close>, over an opaque type of parsed signatures and of parsed keys.
\<close>

section \<open>Keys\<close>

definition PUBLIC_KEY_SIZE :: nat where
  "PUBLIC_KEY_SIZE = 65"

definition COMPRESSED_PUBLIC_KEY_SIZE :: nat where
  "COMPRESSED_PUBLIC_KEY_SIZE = 33"

definition CPubKey_GetLen :: "u8 \<Rightarrow> nat" where
  "CPubKey_GetLen chHeader =
     (if chHeader = 2 \<or> chHeader = 3 then COMPRESSED_PUBLIC_KEY_SIZE
      else if chHeader = 4 \<or> chHeader = 6 \<or> chHeader = 7 then PUBLIC_KEY_SIZE
      else 0)"

text \<open>
  The array of 65 bytes whose first byte gives the length; what lies behind that length is never read.
  An invalid key has the header \<open>0xFF\<close>.
\<close>

type_synonym CPubKey = bytes

definition CPubKey_Invalidate :: CPubKey where
  "CPubKey_Invalidate = 0xFF # replicate 64 0"

definition CPubKey_Set :: "bytes \<Rightarrow> CPubKey" where
  "CPubKey_Set data =
     (let len = (if data = [] then 0 else CPubKey_GetLen (hd data))
      in if len \<noteq> 0 \<and> len = length data then data @ replicate (PUBLIC_KEY_SIZE - len) 0 else CPubKey_Invalidate)"

definition CPubKey_size :: "CPubKey \<Rightarrow> nat" where
  "CPubKey_size vch = CPubKey_GetLen (hd vch)"

definition CPubKey_ValidSize :: "bytes \<Rightarrow> bool" where
  "CPubKey_ValidSize vch \<longleftrightarrow> 0 < length vch \<and> CPubKey_GetLen (hd vch) = length vch"

definition CPubKey_IsValid :: "CPubKey \<Rightarrow> bool" where
  "CPubKey_IsValid vch \<longleftrightarrow> 0 < CPubKey_size vch"

definition CPubKey_IsCompressed :: "CPubKey \<Rightarrow> bool" where
  "CPubKey_IsCompressed vch \<longleftrightarrow> CPubKey_size vch = COMPRESSED_PUBLIC_KEY_SIZE"

definition CPubKey_eq :: "CPubKey \<Rightarrow> CPubKey \<Rightarrow> bool" where
  "CPubKey_eq a b \<longleftrightarrow> hd a = hd b \<and> take (CPubKey_size a) a = take (CPubKey_size a) b"

section \<open>The lax parser of DER signatures\<close>

text \<open>
  The position is the rest of the input. The code that reads the length and the bytes of an integer
  stands twice in the source, for \<open>R\<close> and for \<open>S\<close>.
\<close>

primrec der_long_length :: "nat \<Rightarrow> nat \<Rightarrow> bytes \<Rightarrow> nat \<times> bytes" where
  "der_long_length 0 len input = (len, input)"
| "der_long_length (Suc lenbyte) len input = der_long_length lenbyte (len * 256 + unat (hd input)) (tl input)"

primrec der_skip_zeroes :: "nat \<Rightarrow> bytes \<Rightarrow> nat \<times> bytes" where
  "der_skip_zeroes 0 input = (0, input)"
| "der_skip_zeroes (Suc lenbyte) input =
     (if hd input = 0 then der_skip_zeroes lenbyte (tl input) else (Suc lenbyte, input))"

definition der_lax_integer :: "bytes \<Rightarrow> (bytes \<times> bytes) option" where
  "der_lax_integer input =
     (if input = [] \<or> hd input \<noteq> 0x02 then None
      else let input = tl input in
        if input = [] then None
        else let lenbyte = unat (hd input); input = tl input in
          case (if 128 \<le> lenbyte then
                  let lenbyte = lenbyte - 128 in
                  if length input < lenbyte then None
                  else let (lenbyte, input) = der_skip_zeroes lenbyte input in
                    if 4 \<le> lenbyte then None else Some (der_long_length lenbyte 0 input)
                else Some (lenbyte, input)) of
            None \<Rightarrow> None
          | Some (len, input) \<Rightarrow> if length input < len then None else Some (take len input, drop len input))"

text \<open>An integer longer than 32 bytes after its leading zeroes is an overflow; a shorter one is padded.\<close>

definition der_compact :: "bytes \<Rightarrow> bytes option" where
  "der_compact v =
     (let v = dropWhile (\<lambda>b. b = 0) v in if 32 < length v then None else Some (replicate (32 - length v) 0 @ v))"

record ('sig, 'key) secp256k1 =
  signature_parse_compact :: "bytes \<Rightarrow> bool \<times> 'sig"
  signature_normalize :: "'sig \<Rightarrow> bool \<times> 'sig"
  ec_pubkey_parse :: "bytes \<Rightarrow> 'key option"
  ecdsa_verify :: "'sig \<Rightarrow> bytes \<Rightarrow> 'key \<Rightarrow> bool"

definition ecdsa_signature_parse_der_lax :: "('sig, 'key) secp256k1 \<Rightarrow> bytes \<Rightarrow> 'sig option" where
  "ecdsa_signature_parse_der_lax ctx input =
     (if input = [] \<or> hd input \<noteq> 0x30 then None
      else let input = tl input in
        if input = [] then None
        else let lenbyte = unat (hd input); input = tl input in
          if 128 \<le> lenbyte \<and> length input < lenbyte - 128 then None
          else let input = (if 128 \<le> lenbyte then drop (lenbyte - 128) input else input) in
            case der_lax_integer input of
              None \<Rightarrow> None
            | Some (r, input) \<Rightarrow>
                (case der_lax_integer input of
                   None \<Rightarrow> None
                 | Some (s, input) \<Rightarrow>
                     let invalid = snd (signature_parse_compact ctx (replicate 64 0)) in
                     (case (der_compact r, der_compact s) of
                        (Some r32, Some s32) \<Rightarrow>
                          (let (ok, sig) = signature_parse_compact ctx (r32 @ s32)
                           in Some (if ok then sig else invalid))
                      | _ \<Rightarrow> Some invalid)))"

definition CPubKey_Verify :: "('sig, 'key) secp256k1 \<Rightarrow> CPubKey \<Rightarrow> bytes \<Rightarrow> bytes \<Rightarrow> bool" where
  "CPubKey_Verify ctx vch hash vchSig =
     (if \<not> CPubKey_IsValid vch then False
      else case ec_pubkey_parse ctx (take (CPubKey_size vch) vch) of
        None \<Rightarrow> False
      | Some pubkey \<Rightarrow>
          (case ecdsa_signature_parse_der_lax ctx vchSig of
             None \<Rightarrow> False
           | Some sig \<Rightarrow> ecdsa_verify ctx (snd (signature_normalize ctx sig)) hash pubkey))"

definition CPubKey_CheckLowS :: "('sig, 'key) secp256k1 \<Rightarrow> bytes \<Rightarrow> bool" where
  "CPubKey_CheckLowS ctx vchSig =
     (case ecdsa_signature_parse_der_lax ctx vchSig of
        None \<Rightarrow> False
      | Some sig \<Rightarrow> \<not> fst (signature_normalize ctx sig))"

definition CPubKey_IsFullyValid :: "('sig, 'key) secp256k1 \<Rightarrow> CPubKey \<Rightarrow> bool" where
  "CPubKey_IsFullyValid ctx vch =
     (if \<not> CPubKey_IsValid vch then False else ec_pubkey_parse ctx (take (CPubKey_size vch) vch) \<noteq> None)"

lemma CPubKey_Set_valid: "CPubKey_IsValid (CPubKey_Set data) \<longleftrightarrow> CPubKey_ValidSize data"
  by (cases data)
    (auto simp: CPubKey_IsValid_def CPubKey_size_def CPubKey_Set_def CPubKey_ValidSize_def CPubKey_GetLen_def
      CPubKey_Invalidate_def Let_def PUBLIC_KEY_SIZE_def COMPRESSED_PUBLIC_KEY_SIZE_def)

lemma CPubKey_Set_data: "CPubKey_ValidSize data \<Longrightarrow> take (CPubKey_size (CPubKey_Set data)) (CPubKey_Set data) = data"
  by (cases data) (auto simp: CPubKey_size_def CPubKey_Set_def CPubKey_ValidSize_def Let_def)

end
