(* ===== verification/Interpreter.thy ===== *)
theory Interpreter
  imports Script Script_Error Ripemd160 Pubkey
begin

text \<open>
  The script interpreter: \<^verbatim>\<open>EvalScript\<close> of \<^verbatim>\<open>src/script/interpreter.cpp\<close> with the
  encoding checks it makes. Both stacks and the list of open conditionals have their top at the head. The
  iterator is the rest of the script, so the subscript hashed by a signature check, which starts behind
  the last code separator, is a suffix too. An exception inside the loop, a script number error or a
  stack access out of range, ends in \<open>SCRIPT_ERR_UNKNOWN_ERROR\<close> as in the source; a failed \<open>assert\<close>
  ends the program and is \<open>Abort\<close>.
\<close>

section \<open>Flags, results and the signature checker\<close>

definition SIGHASH_ALL :: u32 where
  "SIGHASH_ALL = 1"

definition SIGHASH_NONE :: u32 where
  "SIGHASH_NONE = 2"

definition SIGHASH_SINGLE :: u32 where
  "SIGHASH_SINGLE = 3"

definition SIGHASH_ANYONECANPAY :: u32 where
  "SIGHASH_ANYONECANPAY = 0x80"

definition SCRIPT_VERIFY_NONE :: u32 where
  "SCRIPT_VERIFY_NONE = 0"

definition SCRIPT_VERIFY_P2SH :: u32 where
  "SCRIPT_VERIFY_P2SH = 0x1"

definition SCRIPT_VERIFY_STRICTENC :: u32 where
  "SCRIPT_VERIFY_STRICTENC = 0x2"

definition SCRIPT_VERIFY_DERSIG :: u32 where
  "SCRIPT_VERIFY_DERSIG = 0x4"

definition SCRIPT_VERIFY_LOW_S :: u32 where
  "SCRIPT_VERIFY_LOW_S = 0x8"

definition SCRIPT_VERIFY_NULLDUMMY :: u32 where
  "SCRIPT_VERIFY_NULLDUMMY = 0x10"

definition SCRIPT_VERIFY_SIGPUSHONLY :: u32 where
  "SCRIPT_VERIFY_SIGPUSHONLY = 0x20"

definition SCRIPT_VERIFY_MINIMALDATA :: u32 where
  "SCRIPT_VERIFY_MINIMALDATA = 0x40"

definition SCRIPT_VERIFY_DISCOURAGE_UPGRADABLE_NOPS :: u32 where
  "SCRIPT_VERIFY_DISCOURAGE_UPGRADABLE_NOPS = 0x80"

definition SCRIPT_VERIFY_CLEANSTACK :: u32 where
  "SCRIPT_VERIFY_CLEANSTACK = 0x100"

definition SCRIPT_VERIFY_CHECKLOCKTIMEVERIFY :: u32 where
  "SCRIPT_VERIFY_CHECKLOCKTIMEVERIFY = 0x200"

definition SCRIPT_VERIFY_CHECKSEQUENCEVERIFY :: u32 where
  "SCRIPT_VERIFY_CHECKSEQUENCEVERIFY = 0x400"

definition SCRIPT_VERIFY_WITNESS :: u32 where
  "SCRIPT_VERIFY_WITNESS = 0x800"

definition SCRIPT_VERIFY_DISCOURAGE_UPGRADABLE_WITNESS_PROGRAM :: u32 where
  "SCRIPT_VERIFY_DISCOURAGE_UPGRADABLE_WITNESS_PROGRAM = 0x1000"

definition SCRIPT_VERIFY_MINIMALIF :: u32 where
  "SCRIPT_VERIFY_MINIMALIF = 0x2000"

definition SCRIPT_VERIFY_NULLFAIL :: u32 where
  "SCRIPT_VERIFY_NULLFAIL = 0x4000"

definition SCRIPT_VERIFY_WITNESS_PUBKEYTYPE :: u32 where
  "SCRIPT_VERIFY_WITNESS_PUBKEYTYPE = 0x8000"

definition SCRIPT_VERIFY_CONST_SCRIPTCODE :: u32 where
  "SCRIPT_VERIFY_CONST_SCRIPTCODE = 0x10000"

definition WITNESS_V0_SCRIPTHASH_SIZE :: nat where
  "WITNESS_V0_SCRIPTHASH_SIZE = 32"

definition WITNESS_V0_KEYHASH_SIZE :: nat where
  "WITNESS_V0_KEYHASH_SIZE = 20"

datatype SigVersion = SV_BASE | SV_WITNESS_V0

datatype script_fail = Fail ScriptError | Abort

abbreviation (input) set_error :: "ScriptError \<Rightarrow> script_fail + 'a" where
  "set_error serror \<equiv> Inl (Fail serror)"

text \<open>
  The virtual methods of \<open>BaseSignatureChecker\<close>; \<open>CheckSig\<close> may run into the assertion of
  \<open>SignatureHash\<close>, which is \<open>None\<close>. \<open>checker_CheckLowS\<close> is the static method \<open>CPubKey::CheckLowS\<close>,
  which the encoding check calls.
\<close>

record checker =
  CheckSig :: "bytes \<Rightarrow> bytes \<Rightarrow> bytes \<Rightarrow> SigVersion \<Rightarrow> bool option"
  CheckLockTime :: "int \<Rightarrow> bool"
  CheckSequence :: "int \<Rightarrow> bool"
  checker_CheckLowS :: "bytes \<Rightarrow> bool"

text \<open>The arguments of \<open>EvalScript\<close> that do not change.\<close>

record eval_config =
  ec_flags :: u32
  ec_checker :: checker
  ec_sigversion :: SigVersion

record eval_state =
  stack :: "bytes list"
  altstack :: "bytes list"
  vfExec :: "bool list"
  nOpCount :: int
  codehash :: bytes

definition has_flag :: "u32 \<Rightarrow> u32 \<Rightarrow> bool" where
  "has_flag flags f \<longleftrightarrow> flags AND f \<noteq> 0"

abbreviation (input) vchFalse :: bytes where "vchFalse \<equiv> []"
abbreviation (input) vchTrue :: bytes where "vchTrue \<equiv> [1]"

section \<open>Encoding checks\<close>

fun CastToBool :: "bytes \<Rightarrow> bool" where
  "CastToBool [] = False"
| "CastToBool (b # vch) = (if b \<noteq> 0 then \<not> (vch = [] \<and> b = 0x80) else CastToBool vch)"

definition IsCompressedOrUncompressedPubKey :: "bytes \<Rightarrow> bool" where
  "IsCompressedOrUncompressedPubKey vchPubKey =
     (if length vchPubKey < COMPRESSED_PUBLIC_KEY_SIZE then False
      else if vchPubKey ! 0 = 0x04 then length vchPubKey = PUBLIC_KEY_SIZE
      else if vchPubKey ! 0 = 0x02 \<or> vchPubKey ! 0 = 0x03 then length vchPubKey = COMPRESSED_PUBLIC_KEY_SIZE
      else False)"

definition IsCompressedPubKey :: "bytes \<Rightarrow> bool" where
  "IsCompressedPubKey vchPubKey =
     (if length vchPubKey \<noteq> COMPRESSED_PUBLIC_KEY_SIZE then False
      else if vchPubKey ! 0 \<noteq> 0x02 \<and> vchPubKey ! 0 \<noteq> 0x03 then False
      else True)"

definition IsValidSignatureEncoding :: "bytes \<Rightarrow> bool" where
  "IsValidSignatureEncoding sig =
     (if length sig < 9 then False
      else if 73 < length sig then False
      else if sig ! 0 \<noteq> 0x30 then False
      else if unat (sig ! 1) \<noteq> length sig - 3 then False
      else let lenR = unat (sig ! 3) in
        if length sig \<le> 5 + lenR then False
        else let lenS = unat (sig ! (5 + lenR)) in
          if lenR + lenS + 7 \<noteq> length sig then False
          else if sig ! 2 \<noteq> 0x02 then False
          else if lenR = 0 then False
          else if sig ! 4 AND 0x80 \<noteq> 0 then False
          else if 1 < lenR \<and> sig ! 4 = 0 \<and> sig ! 5 AND 0x80 = 0 then False
          else if sig ! (lenR + 4) \<noteq> 0x02 then False
          else if lenS = 0 then False
          else if sig ! (lenR + 6) AND 0x80 \<noteq> 0 then False
          else if 1 < lenS \<and> sig ! (lenR + 6) = 0 \<and> sig ! (lenR + 7) AND 0x80 = 0 then False
          else True)"

text \<open>The checks that report an error return it; \<open>None\<close> means that the check passed.\<close>

definition IsLowDERSignature :: "(bytes \<Rightarrow> bool) \<Rightarrow> bytes \<Rightarrow> ScriptError option" where
  "IsLowDERSignature CheckLowS vchSig =
     (if \<not> IsValidSignatureEncoding vchSig then Some SCRIPT_ERR_SIG_DER
      else if \<not> CheckLowS (butlast vchSig) then Some SCRIPT_ERR_SIG_HIGH_S
      else None)"

definition IsDefinedHashtypeSignature :: "bytes \<Rightarrow> bool" where
  "IsDefinedHashtypeSignature vchSig =
     (if length vchSig = 0 then False
      else let nHashType = last vchSig AND 0x7F
           in \<not> (nHashType < ucast SIGHASH_ALL \<or> ucast SIGHASH_SINGLE < nHashType))"

definition CheckSignatureEncoding :: "(bytes \<Rightarrow> bool) \<Rightarrow> bytes \<Rightarrow> u32 \<Rightarrow> ScriptError option" where
  "CheckSignatureEncoding CheckLowS vchSig flags =
     (if length vchSig = 0 then None
      else if has_flag flags (SCRIPT_VERIFY_DERSIG OR SCRIPT_VERIFY_LOW_S OR SCRIPT_VERIFY_STRICTENC)
           \<and> \<not> IsValidSignatureEncoding vchSig then Some SCRIPT_ERR_SIG_DER
      else if has_flag flags SCRIPT_VERIFY_LOW_S \<and> IsLowDERSignature CheckLowS vchSig \<noteq> None
           then IsLowDERSignature CheckLowS vchSig
      else if has_flag flags SCRIPT_VERIFY_STRICTENC \<and> \<not> IsDefinedHashtypeSignature vchSig
           then Some SCRIPT_ERR_SIG_HASHTYPE
      else None)"

definition CheckPubKeyEncoding :: "bytes \<Rightarrow> u32 \<Rightarrow> SigVersion \<Rightarrow> ScriptError option" where
  "CheckPubKeyEncoding vchPubKey flags sigversion =
     (if has_flag flags SCRIPT_VERIFY_STRICTENC \<and> \<not> IsCompressedOrUncompressedPubKey vchPubKey
      then Some SCRIPT_ERR_PUBKEYTYPE
      else if has_flag flags SCRIPT_VERIFY_WITNESS_PUBKEYTYPE \<and> sigversion = SV_WITNESS_V0 \<and>
              \<not> IsCompressedPubKey vchPubKey then Some SCRIPT_ERR_WITNESS_PUBKEYTYPE
      else None)"

text \<open>\<open>None\<close> is the failed assertion.\<close>

definition CheckMinimalPush :: "bytes \<Rightarrow> opcodetype \<Rightarrow> bool option" where
  "CheckMinimalPush data opcode =
     (if \<not> opcode \<le> OP_PUSHDATA4 then None
      else Some
       (if length data = 0 then opcode = OP_0
        else if length data = 1 \<and> 1 \<le> data ! 0 \<and> data ! 0 \<le> 16 then False
        else if length data = 1 \<and> data ! 0 = 0x81 then False
        else if length data \<le> 75 then unat opcode = length data
        else if length data \<le> 255 then opcode = OP_PUSHDATA1
        else if length data \<le> 65535 then opcode = OP_PUSHDATA2
        else True))"

section \<open>FindAndDelete\<close>

function skip_matches :: "bytes \<Rightarrow> bytes \<Rightarrow> nat \<Rightarrow> bytes \<times> nat" where
  "skip_matches b pc nFound =
     (if b \<noteq> [] \<and> length b \<le> length pc \<and> take (length b) pc = b
      then skip_matches b (drop (length b) pc) (nFound + 1)
      else (pc, nFound))"
  by pat_completeness auto
termination
  by (relation "measure (\<lambda>(b, pc, nFound). length pc)")
    (auto intro!: diff_less simp flip: length_greater_0_conv)

declare skip_matches.simps [simp del]

lemma skip_matches_length: "skip_matches b pc n = (pc', n') \<Longrightarrow> length pc' \<le> length pc"
proof (induction b pc n rule: skip_matches.induct)
  case (1 b pc n)
  then show ?case by (subst (asm) skip_matches.simps) (fastforce split: if_splits)
qed

text \<open>The bytes \<open>[pc2, pc)\<close> are what \<open>pc2\<close> has before its suffix \<open>pc\<close>.\<close>

function FindAndDelete_loop :: "bytes \<Rightarrow> bytes \<Rightarrow> bytes \<Rightarrow> bytes \<Rightarrow> nat \<Rightarrow> bytes \<times> bytes \<times> nat" where
  "FindAndDelete_loop b pc pc2 result nFound =
     (let result = result @ take (length pc2 - length pc) pc2;
          (pc, nFound) = skip_matches b pc nFound;
          pc2 = pc
      in case GetScriptOp pc of
           (ok, opcode, vch, pc') \<Rightarrow>
             if ok then FindAndDelete_loop b pc' pc2 result nFound else (pc2, result, nFound))"
  by pat_completeness auto
termination
  by (relation "measure (\<lambda>(b, pc, pc2, result, nFound). length pc)")
    (auto dest!: GetScriptOp_progress [OF sym] skip_matches_length [OF sym])

declare FindAndDelete_loop.simps [simp del]

definition FindAndDelete :: "bytes \<Rightarrow> bytes \<Rightarrow> nat \<times> bytes" where
  "FindAndDelete script b =
     (if b = [] then (0, script)
      else case FindAndDelete_loop b script script [] 0 of
        (pc2, result, nFound) \<Rightarrow> if 0 < nFound then (nFound, result @ pc2) else (nFound, script))"

section \<open>The opcodes\<close>

definition SEQUENCE_LOCKTIME_DISABLE_FLAG :: u32 where
  "SEQUENCE_LOCKTIME_DISABLE_FLAG = 0x80000000"

text \<open>
  One definition for each group of cases of the switch. A number is read from the stack with at most
  \<open>n\<close> bytes; a malformed one throws.
\<close>

definition fRequireMinimal :: "eval_config \<Rightarrow> bool" where
  "fRequireMinimal cfg \<longleftrightarrow> has_flag (ec_flags cfg) SCRIPT_VERIFY_MINIMALDATA"

definition with_num :: "eval_config \<Rightarrow> nat \<Rightarrow> bytes \<Rightarrow> (int \<Rightarrow> script_fail + 'a) \<Rightarrow> script_fail + 'a" where
  "with_num cfg n vch k =
     (case CScriptNum vch (fRequireMinimal cfg) n of
        None \<Rightarrow> set_error SCRIPT_ERR_UNKNOWN_ERROR
      | Some bn \<Rightarrow> k bn)"

definition bool_num :: "bool \<Rightarrow> int" where
  "bool_num b = (if b then 1 else 0)"

definition eval_push_value :: "opcodetype \<Rightarrow> eval_state \<Rightarrow> script_fail + eval_state" where
  "eval_push_value opcode st =
     Inr (st\<lparr>stack := CScriptNum_serialize (uint opcode - (uint OP_1 - 1)) # stack st\<rparr>)"

definition eval_locktime :: "eval_config \<Rightarrow> opcodetype \<Rightarrow> eval_state \<Rightarrow> script_fail + eval_state" where
  "eval_locktime cfg opcode st =
     (if opcode = OP_CHECKLOCKTIMEVERIFY then
        (if \<not> has_flag (ec_flags cfg) SCRIPT_VERIFY_CHECKLOCKTIMEVERIFY then Inr st
         else case stack st of
           [] \<Rightarrow> set_error SCRIPT_ERR_INVALID_STACK_OPERATION
         | vch # s \<Rightarrow> with_num cfg 5 vch (\<lambda>locktime.
             if locktime < 0 then set_error SCRIPT_ERR_NEGATIVE_LOCKTIME
             else if \<not> CheckLockTime (ec_checker cfg) locktime then set_error SCRIPT_ERR_UNSATISFIED_LOCKTIME
             else Inr st))
      else
        (if \<not> has_flag (ec_flags cfg) SCRIPT_VERIFY_CHECKSEQUENCEVERIFY then Inr st
         else case stack st of
           [] \<Rightarrow> set_error SCRIPT_ERR_INVALID_STACK_OPERATION
         | vch # s \<Rightarrow> with_num cfg 5 vch (\<lambda>seq.
             if seq < 0 then set_error SCRIPT_ERR_NEGATIVE_LOCKTIME
             else if seq AND uint SEQUENCE_LOCKTIME_DISABLE_FLAG \<noteq> 0 then Inr st
             else if \<not> CheckSequence (ec_checker cfg) seq then set_error SCRIPT_ERR_UNSATISFIED_LOCKTIME
             else Inr st)))"

definition eval_if :: "eval_config \<Rightarrow> opcodetype \<Rightarrow> bool \<Rightarrow> eval_state \<Rightarrow> script_fail + eval_state" where
  "eval_if cfg opcode fExec st =
     (if fExec then
        case stack st of
          [] \<Rightarrow> set_error SCRIPT_ERR_UNBALANCED_CONDITIONAL
        | vch # s \<Rightarrow>
            if ec_sigversion cfg = SV_WITNESS_V0 \<and> has_flag (ec_flags cfg) SCRIPT_VERIFY_MINIMALIF \<and>
               (1 < length vch \<or> (length vch = 1 \<and> vch ! 0 \<noteq> 1)) then set_error SCRIPT_ERR_MINIMALIF
            else let fValue = CastToBool vch; fValue = (if opcode = OP_NOTIF then \<not> fValue else fValue)
                 in Inr (st\<lparr>stack := s, vfExec := fValue # vfExec st\<rparr>)
      else Inr (st\<lparr>vfExec := False # vfExec st\<rparr>))"

definition eval_control :: "opcodetype \<Rightarrow> eval_state \<Rightarrow> script_fail + eval_state" where
  "eval_control opcode st =
     (if opcode = OP_ELSE then
        (case vfExec st of
           [] \<Rightarrow> set_error SCRIPT_ERR_UNBALANCED_CONDITIONAL
         | v # vs \<Rightarrow> Inr (st\<lparr>vfExec := (\<not> v) # vs\<rparr>))
      else if opcode = OP_ENDIF then
        (case vfExec st of
           [] \<Rightarrow> set_error SCRIPT_ERR_UNBALANCED_CONDITIONAL
         | v # vs \<Rightarrow> Inr (st\<lparr>vfExec := vs\<rparr>))
      else if opcode = OP_VERIFY then
        (case stack st of
           [] \<Rightarrow> set_error SCRIPT_ERR_INVALID_STACK_OPERATION
         | vch # s \<Rightarrow> if CastToBool vch then Inr (st\<lparr>stack := s\<rparr>) else set_error SCRIPT_ERR_VERIFY)
      else set_error SCRIPT_ERR_OP_RETURN)"

definition eval_stack_op :: "opcodetype \<Rightarrow> bytes list \<Rightarrow> (bytes list) option" where
  "eval_stack_op opcode s =
     (if opcode = OP_2DROP then (case s of x2 # x1 # s \<Rightarrow> Some s | _ \<Rightarrow> None)
      else if opcode = OP_2DUP then (case s of x2 # x1 # s \<Rightarrow> Some (x2 # x1 # x2 # x1 # s) | _ \<Rightarrow> None)
      else if opcode = OP_3DUP then
        (case s of x3 # x2 # x1 # s \<Rightarrow> Some (x3 # x2 # x1 # x3 # x2 # x1 # s) | _ \<Rightarrow> None)
      else if opcode = OP_2OVER then
        (case s of x4 # x3 # x2 # x1 # s \<Rightarrow> Some (x2 # x1 # x4 # x3 # x2 # x1 # s) | _ \<Rightarrow> None)
      else if opcode = OP_2ROT then
        (case s of x6 # x5 # x4 # x3 # x2 # x1 # s \<Rightarrow> Some (x2 # x1 # x6 # x5 # x4 # x3 # s) | _ \<Rightarrow> None)
      else if opcode = OP_2SWAP then
        (case s of x4 # x3 # x2 # x1 # s \<Rightarrow> Some (x2 # x1 # x4 # x3 # s) | _ \<Rightarrow> None)
      else if opcode = OP_IFDUP then (case s of x # s \<Rightarrow> Some (if CastToBool x then x # x # s else x # s) | _ \<Rightarrow> None)
      else if opcode = OP_DEPTH then Some (CScriptNum_serialize (int (length s)) # s)
      else if opcode = OP_DROP then (case s of x # s \<Rightarrow> Some s | _ \<Rightarrow> None)
      else if opcode = OP_DUP then (case s of x # s \<Rightarrow> Some (x # x # s) | _ \<Rightarrow> None)
      else if opcode = OP_NIP then (case s of x2 # x1 # s \<Rightarrow> Some (x2 # s) | _ \<Rightarrow> None)
      else if opcode = OP_OVER then (case s of x2 # x1 # s \<Rightarrow> Some (x1 # x2 # x1 # s) | _ \<Rightarrow> None)
      else if opcode = OP_ROT then (case s of x3 # x2 # x1 # s \<Rightarrow> Some (x1 # x3 # x2 # s) | _ \<Rightarrow> None)
      else if opcode = OP_SWAP then (case s of x2 # x1 # s \<Rightarrow> Some (x1 # x2 # s) | _ \<Rightarrow> None)
      else if opcode = OP_TUCK then (case s of x2 # x1 # s \<Rightarrow> Some (x2 # x1 # x2 # s) | _ \<Rightarrow> None)
      else (case s of x # s \<Rightarrow> Some (CScriptNum_serialize (int (length x)) # x # s) | _ \<Rightarrow> None))"

definition eval_altstack :: "opcodetype \<Rightarrow> eval_state \<Rightarrow> script_fail + eval_state" where
  "eval_altstack opcode st =
     (if opcode = OP_TOALTSTACK then
        (case stack st of
           [] \<Rightarrow> set_error SCRIPT_ERR_INVALID_STACK_OPERATION
         | x # s \<Rightarrow> Inr (st\<lparr>stack := s, altstack := x # altstack st\<rparr>))
      else
        (case altstack st of
           [] \<Rightarrow> set_error SCRIPT_ERR_INVALID_ALTSTACK_OPERATION
         | x # s \<Rightarrow> Inr (st\<lparr>stack := x # stack st, altstack := s\<rparr>)))"

definition eval_pick_roll :: "eval_config \<Rightarrow> opcodetype \<Rightarrow> eval_state \<Rightarrow> script_fail + eval_state" where
  "eval_pick_roll cfg opcode st =
     (case stack st of
        idx # x # s \<Rightarrow> with_num cfg nDefaultMaxNumSize idx (\<lambda>bn.
          let n = CScriptNum_getint bn; stk = x # s in
          if n < 0 \<or> int (length stk) \<le> n then set_error SCRIPT_ERR_INVALID_STACK_OPERATION
          else let vch = stk ! nat n;
                   stk = (if opcode = OP_ROLL then take (nat n) stk @ drop (Suc (nat n)) stk else stk)
               in Inr (st\<lparr>stack := vch # stk\<rparr>))
      | _ \<Rightarrow> set_error SCRIPT_ERR_INVALID_STACK_OPERATION)"

definition eval_equal :: "opcodetype \<Rightarrow> eval_state \<Rightarrow> script_fail + eval_state" where
  "eval_equal opcode st =
     (case stack st of
        vch2 # vch1 # s \<Rightarrow>
          let fEqual = (vch1 = vch2) in
          if opcode = OP_EQUALVERIFY then
            (if fEqual then Inr (st\<lparr>stack := s\<rparr>) else set_error SCRIPT_ERR_EQUALVERIFY)
          else Inr (st\<lparr>stack := (if fEqual then vchTrue else vchFalse) # s\<rparr>)
      | _ \<Rightarrow> set_error SCRIPT_ERR_INVALID_STACK_OPERATION)"

text \<open>
  Arithmetic on script numbers asserts that the 64-bit result does not overflow, or relies on it.
  \<open>num_result\<close> is the value when it fits; otherwise the assertion fails (or the sum is undefined).
\<close>

definition num_result :: "int \<Rightarrow> (int \<Rightarrow> script_fail + 'a) \<Rightarrow> script_fail + 'a" where
  "num_result bn k = (if - (2 ^ 63) \<le> bn \<and> bn < 2 ^ 63 then k bn else Inl Abort)"

definition unary_num :: "opcodetype \<Rightarrow> int \<Rightarrow> int" where
  "unary_num opcode bn =
     (if opcode = OP_1ADD then bn + 1
      else if opcode = OP_1SUB then bn - 1
      else if opcode = OP_NEGATE then - bn
      else if opcode = OP_ABS then (if bn < 0 then - bn else bn)
      else if opcode = OP_NOT then bool_num (bn = 0)
      else bool_num (bn \<noteq> 0))"

definition eval_unary :: "eval_config \<Rightarrow> opcodetype \<Rightarrow> eval_state \<Rightarrow> script_fail + eval_state" where
  "eval_unary cfg opcode st =
     (case stack st of
        [] \<Rightarrow> set_error SCRIPT_ERR_INVALID_STACK_OPERATION
      | vch # s \<Rightarrow> with_num cfg nDefaultMaxNumSize vch (\<lambda>bn.
          num_result (unary_num opcode bn) (\<lambda>bn. Inr (st\<lparr>stack := CScriptNum_serialize bn # s\<rparr>))))"

definition binary_num :: "opcodetype \<Rightarrow> int \<Rightarrow> int \<Rightarrow> int" where
  "binary_num opcode bn1 bn2 =
     (if opcode = OP_ADD then bn1 + bn2
      else if opcode = OP_SUB then bn1 - bn2
      else if opcode = OP_BOOLAND then bool_num (bn1 \<noteq> 0 \<and> bn2 \<noteq> 0)
      else if opcode = OP_BOOLOR then bool_num (bn1 \<noteq> 0 \<or> bn2 \<noteq> 0)
      else if opcode = OP_NUMEQUAL then bool_num (bn1 = bn2)
      else if opcode = OP_NUMEQUALVERIFY then bool_num (bn1 = bn2)
      else if opcode = OP_NUMNOTEQUAL then bool_num (bn1 \<noteq> bn2)
      else if opcode = OP_LESSTHAN then bool_num (bn1 < bn2)
      else if opcode = OP_GREATERTHAN then bool_num (bn2 < bn1)
      else if opcode = OP_LESSTHANOREQUAL then bool_num (bn1 \<le> bn2)
      else if opcode = OP_GREATERTHANOREQUAL then bool_num (bn2 \<le> bn1)
      else if opcode = OP_MIN then (if bn1 < bn2 then bn1 else bn2)
      else (if bn2 < bn1 then bn1 else bn2))"

definition eval_binary :: "eval_config \<Rightarrow> opcodetype \<Rightarrow> eval_state \<Rightarrow> script_fail + eval_state" where
  "eval_binary cfg opcode st =
     (case stack st of
        vch2 # vch1 # s \<Rightarrow>
          with_num cfg nDefaultMaxNumSize vch1 (\<lambda>bn1. with_num cfg nDefaultMaxNumSize vch2 (\<lambda>bn2.
          num_result (binary_num opcode bn1 bn2) (\<lambda>bn.
            let vch = CScriptNum_serialize bn in
            if opcode = OP_NUMEQUALVERIFY then
              (if CastToBool vch then Inr (st\<lparr>stack := s\<rparr>) else set_error SCRIPT_ERR_NUMEQUALVERIFY)
            else Inr (st\<lparr>stack := vch # s\<rparr>))))
      | _ \<Rightarrow> set_error SCRIPT_ERR_INVALID_STACK_OPERATION)"

definition eval_within :: "eval_config \<Rightarrow> eval_state \<Rightarrow> script_fail + eval_state" where
  "eval_within cfg st =
     (case stack st of
        vch3 # vch2 # vch1 # s \<Rightarrow>
          with_num cfg nDefaultMaxNumSize vch1 (\<lambda>bn1. with_num cfg nDefaultMaxNumSize vch2 (\<lambda>bn2.
          with_num cfg nDefaultMaxNumSize vch3 (\<lambda>bn3.
            Inr (st\<lparr>stack := (if bn2 \<le> bn1 \<and> bn1 < bn3 then vchTrue else vchFalse) # s\<rparr>))))
      | _ \<Rightarrow> set_error SCRIPT_ERR_INVALID_STACK_OPERATION)"

definition script_hash :: "opcodetype \<Rightarrow> bytes \<Rightarrow> bytes" where
  "script_hash opcode vch =
     (if opcode = OP_RIPEMD160 then fst (CRIPEMD160_Finalize (CRIPEMD160_Write CRIPEMD160_new vch))
      else if opcode = OP_SHA1 then fst (CSHA1_Finalize (CSHA1_Write CSHA1_new vch))
      else if opcode = OP_SHA256 then fst (SHA256_CPU_Finalize (SHA256_CPU_Write SHA256_CPU_new vch))
      else if opcode = OP_HASH160 then fst (CHash160_Finalize (SHA256_CPU_Write SHA256_CPU_new vch))
      else fst (DoubleHash256_Finalize (SHA256_CPU_Write SHA256_CPU_new vch)))"

definition eval_crypto :: "opcodetype \<Rightarrow> eval_state \<Rightarrow> script_fail + eval_state" where
  "eval_crypto opcode st =
     (case stack st of
        [] \<Rightarrow> set_error SCRIPT_ERR_INVALID_STACK_OPERATION
      | vch # s \<Rightarrow> Inr (st\<lparr>stack := script_hash opcode vch # s\<rparr>))"

text \<open>Drop the signature from the script code before the witness rules.\<close>

definition drop_sig :: "eval_config \<Rightarrow> bytes \<Rightarrow> bytes \<Rightarrow> script_fail + bytes" where
  "drop_sig cfg vchSig scriptCode =
     (if ec_sigversion cfg = SV_BASE then
        (case FindAndDelete scriptCode (CScript_push vchSig) of
           (found, scriptCode) \<Rightarrow>
             if 0 < found \<and> has_flag (ec_flags cfg) SCRIPT_VERIFY_CONST_SCRIPTCODE
             then set_error SCRIPT_ERR_SIG_FINDANDDELETE else Inr scriptCode)
      else Inr scriptCode)"

text \<open>The encoding checks and the signature check of one signature against one key.\<close>

definition check_one_sig :: "eval_config \<Rightarrow> bytes \<Rightarrow> bytes \<Rightarrow> bytes \<Rightarrow> script_fail + bool" where
  "check_one_sig cfg scriptCode vchSig vchPubKey =
     (case CheckSignatureEncoding (checker_CheckLowS (ec_checker cfg)) vchSig (ec_flags cfg) of
        Some e \<Rightarrow> set_error e
      | None \<Rightarrow>
          (case CheckPubKeyEncoding vchPubKey (ec_flags cfg) (ec_sigversion cfg) of
             Some e \<Rightarrow> set_error e
           | None \<Rightarrow>
               (case CheckSig (ec_checker cfg) vchSig vchPubKey scriptCode (ec_sigversion cfg) of
                  None \<Rightarrow> Inl Abort
                | Some fSuccess \<Rightarrow> Inr fSuccess)))"

definition eval_checksig :: "eval_config \<Rightarrow> opcodetype \<Rightarrow> eval_state \<Rightarrow> script_fail + eval_state" where
  "eval_checksig cfg opcode st =
     (case stack st of
        vchPubKey # vchSig # s \<Rightarrow>
          (case drop_sig cfg vchSig (codehash st) of
             Inl e \<Rightarrow> Inl e
           | Inr scriptCode \<Rightarrow>
               (case check_one_sig cfg scriptCode vchSig vchPubKey of
                  Inl e \<Rightarrow> Inl e
                | Inr fSuccess \<Rightarrow>
                    if \<not> fSuccess \<and> has_flag (ec_flags cfg) SCRIPT_VERIFY_NULLFAIL \<and> vchSig \<noteq> []
                    then set_error SCRIPT_ERR_SIG_NULLFAIL
                    else if opcode = OP_CHECKSIGVERIFY then
                      (if fSuccess then Inr (st\<lparr>stack := s\<rparr>) else set_error SCRIPT_ERR_CHECKSIGVERIFY)
                    else Inr (st\<lparr>stack := (if fSuccess then vchTrue else vchFalse) # s\<rparr>)))
      | _ \<Rightarrow> set_error SCRIPT_ERR_INVALID_STACK_OPERATION)"

section \<open>CHECKMULTISIG\<close>

text \<open>\<open>stacktop(-i)\<close>, which throws out of range.\<close>

definition stacktop :: "bytes list \<Rightarrow> nat \<Rightarrow> bytes option" where
  "stacktop s i = (if 1 \<le> i \<and> i \<le> length s then Some (s ! (i - 1)) else None)"

primrec multisig_drop :: "eval_config \<Rightarrow> bytes list \<Rightarrow> nat \<Rightarrow> nat \<Rightarrow> bytes \<Rightarrow> script_fail + bytes" where
  "multisig_drop cfg s isig 0 scriptCode = Inr scriptCode"
| "multisig_drop cfg s isig (Suc n) scriptCode =
     (case stacktop s isig of
        None \<Rightarrow> set_error SCRIPT_ERR_UNKNOWN_ERROR
      | Some vchSig \<Rightarrow>
          (case drop_sig cfg vchSig scriptCode of
             Inl e \<Rightarrow> Inl e
           | Inr scriptCode \<Rightarrow> multisig_drop cfg s (isig + 1) n scriptCode))"

text \<open>
  The matching loop; it ends because every round uses up a key and stops when fewer keys than
  signatures are left.
\<close>

function multisig_loop ::
  "eval_config \<Rightarrow> bytes \<Rightarrow> bytes list \<Rightarrow> nat \<Rightarrow> nat \<Rightarrow> nat \<Rightarrow> nat \<Rightarrow> bool \<Rightarrow> script_fail + bool" where
  "multisig_loop cfg scriptCode s isig ikey nSigsCount nKeysCount fSuccess =
     (if fSuccess \<and> 0 < nSigsCount \<and> 0 < nKeysCount then
        (case (stacktop s isig, stacktop s ikey) of
           (Some vchSig, Some vchPubKey) \<Rightarrow>
             (case check_one_sig cfg scriptCode vchSig vchPubKey of
                Inl e \<Rightarrow> Inl e
              | Inr fOk \<Rightarrow>
                  let isig = (if fOk then isig + 1 else isig);
                      nSigsCount = (if fOk then nSigsCount - 1 else nSigsCount);
                      nKeysCount = nKeysCount - 1
                  in multisig_loop cfg scriptCode s isig (ikey + 1) nSigsCount nKeysCount
                       (nSigsCount \<le> nKeysCount))
         | _ \<Rightarrow> set_error SCRIPT_ERR_UNKNOWN_ERROR)
      else Inr fSuccess)"
  by pat_completeness auto
termination
  by (relation "measure (\<lambda>(cfg, scriptCode, s, isig, ikey, nSigsCount, nKeysCount, fSuccess). nKeysCount)") auto

declare multisig_loop.simps [simp del]

primrec multisig_cleanup :: "eval_config \<Rightarrow> bool \<Rightarrow> nat \<Rightarrow> nat \<Rightarrow> bytes list \<Rightarrow> script_fail + bytes list" where
  "multisig_cleanup cfg fSuccess 0 ikey2 s = Inr s"
| "multisig_cleanup cfg fSuccess (Suc n) ikey2 s =
     (case s of
        [] \<Rightarrow> set_error SCRIPT_ERR_UNKNOWN_ERROR
      | x # s \<Rightarrow>
          if \<not> fSuccess \<and> has_flag (ec_flags cfg) SCRIPT_VERIFY_NULLFAIL \<and> ikey2 = 0 \<and> x \<noteq> []
          then set_error SCRIPT_ERR_SIG_NULLFAIL
          else multisig_cleanup cfg fSuccess n (ikey2 - 1) s)"

text \<open>What follows the two counts, with \<open>i\<close> the position behind the signatures.\<close>

definition multisig_finish ::
  "eval_config \<Rightarrow> opcodetype \<Rightarrow> eval_state \<Rightarrow> nat \<Rightarrow> nat \<Rightarrow> script_fail + eval_state" where
  "multisig_finish cfg opcode st nKeysCount nSigsCount =
     (let isig = nKeysCount + 3; ikey = 2; i = isig + nSigsCount in
      if length (stack st) < i then set_error SCRIPT_ERR_INVALID_STACK_OPERATION
      else case multisig_drop cfg (stack st) isig nSigsCount (codehash st) of
        Inl e \<Rightarrow> Inl e
      | Inr scriptCode \<Rightarrow>
          (case multisig_loop cfg scriptCode (stack st) isig ikey nSigsCount nKeysCount True of
             Inl e \<Rightarrow> Inl e
           | Inr fSuccess \<Rightarrow>
               (case multisig_cleanup cfg fSuccess (i - 1) (nKeysCount + 2) (stack st) of
                  Inl e \<Rightarrow> Inl e
                | Inr [] \<Rightarrow> set_error SCRIPT_ERR_INVALID_STACK_OPERATION
                | Inr (dummy # s) \<Rightarrow>
                    if has_flag (ec_flags cfg) SCRIPT_VERIFY_NULLDUMMY \<and> dummy \<noteq> []
                    then set_error SCRIPT_ERR_SIG_NULLDUMMY
                    else if opcode = OP_CHECKMULTISIGVERIFY then
                      (if fSuccess then Inr (st\<lparr>stack := s\<rparr>) else set_error SCRIPT_ERR_CHECKMULTISIGVERIFY)
                    else Inr (st\<lparr>stack := (if fSuccess then vchTrue else vchFalse) # s\<rparr>))))"

definition eval_checkmultisig :: "eval_config \<Rightarrow> opcodetype \<Rightarrow> eval_state \<Rightarrow> script_fail + eval_state" where
  "eval_checkmultisig cfg opcode st =
     (case stacktop (stack st) 1 of
        None \<Rightarrow> set_error SCRIPT_ERR_INVALID_STACK_OPERATION
      | Some vchKeys \<Rightarrow> with_num cfg nDefaultMaxNumSize vchKeys (\<lambda>bn.
          let nKeysCount = CScriptNum_getint bn in
          if nKeysCount < 0 \<or> MAX_PUBKEYS_PER_MULTISIG < nKeysCount then set_error SCRIPT_ERR_PUBKEY_COUNT
          else let st = st\<lparr>nOpCount := nOpCount st + nKeysCount\<rparr> in
            if MAX_OPS_PER_SCRIPT < nOpCount st then set_error SCRIPT_ERR_OP_COUNT
            else case stacktop (stack st) (nat nKeysCount + 2) of
              None \<Rightarrow> set_error SCRIPT_ERR_INVALID_STACK_OPERATION
            | Some vchSigs \<Rightarrow> with_num cfg nDefaultMaxNumSize vchSigs (\<lambda>bn.
                let nSigsCount = CScriptNum_getint bn in
                if nSigsCount < 0 \<or> nKeysCount < nSigsCount then set_error SCRIPT_ERR_SIG_COUNT
                else multisig_finish cfg opcode st (nat nKeysCount) (nat nSigsCount))))"

section \<open>The loop\<close>

text \<open>The switch. \<open>pc\<close> is the iterator behind the opcode.\<close>

definition eval_opcode :: "eval_config \<Rightarrow> opcodetype \<Rightarrow> bytes \<Rightarrow> bool \<Rightarrow> eval_state \<Rightarrow> script_fail + eval_state" where
  "eval_opcode cfg opcode pc fExec st =
     (if opcode = OP_1NEGATE \<or> (OP_1 \<le> opcode \<and> opcode \<le> OP_16) then eval_push_value opcode st
      else if opcode = OP_NOP then Inr st
      else if opcode = OP_CHECKLOCKTIMEVERIFY \<or> opcode = OP_CHECKSEQUENCEVERIFY then eval_locktime cfg opcode st
      else if opcode = OP_NOP1 \<or> (OP_NOP4 \<le> opcode \<and> opcode \<le> OP_NOP10) then
        (if has_flag (ec_flags cfg) SCRIPT_VERIFY_DISCOURAGE_UPGRADABLE_NOPS
         then set_error SCRIPT_ERR_DISCOURAGE_UPGRADABLE_NOPS else Inr st)
      else if opcode = OP_IF \<or> opcode = OP_NOTIF then eval_if cfg opcode fExec st
      else if opcode = OP_ELSE \<or> opcode = OP_ENDIF \<or> opcode = OP_VERIFY \<or> opcode = OP_RETURN then eval_control opcode st
      else if opcode = OP_TOALTSTACK \<or> opcode = OP_FROMALTSTACK then eval_altstack opcode st
      else if opcode = OP_PICK \<or> opcode = OP_ROLL then eval_pick_roll cfg opcode st
      else if (OP_2DROP \<le> opcode \<and> opcode \<le> OP_TUCK) \<or> opcode = OP_SIZE then
        (case eval_stack_op opcode (stack st) of
           None \<Rightarrow> set_error SCRIPT_ERR_INVALID_STACK_OPERATION
         | Some s \<Rightarrow> Inr (st\<lparr>stack := s\<rparr>))
      else if opcode = OP_EQUAL \<or> opcode = OP_EQUALVERIFY then eval_equal opcode st
      else if opcode = OP_1ADD \<or> opcode = OP_1SUB \<or> opcode = OP_NEGATE \<or> opcode = OP_ABS \<or> opcode = OP_NOT \<or>
              opcode = OP_0NOTEQUAL then eval_unary cfg opcode st
      else if opcode = OP_ADD \<or> opcode = OP_SUB \<or> (OP_BOOLAND \<le> opcode \<and> opcode \<le> OP_MAX) then eval_binary cfg opcode st
      else if opcode = OP_WITHIN then eval_within cfg st
      else if OP_RIPEMD160 \<le> opcode \<and> opcode \<le> OP_HASH256 then eval_crypto opcode st
      else if opcode = OP_CODESEPARATOR then Inr (st\<lparr>codehash := pc\<rparr>)
      else if opcode = OP_CHECKSIG \<or> opcode = OP_CHECKSIGVERIFY then eval_checksig cfg opcode st
      else if opcode = OP_CHECKMULTISIG \<or> opcode = OP_CHECKMULTISIGVERIFY then eval_checkmultisig cfg opcode st
      else set_error SCRIPT_ERR_BAD_OPCODE)"

definition disabled_opcodes :: "opcodetype list" where
  "disabled_opcodes = [OP_CAT, OP_SUBSTR, OP_LEFT, OP_RIGHT, OP_INVERT, OP_AND, OP_OR, OP_XOR, OP_2MUL, OP_2DIV,
     OP_MUL, OP_DIV, OP_MOD, OP_LSHIFT, OP_RSHIFT]"

text \<open>One round of the loop, with the instruction already read.\<close>

definition eval_instruction ::
  "eval_config \<Rightarrow> opcodetype \<Rightarrow> bytes \<Rightarrow> bytes \<Rightarrow> eval_state \<Rightarrow> script_fail + eval_state" where
  "eval_instruction cfg opcode vchPushValue pc st =
     (let fExec = (False \<notin> set (vfExec st));
          st = (if OP_16 < opcode then st\<lparr>nOpCount := nOpCount st + 1\<rparr> else st) in
      if MAX_SCRIPT_ELEMENT_SIZE < length vchPushValue then set_error SCRIPT_ERR_PUSH_SIZE
      else if OP_16 < opcode \<and> MAX_OPS_PER_SCRIPT < nOpCount st then set_error SCRIPT_ERR_OP_COUNT
      else if opcode \<in> set disabled_opcodes then set_error SCRIPT_ERR_DISABLED_OPCODE
      else if opcode = OP_CODESEPARATOR \<and> ec_sigversion cfg = SV_BASE \<and>
              has_flag (ec_flags cfg) SCRIPT_VERIFY_CONST_SCRIPTCODE then set_error SCRIPT_ERR_OP_CODESEPARATOR
      else case (if fExec \<and> opcode \<le> OP_PUSHDATA4 then
                   (case (if fRequireMinimal cfg then CheckMinimalPush vchPushValue opcode else Some True) of
                      None \<Rightarrow> Inl Abort
                    | Some False \<Rightarrow> set_error SCRIPT_ERR_MINIMALDATA
                    | Some True \<Rightarrow> Inr (st\<lparr>stack := vchPushValue # stack st\<rparr>))
                 else if fExec \<or> (OP_IF \<le> opcode \<and> opcode \<le> OP_ENDIF) then eval_opcode cfg opcode pc fExec st
                 else Inr st) of
             Inl e \<Rightarrow> Inl e
           | Inr st \<Rightarrow>
               if MAX_STACK_SIZE < length (stack st) + length (altstack st) then set_error SCRIPT_ERR_STACK_SIZE
               else Inr st)"

function EvalScript_loop :: "eval_config \<Rightarrow> bytes \<Rightarrow> eval_state \<Rightarrow> script_fail + eval_state" where
  "EvalScript_loop cfg pc st =
     (if pc = [] then Inr st
      else case GetScriptOp pc of
        (ok, opcode, vchPushValue, pc') \<Rightarrow>
          if \<not> ok then set_error SCRIPT_ERR_BAD_OPCODE
          else case eval_instruction cfg opcode vchPushValue pc' st of
            Inl e \<Rightarrow> Inl e
          | Inr st' \<Rightarrow> EvalScript_loop cfg pc' st')"
  by pat_completeness auto
termination
  by (relation "measure (\<lambda>(cfg, pc, st). length pc)") (auto dest: GetScriptOp_progress [OF sym])

declare EvalScript_loop.simps [simp del]

text \<open>\<open>EvalScript\<close> returns the stack it leaves; no caller looks at the stack of a failed run.\<close>

definition EvalScript ::
  "bytes list \<Rightarrow> bytes \<Rightarrow> u32 \<Rightarrow> checker \<Rightarrow> SigVersion \<Rightarrow> script_fail + bytes list" where
  "EvalScript s script flags chk sigversion =
     (if MAX_SCRIPT_SIZE < length script then set_error SCRIPT_ERR_SCRIPT_SIZE
      else case EvalScript_loop \<lparr>ec_flags = flags, ec_checker = chk, ec_sigversion = sigversion\<rparr> script
             \<lparr>stack = s, altstack = [], vfExec = [], nOpCount = 0, codehash = script\<rparr> of
        Inl e \<Rightarrow> Inl e
      | Inr st \<Rightarrow> if vfExec st \<noteq> [] then set_error SCRIPT_ERR_UNBALANCED_CONDITIONAL else Inr (stack st))"

section \<open>Bounds on what the opcodes produce\<close>

named_theorems eval_keeps \<open>what each group of opcodes keeps of the state\<close>

lemma length_serialize_loop: "length (CScriptNum_serialize_loop w) \<le> 8"
proof (rule ccontr)
  let ?ds = "CScriptNum_serialize_loop w"
  assume "\<not> ?thesis"
  then have long: "8 < length ?ds" by simp
  then have "w \<noteq> 0" by (auto simp: CScriptNum_serialize_loop.simps)
  then obtain xs t where ds: "?ds = xs @ [t]" "t \<noteq> 0"
    using last_serialize_loop [of w] by (metis append_butlast_last_id)
  then have "8 * 8 \<le> 8 * length xs" "1 \<le> unat t" using long by (simp_all add: Suc_le_eq unat_gt_0)
  then have "(2 :: nat) ^ 64 * 1 \<le> 2 ^ (8 * length xs) * unat t" by (intro mult_le_mono power_increasing) simp_all
  also have "\<dots> \<le> unat w" using wval_serialize_loop [of w] by (simp add: ds(1) wval_snoc)
  also have "\<dots> < 2 ^ 64" using unsigned_less [of w, where 'a = nat] by simp
  finally show False by simp
qed

lemma length_CScriptNum_serialize: "length (CScriptNum_serialize n) \<le> 9"
proof -
  have "length (CScriptNum_serialize_loop w) \<le> 9 \<and> length (CScriptNum_serialize_loop w) - Suc 0 \<le> 8" for w
    using length_serialize_loop [of w] by linarith
  then show ?thesis using length_serialize_loop by (auto simp: CScriptNum_serialize_def Let_def)
qed

lemma CScriptNum_4_bound:
  assumes "CScriptNum vch m nDefaultMaxNumSize = Some n"
  shows "\<bar>n\<bar> < 2 ^ 31"
proof (cases vch rule: rev_cases)
  case Nil
  then show ?thesis using assms by (auto simp: CScriptNum_def CScriptNum_set_vch_def split: if_splits)
next
  case (snoc xs t)
  let ?m = "wval xs + 2 ^ (8 * length xs) * (unat t mod 128)"
  have len: "length xs < 4" and n: "n = CScriptNum_set_vch (xs @ [t])"
    using assms snoc by (auto simp: CScriptNum_def nDefaultMaxNumSize_def split: if_splits)
  have "\<bar>n\<bar> = int ?m"
    unfolding n using len by (subst set_vch_value) (simp_all only: abs_mult abs_of_nat, simp_all)
  moreover have "?m < 2 ^ 31"
  proof -
    have "wval xs < 2 ^ (8 * length xs)" using wval_less [of xs] by simp
    moreover have "2 ^ (8 * length xs) * (unat t mod 128 + 1) \<le> 2 ^ (8 * length xs) * (128 :: nat)"
      by (intro mult_le_mono2) (simp add: Suc_le_eq)
    moreover have "(2 :: nat) ^ (8 * length xs) * 128 \<le> 2 ^ 24 * 128"
      using len by (intro mult_le_mono1 power_increasing) simp_all
    moreover have "(2 :: nat) ^ 24 * 128 = 2 ^ 31" by simp
    ultimately show ?thesis unfolding distrib_left by linarith
  qed
  then have "int ?m < int (2 ^ 31)" by (simp only: of_nat_less_iff)
  ultimately show ?thesis by simp
qed

lemma length_concat_WriteLE32 [simp]: "length (concat (map WriteLE32 ws)) = 4 * length ws"
  by (induction ws) simp_all

lemma length_sha1: "length (sha1 m) = 20"
  using iter_blocks_inv [of "\<lambda>s. length s = 5" fips_sha1_compress, OF length_fips_sha1_compress length_sha1_Initialize]
  by (simp add: sha1_def)

lemma length_ripemd160: "length (ripemd160 m) = 20"
  using iter_blocks_inv [of "\<lambda>s. length s = 5" rmd_compress ripemd160_Initialize] length_ripemd160_Initialize
  by (simp add: ripemd160_def)

lemma length_script_hash: "length (script_hash opcode vch) \<le> 32"
proof -
  have "fst (CHash160_Finalize (SHA256_CPU_Write SHA256_CPU_new vch)) = ripemd160 (sha256 vch)"
    using Hash160_ripemd160 [of vch] by (simp add: Hash160_def)
  moreover have "fst (DoubleHash256_Finalize (SHA256_CPU_Write SHA256_CPU_new vch)) = sha256d vch"
    using Hash256_sha256d [of vch] by (simp add: Hash256_def)
  moreover have "fst (SHA256_CPU_Finalize (SHA256_CPU_Write SHA256_CPU_new vch)) = sha256 vch"
    using Hash_Hash_sha256 [of vch] by (simp add: Hash_Hash_def)
  moreover have "fst (CRIPEMD160_Finalize (CRIPEMD160_Write CRIPEMD160_new vch)) = ripemd160 vch"
    using CRIPEMD160_ripemd160 [of "[vch]"] by simp
  moreover have "fst (CSHA1_Finalize (CSHA1_Write CSHA1_new vch)) = sha1 vch"
    using sha1_md.streaming [of "replicate 64 0" "[vch]"] by (simp add: CSHA1_Finalize_md CSHA1_new_def sha1_digest)
  ultimately show ?thesis by (simp add: script_hash_def length_ripemd160 length_sha1 sha256d_def)
qed

section \<open>The invariant of the loop\<close>

text \<open>
  Every element on either stack has at most 520 bytes. The other two limits, 201 operations and 1000
  elements, are tested by the code at every round.
\<close>

definition items_ok :: "eval_state \<Rightarrow> bool" where
  "items_ok st \<longleftrightarrow> list_all (\<lambda>x. length x \<le> MAX_SCRIPT_ELEMENT_SIZE) (stack st @ altstack st)"

definition eval_inv :: "eval_state \<Rightarrow> bool" where
  "eval_inv st \<longleftrightarrow> items_ok st \<and> nOpCount st \<le> MAX_OPS_PER_SCRIPT \<and>
     length (stack st) + length (altstack st) \<le> MAX_STACK_SIZE"

lemma small_items [simp]:
  "length (CScriptNum_serialize n) \<le> MAX_SCRIPT_ELEMENT_SIZE" "length (script_hash opcode vch) \<le> MAX_SCRIPT_ELEMENT_SIZE"
  using length_CScriptNum_serialize [of n] length_script_hash [of opcode vch] by (simp_all add: MAX_SCRIPT_ELEMENT_SIZE_def)

lemma small_bool [simp]: "length (if b then vchTrue else vchFalse) \<le> MAX_SCRIPT_ELEMENT_SIZE"
  by (simp add: MAX_SCRIPT_ELEMENT_SIZE_def)

lemma with_num_Inr: "with_num cfg n vch k = Inr r \<longleftrightarrow> (\<exists>bn. CScriptNum vch (fRequireMinimal cfg) n = Some bn \<and> k bn = Inr r)"
  by (simp add: with_num_def split: option.split)

lemma num_result_Inr: "num_result bn k = Inr r \<longleftrightarrow> - (2 ^ 63) \<le> bn \<and> bn < 2 ^ 63 \<and> k bn = Inr r"
  by (auto simp: num_result_def)

lemma eval_stack_op_items:
  "eval_stack_op opcode s = Some s' \<Longrightarrow> list_all (\<lambda>x. length x \<le> MAX_SCRIPT_ELEMENT_SIZE) s \<Longrightarrow>
     list_all (\<lambda>x. length x \<le> MAX_SCRIPT_ELEMENT_SIZE) s'"
  unfolding eval_stack_op_def by (auto split: list.splits if_splits)

lemma eval_push_value_keeps [eval_keeps]:
  "eval_push_value opcode st = Inr st' \<Longrightarrow> items_ok st \<Longrightarrow> items_ok st' \<and> nOpCount st' = nOpCount st"
  by (auto simp: eval_push_value_def items_ok_def)

lemma eval_locktime_keeps [eval_keeps]:
  "eval_locktime cfg opcode st = Inr st' \<Longrightarrow> items_ok st \<Longrightarrow> items_ok st' \<and> nOpCount st' = nOpCount st"
  by (auto simp: eval_locktime_def with_num_Inr split: if_splits list.splits)

lemma eval_if_keeps [eval_keeps]:
  "eval_if cfg opcode fExec st = Inr st' \<Longrightarrow> items_ok st \<Longrightarrow> items_ok st' \<and> nOpCount st' = nOpCount st"
  by (auto simp: eval_if_def items_ok_def Let_def split: if_splits list.splits)

lemma eval_control_keeps [eval_keeps]:
  "eval_control opcode st = Inr st' \<Longrightarrow> items_ok st \<Longrightarrow> items_ok st' \<and> nOpCount st' = nOpCount st"
  by (auto simp: eval_control_def items_ok_def split: if_splits list.splits)

lemma eval_altstack_keeps [eval_keeps]:
  "eval_altstack opcode st = Inr st' \<Longrightarrow> items_ok st \<Longrightarrow> items_ok st' \<and> nOpCount st' = nOpCount st"
  by (auto simp: eval_altstack_def items_ok_def split: if_splits list.splits)

lemma eval_pick_roll_keeps [eval_keeps]:
  "eval_pick_roll cfg opcode st = Inr st' \<Longrightarrow> items_ok st \<Longrightarrow> items_ok st' \<and> nOpCount st' = nOpCount st"
proof -
  assume run: "eval_pick_roll cfg opcode st = Inr st'" and ok: "items_ok st"
  from run obtain idx x s bn where st: "stack st = idx # x # s"
    and n: "\<not> CScriptNum_getint bn < 0" "CScriptNum_getint bn < int (length (x # s))"
    and st': "st' = st\<lparr>stack := (x # s) ! nat (CScriptNum_getint bn) #
      (if opcode = OP_ROLL then take (nat (CScriptNum_getint bn)) (x # s) @ drop (Suc (nat (CScriptNum_getint bn))) (x # s)
       else x # s)\<rparr>"
    by (auto simp: eval_pick_roll_def with_num_Inr Let_def not_le split: list.splits if_splits)
  have "(x # s) ! nat (CScriptNum_getint bn) \<in> set (x # s)" using n by (intro nth_mem) linarith
  moreover have "set (take k ys) \<subseteq> set ys" "set (drop k ys) \<subseteq> set ys" for k and ys :: "bytes list"
    by (rule set_take_subset, rule set_drop_subset)
  note subs = this [of "nat (CScriptNum_getint bn)" "x # s"] this [of "Suc (nat (CScriptNum_getint bn))" "x # s"]
  ultimately have "set (stack st') \<subseteq> set (stack st)"
    unfolding st' st by (simp del: drop_Suc_Cons) (use subs in \<open>blast\<close>)
  moreover have "altstack st' = altstack st" "nOpCount st' = nOpCount st" by (simp_all add: st')
  ultimately show ?thesis using ok by (auto simp: items_ok_def list_all_iff)
qed

lemma eval_equal_keeps [eval_keeps]:
  "eval_equal opcode st = Inr st' \<Longrightarrow> items_ok st \<Longrightarrow> items_ok st' \<and> nOpCount st' = nOpCount st"
  by (auto simp: eval_equal_def items_ok_def Let_def MAX_SCRIPT_ELEMENT_SIZE_def split: if_splits list.splits)

lemma eval_unary_keeps [eval_keeps]:
  "eval_unary cfg opcode st = Inr st' \<Longrightarrow> items_ok st \<Longrightarrow> items_ok st' \<and> nOpCount st' = nOpCount st"
  by (auto simp: eval_unary_def items_ok_def with_num_Inr num_result_Inr split: list.splits)

lemma eval_binary_keeps [eval_keeps]:
  "eval_binary cfg opcode st = Inr st' \<Longrightarrow> items_ok st \<Longrightarrow> items_ok st' \<and> nOpCount st' = nOpCount st"
  by (auto simp: eval_binary_def items_ok_def with_num_Inr num_result_Inr Let_def split: list.splits if_splits)

lemma eval_within_keeps [eval_keeps]:
  "eval_within cfg st = Inr st' \<Longrightarrow> items_ok st \<Longrightarrow> items_ok st' \<and> nOpCount st' = nOpCount st"
  by (auto simp: eval_within_def items_ok_def with_num_Inr MAX_SCRIPT_ELEMENT_SIZE_def split: list.splits)

lemma eval_crypto_keeps [eval_keeps]:
  "eval_crypto opcode st = Inr st' \<Longrightarrow> items_ok st \<Longrightarrow> items_ok st' \<and> nOpCount st' = nOpCount st"
  by (auto simp: eval_crypto_def items_ok_def split: list.splits)

lemma eval_checksig_keeps [eval_keeps]:
  "eval_checksig cfg opcode st = Inr st' \<Longrightarrow> items_ok st \<Longrightarrow> items_ok st' \<and> nOpCount st' = nOpCount st"
  by (auto simp: eval_checksig_def items_ok_def MAX_SCRIPT_ELEMENT_SIZE_def split: list.splits sum.splits if_splits)

lemma multisig_cleanup_drop: "multisig_cleanup cfg ok n ikey2 s = Inr s' \<Longrightarrow> s' = drop n s"
  by (induction n arbitrary: ikey2 s) (auto split: list.splits if_splits)

lemma multisig_finish_keeps:
  "multisig_finish cfg opcode st nk ns = Inr st' \<Longrightarrow> items_ok st \<Longrightarrow> items_ok st' \<and> nOpCount st' = nOpCount st"
proof -
  assume run: "multisig_finish cfg opcode st nk ns = Inr st'" and ok: "items_ok st"
  then obtain fSuccess dummy s where
    "multisig_cleanup cfg fSuccess (nk + 3 + ns - 1) (nk + 2) (stack st) = Inr (dummy # s)"
    and st': "st' = st\<lparr>stack := s\<rparr> \<or> st' = st\<lparr>stack := (if fSuccess then vchTrue else vchFalse) # s\<rparr>"
    unfolding multisig_finish_def Let_def by (force split: sum.splits list.splits if_splits)
  then have "dummy # s = drop (nk + 3 + ns - 1) (stack st)" by (blast dest: multisig_cleanup_drop)
  then have "set s \<subseteq> set (stack st)" by (metis set_drop_subset set_subset_Cons subset_trans)
  then have "list_all (\<lambda>x. length x \<le> MAX_SCRIPT_ELEMENT_SIZE) s" using ok by (auto simp: items_ok_def list_all_iff)
  then show ?thesis using ok st' by (auto simp: items_ok_def MAX_SCRIPT_ELEMENT_SIZE_def)
qed

lemma eval_checkmultisig_keeps:
  "eval_checkmultisig cfg opcode st = Inr st' \<Longrightarrow> items_ok st \<Longrightarrow> items_ok st' \<and> nOpCount st' \<le> MAX_OPS_PER_SCRIPT"
proof -
  assume run: "eval_checkmultisig cfg opcode st = Inr st'" and ok: "items_ok st"
  then obtain nk ns where fin: "multisig_finish cfg opcode (st\<lparr>nOpCount := nOpCount st + nk\<rparr>) (nat nk) ns = Inr st'"
    and "nOpCount st + nk \<le> MAX_OPS_PER_SCRIPT"
    by (auto simp: eval_checkmultisig_def with_num_Inr Let_def split: option.splits if_splits)
  moreover have "items_ok (st\<lparr>nOpCount := nOpCount st + nk\<rparr>)" using ok by (simp add: items_ok_def)
  ultimately show ?thesis using multisig_finish_keeps [OF fin] by simp
qed

text \<open>The results of the switch, one for each group of opcodes.\<close>

lemma eval_opcode_groups:
  "eval_opcode cfg opcode pc fExec st \<in>
    {eval_push_value opcode st, Inr st, eval_locktime cfg opcode st,
     set_error SCRIPT_ERR_DISCOURAGE_UPGRADABLE_NOPS, eval_if cfg opcode fExec st, eval_control opcode st,
     eval_altstack opcode st, eval_pick_roll cfg opcode st,
     (case eval_stack_op opcode (stack st) of
        None \<Rightarrow> set_error SCRIPT_ERR_INVALID_STACK_OPERATION | Some s \<Rightarrow> Inr (st\<lparr>stack := s\<rparr>)),
     eval_equal opcode st, eval_unary cfg opcode st, eval_binary cfg opcode st, eval_within cfg st, eval_crypto opcode st,
     Inr (st\<lparr>codehash := pc\<rparr>), eval_checksig cfg opcode st, eval_checkmultisig cfg opcode st,
     set_error SCRIPT_ERR_BAD_OPCODE}"
  unfolding eval_opcode_def by (simp only: insert_iff empty_iff simp_thms split: if_split)

lemma eval_opcode_keeps:
  assumes run: "eval_opcode cfg opcode pc fExec st = Inr st'" and ok: "items_ok st" and n: "nOpCount st \<le> MAX_OPS_PER_SCRIPT"
  shows "items_ok st' \<and> nOpCount st' \<le> MAX_OPS_PER_SCRIPT"
proof -
  have stk: "items_ok st' \<and> nOpCount st' = nOpCount st"
    if "(case eval_stack_op opcode (stack st) of
        None \<Rightarrow> set_error SCRIPT_ERR_INVALID_STACK_OPERATION | Some s \<Rightarrow> Inr (st\<lparr>stack := s\<rparr>)) = Inr st'"
    using that ok eval_stack_op_items [of opcode "stack st"] by (auto simp: items_ok_def split: option.splits)
  have "st' = st \<or> st' = st\<lparr>codehash := pc\<rparr> \<or> items_ok st' \<and> nOpCount st' \<le> MAX_OPS_PER_SCRIPT"
    using eval_opcode_groups [of cfg opcode pc fExec st] eval_keeps [OF _ ok] eval_checkmultisig_keeps [OF _ ok] stk n
    unfolding run insert_iff by (elim disjE emptyE) (auto dest: sym)
  then show ?thesis using ok n by (auto simp: items_ok_def)
qed

end
