(* ===== verification/Interpreter_Safety.thy ===== *)
theory Interpreter_Safety
  imports Interpreter Tx "HOL-Library.Sublist"
begin

text \<open>
  What the script interpreter guarantees: the limits on the stack, on its elements and on the number of
  operations, that no assertion fails, what \<open>OP_CHECKMULTISIG\<close> accepts, and what \<open>FindAndDelete\<close> removes.
\<close>

section \<open>The limits hold at every round\<close>

named_theorems eval_total \<open>each group of opcodes reaches no failed assertion\<close>

lemma eval_instruction_inv:
  assumes run: "eval_instruction cfg opcode vch pc st = Inr st'" and inv: "eval_inv st"
  shows "eval_inv st'"
proof -
  define st1 where "st1 = (if OP_16 < opcode then st\<lparr>nOpCount := nOpCount st + 1\<rparr> else st)"
  let ?fExec = "False \<notin> set (vfExec st)"
  have st1: "items_ok st1" using inv by (simp add: st1_def eval_inv_def items_ok_def)
  note body = run [unfolded eval_instruction_def Let_def st1_def [symmetric]]
  have n1: "nOpCount st1 \<le> MAX_OPS_PER_SCRIPT" and vch: "length vch \<le> MAX_SCRIPT_ELEMENT_SIZE"
    using body inv by (auto simp: st1_def eval_inv_def split: if_splits)
  have "st' = st1\<lparr>stack := vch # stack st1\<rparr> \<or> eval_opcode cfg opcode pc ?fExec st1 = Inr st' \<or> st' = st1"
    and "length (stack st') + length (altstack st') \<le> MAX_STACK_SIZE"
    using body by (auto split: if_splits sum.splits option.splits bool.splits)
  then show ?thesis
    using eval_opcode_keeps [OF _ st1 n1] st1 n1 vch by (auto simp: eval_inv_def items_ok_def)
qed

lemma EvalScript_loop_inv:
  "EvalScript_loop cfg pc st = Inr st' \<Longrightarrow> eval_inv st \<Longrightarrow> eval_inv st'"
proof (induction cfg pc st rule: EvalScript_loop.induct)
  case (1 cfg pc st)
  from "1.prems"(1) show ?case
    using "1.IH" "1.prems"(2)
    by (subst (asm) EvalScript_loop.simps) (auto split: if_splits prod.splits sum.splits dest: eval_instruction_inv)
qed

section \<open>No assertion fails\<close>

definition checker_total :: "checker \<Rightarrow> bool" where
  "checker_total chk \<longleftrightarrow> (\<forall>vchSig vchPubKey scriptCode sigversion. CheckSig chk vchSig vchPubKey scriptCode sigversion \<noteq> None)"

lemma with_num_Abort:
  "with_num cfg n vch k = Inl Abort \<longleftrightarrow> (\<exists>bn. CScriptNum vch (fRequireMinimal cfg) n = Some bn \<and> k bn = Inl Abort)"
  by (simp add: with_num_def split: option.split)

lemma num_result_fits: "\<bar>bn\<bar> < 2 ^ 63 \<Longrightarrow> num_result bn k = k bn"
  by (auto simp: num_result_def abs_if split: if_splits)

lemma num_values:
  "unary_num opcode a \<in> {a + 1, a - 1, - a, a, 0, 1}" "binary_num opcode a b \<in> {a + b, a - b, a, b, 0, 1}"
  unfolding unary_num_def binary_num_def bool_num_def
  by (simp_all only: insert_iff empty_iff simp_thms split: if_split)

lemma unary_num_bound: "\<bar>a\<bar> < 2 ^ 31 \<Longrightarrow> \<bar>unary_num opcode a\<bar> < 2 ^ 63"
  using num_values(1) [of opcode a] by (elim insertE emptyE) simp_all

lemma binary_num_bound: "\<bar>a\<bar> < 2 ^ 31 \<Longrightarrow> \<bar>b\<bar> < 2 ^ 31 \<Longrightarrow> \<bar>binary_num opcode a b\<bar> < 2 ^ 63"
  using num_values(2) [of opcode a b] by (elim insertE emptyE) simp_all

lemma eval_unary_total [eval_total]: "eval_unary cfg opcode st \<noteq> Inl Abort"
  by (auto simp: eval_unary_def with_num_Abort num_result_fits [OF unary_num_bound [OF CScriptNum_4_bound]] split: list.split)

lemma eval_binary_total [eval_total]: "eval_binary cfg opcode st \<noteq> Inl Abort"
  by (auto simp: eval_binary_def with_num_Abort num_result_fits [OF binary_num_bound [OF CScriptNum_4_bound CScriptNum_4_bound]]
      Let_def split: list.split)

lemma eval_simple_total [eval_total]:
  "eval_push_value opcode st \<noteq> Inl Abort" "eval_locktime cfg opcode st \<noteq> Inl Abort" "eval_if cfg opcode fExec st \<noteq> Inl Abort"
  "eval_control opcode st \<noteq> Inl Abort" "eval_altstack opcode st \<noteq> Inl Abort" "eval_pick_roll cfg opcode st \<noteq> Inl Abort"
  "eval_equal opcode st \<noteq> Inl Abort" "eval_within cfg st \<noteq> Inl Abort" "eval_crypto opcode st \<noteq> Inl Abort"
  by (auto simp: eval_push_value_def eval_locktime_def eval_if_def eval_control_def eval_altstack_def eval_pick_roll_def
      eval_equal_def eval_within_def eval_crypto_def with_num_Abort Let_def split: list.splits if_splits)

lemma drop_sig_total [eval_total]: "drop_sig cfg vchSig scriptCode \<noteq> Inl Abort"
  by (auto simp: drop_sig_def split: prod.splits)

lemma check_one_sig_total [eval_total]: "checker_total (ec_checker cfg) \<Longrightarrow> check_one_sig cfg scriptCode vchSig vchPubKey \<noteq> Inl Abort"
  by (auto simp: check_one_sig_def checker_total_def simp del: not_None_eq split: option.splits)

lemma eval_checksig_total [eval_total]: "checker_total (ec_checker cfg) \<Longrightarrow> eval_checksig cfg opcode st \<noteq> Inl Abort"
  by (auto simp: eval_checksig_def eval_total split: list.splits sum.splits)

lemma multisig_drop_total [eval_total]: "multisig_drop cfg s isig n scriptCode \<noteq> Inl Abort"
  by (induction n arbitrary: isig scriptCode) (auto simp: eval_total split: option.splits sum.splits)

lemma multisig_loop_total [eval_total]:
  "checker_total (ec_checker cfg) \<Longrightarrow> multisig_loop cfg scriptCode s isig ikey ns nk ok \<noteq> Inl Abort"
proof (induction cfg scriptCode s isig ikey ns nk ok rule: multisig_loop.induct)
  case (1 cfg scriptCode s isig ikey ns nk ok)
  then show ?case
    by (subst multisig_loop.simps) (auto simp: eval_total Let_def split: option.splits sum.splits)
qed

lemma multisig_cleanup_total [eval_total]: "multisig_cleanup cfg ok n ikey2 s \<noteq> Inl Abort"
  by (induction n arbitrary: ikey2 s) (auto split: list.splits)

lemma multisig_finish_total [eval_total]: "checker_total (ec_checker cfg) \<Longrightarrow> multisig_finish cfg opcode st nk ns \<noteq> Inl Abort"
  by (auto simp: multisig_finish_def Let_def eval_total split: sum.splits list.splits)

lemma eval_checkmultisig_total [eval_total]: "checker_total (ec_checker cfg) \<Longrightarrow> eval_checkmultisig cfg opcode st \<noteq> Inl Abort"
  by (auto simp: eval_checkmultisig_def with_num_Abort Let_def eval_total split: option.splits)

lemma eval_opcode_total: "checker_total (ec_checker cfg) \<Longrightarrow> eval_opcode cfg opcode pc fExec st \<noteq> Inl Abort"
  using eval_opcode_groups [of cfg opcode pc fExec st] eval_total
  by (auto split: option.splits dest: sym)

lemma CheckMinimalPush_asserts: "opcode \<le> OP_PUSHDATA4 \<Longrightarrow> CheckMinimalPush vch opcode \<noteq> None"
  by (simp add: CheckMinimalPush_def)

lemma eval_instruction_total:
  assumes "checker_total (ec_checker cfg)"
  shows "eval_instruction cfg opcode vch pc st \<noteq> Inl Abort"
proof -
  define st1 where "st1 = (if OP_16 < opcode then st\<lparr>nOpCount := nOpCount st + 1\<rparr> else st)"
  define fExec where "fExec \<longleftrightarrow> False \<notin> set (vfExec st)"
  define r where "r = (if fExec \<and> opcode \<le> OP_PUSHDATA4 then
                   (case (if fRequireMinimal cfg then CheckMinimalPush vch opcode else Some True) of
                      None \<Rightarrow> Inl Abort
                    | Some False \<Rightarrow> set_error SCRIPT_ERR_MINIMALDATA
                    | Some True \<Rightarrow> Inr (st1\<lparr>stack := vch # stack st1\<rparr>))
                 else if fExec \<or> (OP_IF \<le> opcode \<and> opcode \<le> OP_ENDIF) then eval_opcode cfg opcode pc fExec st1
                 else Inr st1)"
  have "r \<noteq> Inl Abort"
    using eval_opcode_total [OF assms, of opcode pc fExec st1] CheckMinimalPush_asserts [of opcode vch]
    by (auto simp: r_def simp del: not_None_eq split: option.split bool.split)
  then show ?thesis
    unfolding eval_instruction_def Let_def st1_def [symmetric] fExec_def [symmetric] r_def [symmetric]
    by (cases r) simp_all
qed

lemma EvalScript_loop_total: "checker_total (ec_checker cfg) \<Longrightarrow> EvalScript_loop cfg pc st \<noteq> Inl Abort"
proof (induction cfg pc st rule: EvalScript_loop.induct)
  case (1 cfg pc st)
  then show ?case
    by (subst EvalScript_loop.simps) (auto simp: eval_instruction_total split: prod.splits sum.splits)
qed

lemma EvalScript_total: "checker_total chk \<Longrightarrow> EvalScript s script flags chk sigversion \<noteq> Inl Abort"
  using EvalScript_loop_total by (auto simp: EvalScript_def split: sum.splits)

section \<open>What CHECKMULTISIG accepts\<close>

text \<open>
  The specification: the signatures can be matched, in order, with some of the keys. The loop tries the
  keys once from the left and never goes back.
\<close>

definition multisig_spec :: "('s \<Rightarrow> 'k \<Rightarrow> bool) \<Rightarrow> 's list \<Rightarrow> 'k list \<Rightarrow> bool" where
  "multisig_spec ok sigs keys \<longleftrightarrow> (\<exists>ks. subseq ks keys \<and> list_all2 ok sigs ks)"

fun greedy_match :: "('s \<Rightarrow> 'k \<Rightarrow> bool) \<Rightarrow> 's list \<Rightarrow> 'k list \<Rightarrow> bool" where
  "greedy_match ok [] keys = True"
| "greedy_match ok (s # sigs) [] = False"
| "greedy_match ok (s # sigs) (k # keys) = (if ok s k then greedy_match ok sigs keys else greedy_match ok (s # sigs) keys)"

lemma greedy_match_spec: "greedy_match ok sigs keys \<longleftrightarrow> multisig_spec ok sigs keys"
proof (induction ok sigs keys rule: greedy_match.induct)
  case (1 ok keys)
  then show ?case by (auto simp: multisig_spec_def)
next
  case (2 ok s sigs)
  then show ?case by (auto simp: multisig_spec_def list_all2_Cons1)
next
  case (3 ok s sigs k keys)
  have skip: "multisig_spec ok (s # sigs) (k # keys) \<longleftrightarrow> ok s k \<and> multisig_spec ok sigs keys \<or> multisig_spec ok (s # sigs) keys"
    unfolding multisig_spec_def
    by (auto simp: list_all2_Cons1 subseq_Cons2_iff split: if_splits intro: subseq_Cons2)
  moreover have "multisig_spec ok (s # sigs) keys \<Longrightarrow> multisig_spec ok sigs keys"
    unfolding multisig_spec_def by (auto simp: list_all2_Cons1 dest: subseq_Cons')
  ultimately show ?case using 3 by auto
qed

lemma greedy_match_short: "length keys < length sigs \<Longrightarrow> \<not> greedy_match ok sigs keys"
  by (induction ok sigs keys rule: greedy_match.induct) auto

lemma multisig_loop_greedy:
  assumes "\<And>i. i < length sigs \<Longrightarrow> stacktop s (isig + i) = Some (sigs ! i)"
    and "\<And>i. i < length keys \<Longrightarrow> stacktop s (ikey + i) = Some (keys ! i)"
    and "\<And>sig key. sig \<in> set sigs \<Longrightarrow> key \<in> set keys \<Longrightarrow> check_one_sig cfg code sig key = Inr (ok sig key)"
  shows "multisig_loop cfg code s isig ikey (length sigs) (length keys) (length sigs \<le> length keys) =
    Inr (greedy_match ok sigs keys)"
  using assms
proof (induction keys arbitrary: sigs isig ikey)
  case Nil
  then show ?case by (cases sigs) (simp_all add: multisig_loop.simps)
next
  case (Cons k keys)
  show ?case
  proof (cases sigs)
    case Nil
    then show ?thesis by (simp add: multisig_loop.simps)
  next
    case sigs: (Cons sig sigs')
    show ?thesis
    proof (cases "length sigs \<le> length (k # keys)")
      case False
      then show ?thesis using greedy_match_short [of "k # keys" sigs ok] by (simp add: multisig_loop.simps)
    next
      case True
      have hd: "stacktop s isig = Some sig" "stacktop s ikey = Some k"
        using Cons.prems(1) [of 0] Cons.prems(2) [of 0] sigs by simp_all
      have tl_sigs: "stacktop s (Suc isig + i) = Some (sigs' ! i)" if "i < length sigs'" for i
        using Cons.prems(1) [of "Suc i"] that sigs by simp
      have tl_keys: "stacktop s (Suc ikey + i) = Some (keys ! i)" if "i < length keys" for i
        using Cons.prems(2) [of "Suc i"] that by simp
      have chk: "check_one_sig cfg code sig k = Inr (ok sig k)" using Cons.prems(3) sigs by simp
      have "multisig_loop cfg code s (Suc isig) (Suc ikey) (length sigs') (length keys) (length sigs' \<le> length keys) =
          Inr (greedy_match ok sigs' keys)"
        using Cons.prems(3) sigs by (intro Cons.IH tl_sigs tl_keys) auto
      moreover have "multisig_loop cfg code s isig (Suc ikey) (length sigs) (length keys) (length sigs \<le> length keys) =
          Inr (greedy_match ok sigs keys)"
        using Cons.prems(1,3) by (intro Cons.IH tl_keys) auto
      ultimately show ?thesis
        using True hd chk sigs by (subst multisig_loop.simps) (simp add: Let_def)
    qed
  qed
qed

text \<open>Counts up to twenty are one byte, or none for zero, and are read back in both minimality modes.\<close>

lemma serialize_small: "n \<le> 20 \<Longrightarrow> CScriptNum_serialize (int n) = (if n = 0 then [] else [word_of_nat n])"
proof (cases "n = 0")
  case False
  assume "n \<le> 20"
  then have u: "unat (word_of_nat n :: u8) = n" by (simp add: unat_of_nat)
  then have "word_of_nat n \<noteq> (0 :: u8)" using False by (metis unat_0)
  then have "CScriptNum_serialize (int n) = [] @ [word_of_nat n]"
    using serialize_digits [of "[]" "word_of_nat n" "int n"] u \<open>n \<le> 20\<close> by simp
  with False show ?thesis by simp
qed (simp add: CScriptNum_serialize_def)

lemma CScriptNum_weaken:
  "CScriptNum vch True 8 = Some n \<Longrightarrow> length vch \<le> k \<Longrightarrow> CScriptNum vch m k = Some n"
  by (auto simp: CScriptNum_def split: if_splits)

lemma with_num_small:
  assumes "n \<le> 20"
  shows "with_num cfg nDefaultMaxNumSize (CScriptNum_serialize (int n)) k = k (int n)"
proof -
  have "CScriptNum (CScriptNum_serialize (int n)) True 8 = Some (int n)"
    using assms by (intro CScriptNum_serialize_roundtrip) simp
  then have "CScriptNum (CScriptNum_serialize (int n)) (fRequireMinimal cfg) nDefaultMaxNumSize = Some (int n)"
    by (rule CScriptNum_weaken) (simp add: serialize_small [OF assms] nDefaultMaxNumSize_def)
  then show ?thesis by (simp add: with_num_def)
qed

lemma stacktop_append:
  "i < length ys \<Longrightarrow> stacktop (xs @ ys @ zs) (Suc (length xs) + i) = Some (ys ! i)"
  by (simp add: stacktop_def nth_append)

lemma multisig_cleanup_ok:
  "(ok \<or> \<not> has_flag (ec_flags cfg) SCRIPT_VERIFY_NULLFAIL) \<Longrightarrow> n \<le> length s \<Longrightarrow> multisig_cleanup cfg ok n ikey2 s = Inr (drop n s)"
proof (induction n arbitrary: ikey2 s)
  case (Suc n)
  then show ?case by (cases s) auto
qed simp

lemma eval_checkmultisig_layout:
  assumes st: "stack st = CScriptNum_serialize (int (length keys)) # keys @ CScriptNum_serialize (int (length sigs)) # sigs @ dummy # s"
    and keys: "length keys \<le> 20" and sigs: "length sigs \<le> length keys"
    and ops: "nOpCount st + int (length keys) \<le> MAX_OPS_PER_SCRIPT"
    and code: "multisig_drop cfg (stack st) (length keys + 3) (length sigs) (codehash st) = Inr code"
    and ok: "\<And>sig key. sig \<in> set sigs \<Longrightarrow> key \<in> set keys \<Longrightarrow> check_one_sig cfg code sig key = Inr (ok sig key)"
    and flags: "\<not> has_flag (ec_flags cfg) SCRIPT_VERIFY_NULLFAIL" "\<not> has_flag (ec_flags cfg) SCRIPT_VERIFY_NULLDUMMY"
  shows "eval_checkmultisig cfg OP_CHECKMULTISIG st =
    Inr (st\<lparr>nOpCount := nOpCount st + int (length keys), stack := (if multisig_spec ok sigs keys then [1] else []) # s\<rparr>)"
proof -
  let ?nk = "CScriptNum_serialize (int (length keys))" and ?ns = "CScriptNum_serialize (int (length sigs))"
  let ?stk = "?nk # keys @ ?ns # sigs @ dummy # s"
  have sigs20: "length sigs \<le> 20" using keys sigs by simp
  have getint: "CScriptNum_getint (int n) = int n" if "n \<le> 20" for n using that by (simp add: CScriptNum_getint_def)
  have top: "stacktop ?stk (Suc 0) = Some ?nk" "stacktop ?stk (Suc (Suc (length keys))) = Some ?ns"
    by (simp_all add: stacktop_def nth_append)
  have pos_keys: "stacktop ?stk (2 + i) = Some (keys ! i)" if "i < length keys" for i
    using stacktop_append [OF that, of "[?nk]" "?ns # sigs @ dummy # s"] by simp
  have pos_sigs: "stacktop ?stk (length keys + 3 + i) = Some (sigs ! i)" if "i < length sigs" for i
    using stacktop_append [OF that, of "?nk # keys @ [?ns]" "dummy # s"] by (simp add: numeral_3_eq_3)
  have "multisig_loop cfg code ?stk (length keys + 3) 2 (length sigs) (length keys) True = Inr (greedy_match ok sigs keys)"
    using multisig_loop_greedy [of sigs ?stk "length keys + 3" keys 2 cfg code ok] pos_keys pos_sigs ok sigs by simp
  moreover have "multisig_cleanup cfg b (length keys + 3 + length sigs - 1) (length keys + 2) ?stk = Inr (dummy # s)" for b
    using flags(1) by (subst multisig_cleanup_ok) (simp_all add: numeral_3_eq_3)
  ultimately have "multisig_finish cfg OP_CHECKMULTISIG (st\<lparr>nOpCount := nOpCount st + int (length keys)\<rparr>) (length keys) (length sigs) =
      Inr (st\<lparr>nOpCount := nOpCount st + int (length keys), stack := (if greedy_match ok sigs keys then [1] else []) # s\<rparr>)"
    using code flags(2) unfolding multisig_finish_def Let_def by (simp add: st)
  then show ?thesis
    using ops keys sigs
    by (simp add: eval_checkmultisig_def st top with_num_small [OF keys] with_num_small [OF sigs20] getint [OF keys]
        getint [OF sigs20] Let_def MAX_PUBKEYS_PER_MULTISIG_def greedy_match_spec)
qed

section \<open>What FindAndDelete removes\<close>

lemma skip_matches_count:
  "skip_matches b pc n = (pc', n') \<Longrightarrow> length pc = length pc' + (n' - n) * length b \<and> n \<le> n'"
proof (induction b pc n rule: skip_matches.induct)
  case (1 b pc n)
  show ?case
  proof (cases "b \<noteq> [] \<and> length b \<le> length pc \<and> take (length b) pc = b")
    case True
    then have "skip_matches b (drop (length b) pc) (n + 1) = (pc', n')"
      using "1.prems" by (subst (asm) skip_matches.simps) simp
    then have IH: "length pc - length b = length pc' + (n' - (n + 1)) * length b" "n + 1 \<le> n'"
      using "1.IH" [OF True] by simp_all
    then have "(n' - n) * length b = length b + (n' - (n + 1)) * length b" by (metis Suc_diff_le Suc_eq_plus1 diff_Suc_Suc mult_Suc)
    then show ?thesis using IH True by linarith
  next
    case False
    then show ?thesis using "1.prems" by (subst (asm) skip_matches.simps) auto
  qed
qed

lemma FindAndDelete_loop_count:
  assumes "FindAndDelete_loop b pc pc2 r n = (pc2', r', n')" "length pc \<le> length pc2"
  shows "length r + length pc2 + n * length b = length r' + length pc2' + n' * length b \<and> n \<le> n'"
  using assms
proof (induction b pc pc2 r n rule: FindAndDelete_loop.induct)
  case (1 b pc pc2 r n)
  obtain pc1 n1 where skip: "skip_matches b pc n = (pc1, n1)" by force
  obtain ok opcode vch pc3 where op: "GetScriptOp pc1 = (ok, opcode, vch, pc3)" by (cases "GetScriptOp pc1")
  note len = skip_matches_count [OF skip]
  have "n1 * length b = n * length b + (n1 - n) * length b" using len by (metis add_diff_inverse_nat distrib_right not_less)
  then have eq: "length (r @ take (length pc2 - length pc) pc2) + length pc1 + n1 * length b = length r + length pc2 + n * length b"
    using len "1.prems"(2) by simp
  show ?case
  proof (cases ok)
    case True
    then have "FindAndDelete_loop b pc3 pc1 (r @ take (length pc2 - length pc) pc2) n1 = (pc2', r', n')"
      using "1.prems"(1) skip op by (subst (asm) FindAndDelete_loop.simps) simp
    moreover have "length pc3 \<le> length pc1" using GetScriptOp_progress op True by (metis less_imp_le)
    ultimately have "length (r @ take (length pc2 - length pc) pc2) + length pc1 + n1 * length b =
        length r' + length pc2' + n' * length b \<and> n1 \<le> n'"
      using "1.IH" [OF refl refl skip [symmetric] refl op [symmetric] refl refl] True by simp
    with eq len show ?thesis by simp
  next
    case False
    then have "pc2' = pc1" "r' = r @ take (length pc2 - length pc) pc2" "n' = n1"
      using "1.prems"(1) skip op by (subst (asm) FindAndDelete_loop.simps, simp)+
    with eq len show ?thesis by simp
  qed
qed

section \<open>The pay-to-key-hash script\<close>

lemma EvalScript_loop_step:
  "GetScriptOp pc = (True, opcode, vch, pc') \<Longrightarrow>
     EvalScript_loop cfg pc st =
       (case eval_instruction cfg opcode vch pc' st of Inl e \<Rightarrow> Inl e | Inr st' \<Rightarrow> EvalScript_loop cfg pc' st')"
  by (subst EvalScript_loop.simps) (auto simp: GetScriptOp_def)

lemma GetScriptOp_plain: "OP_PUSHDATA4 < opcode \<Longrightarrow> GetScriptOp (opcode # pc) = (True, opcode, [], pc)"
  by (simp only: GetScriptOp_def list.case not_le [symmetric] if_False)

lemmas limits_def = MAX_SCRIPT_ELEMENT_SIZE_def MAX_OPS_PER_SCRIPT_def MAX_STACK_SIZE_def

text \<open>An instruction that is executed, counted and leaves the stacks within their limit.\<close>

lemma eval_instruction_exec:
  assumes "vfExec st = []" "OP_16 < opcode" "opcode \<notin> set disabled_opcodes" "opcode \<noteq> OP_CODESEPARATOR"
    "nOpCount st < 201"
  shows "eval_instruction cfg opcode [] pc st =
    (case eval_opcode cfg opcode pc True (st\<lparr>nOpCount := nOpCount st + 1\<rparr>) of
       Inl e \<Rightarrow> Inl e
     | Inr st' \<Rightarrow> if MAX_STACK_SIZE < length (stack st') + length (altstack st') then set_error SCRIPT_ERR_STACK_SIZE else Inr st')"
proof -
  have "\<not> opcode \<le> OP_PUSHDATA4" using assms(2) by (auto simp: word_le_nat_alt word_less_nat_alt)
  then show ?thesis using assms by (simp add: eval_instruction_def Let_def limits_def)
qed

lemma p2pkh_opcodes:
  "eval_opcode cfg OP_DUP pc True st = (case stack st of x # s \<Rightarrow> Inr (st\<lparr>stack := x # x # s\<rparr>) | [] \<Rightarrow> set_error SCRIPT_ERR_INVALID_STACK_OPERATION)"
  "eval_opcode cfg OP_HASH160 pc True st = eval_crypto OP_HASH160 st"
  "eval_opcode cfg OP_EQUALVERIFY pc True st = eval_equal OP_EQUALVERIFY st"
  "eval_opcode cfg OP_CHECKSIG pc True st = eval_checksig cfg OP_CHECKSIG st"
  by (simp_all add: eval_opcode_def eval_stack_op_def split: list.split)

lemma eval_instruction_push20:
  assumes "vfExec st = []" "length h = 20" "length (stack st) + length (altstack st) < 1000"
  shows "eval_instruction cfg 20 h pc st = Inr (st\<lparr>stack := h # stack st\<rparr>)"
  using assms by (simp add: eval_instruction_def Let_def limits_def CheckMinimalPush_def disabled_opcodes_def)

definition p2pkh_script :: "bytes \<Rightarrow> bytes" where
  "p2pkh_script h = [OP_DUP, OP_HASH160] @ CScript_push h @ [OP_EQUALVERIFY, OP_CHECKSIG]"

lemma GetScriptOp_push20: "length h = 20 \<Longrightarrow> GetScriptOp (20 # h @ rest) = (True, 20, h, rest)"
  by (simp add: GetScriptOp_def)

lemma p2pkh_loop:
  assumes h: "length h = 20" and s: "length s \<le> 990" and wit: "ec_sigversion cfg = SV_WITNESS_V0"
  shows "EvalScript_loop cfg (p2pkh_script h)
      \<lparr>stack = key # sig # s, altstack = [], vfExec = [], nOpCount = 0, codehash = code\<rparr> =
    (if Hash160 key \<noteq> h then set_error SCRIPT_ERR_EQUALVERIFY
     else case check_one_sig cfg code sig key of
       Inl e \<Rightarrow> Inl e
     | Inr fSuccess \<Rightarrow>
         if \<not> fSuccess \<and> has_flag (ec_flags cfg) SCRIPT_VERIFY_NULLFAIL \<and> sig \<noteq> [] then set_error SCRIPT_ERR_SIG_NULLFAIL
         else Inr \<lparr>stack = (if fSuccess then [1] else []) # s, altstack = [], vfExec = [], nOpCount = 4, codehash = code\<rparr>)"
proof -
  have script: "p2pkh_script h = OP_DUP # OP_HASH160 # 20 # h @ [OP_EQUALVERIFY, OP_CHECKSIG]"
    using h by (simp add: p2pkh_script_def CScript_push_def)
  have hash: "script_hash OP_HASH160 key = Hash160 key" by (simp add: script_hash_def Hash160_def)
  show ?thesis
    using s wit h unfolding script
    by (simp add: EvalScript_loop_step GetScriptOp_plain GetScriptOp_push20 eval_instruction_exec eval_instruction_push20
        p2pkh_opcodes eval_crypto_def eval_equal_def eval_checksig_def drop_sig_def hash EvalScript_loop.simps [of cfg "[]"]
        disabled_opcodes_def limits_def Let_def split: sum.split)
qed

section \<open>Properties\<close>


text \<open>
  C22. No assertion of the interpreter fails and no script number overflows: when the signature check
  itself returns, \<open>EvalScript\<close> ends with a stack or with a script error, for every script, stack and flags.
\<close>

theorem EvalScript_no_abort:
  assumes "checker_total chk"
  shows "EvalScript s script flags chk sigversion \<noteq> Inl Abort"
  using EvalScript_total [OF assms] .


text \<open>
  \<open>FindAndDelete\<close> removes whole occurrences and nothing else: the bytes that disappear are as many as
  the reported occurrences have, and a script in which nothing was found is unchanged.
\<close>

theorem FindAndDelete_exact:
  "length (snd (FindAndDelete script b)) + fst (FindAndDelete script b) * length b = length script
    \<and> (fst (FindAndDelete script b) = 0 \<longrightarrow> snd (FindAndDelete script b) = script)"
proof (cases "b = []")
  case False
  obtain pc2 r n where run: "FindAndDelete_loop b script script [] 0 = (pc2, r, n)" by (cases "FindAndDelete_loop b script script [] 0")
  from FindAndDelete_loop_count [OF run] have "length script = length r + length pc2 + n * length b" by simp
  with False run show ?thesis by (simp add: FindAndDelete_def)
qed (simp add: FindAndDelete_def)

section \<open>Witnesses\<close>

definition accept_all :: checker where
  "accept_all = \<lparr>CheckSig = (\<lambda>vchSig vchPubKey scriptCode sigversion. Some (vchSig = vchPubKey)), CheckLockTime = (\<lambda>_. True),
     CheckSequence = (\<lambda>_. True), checker_CheckLowS = (\<lambda>_. True)\<rparr>"

definition sample_config :: eval_config where
  "sample_config = \<lparr>ec_flags = 0, ec_checker = accept_all, ec_sigversion = SV_WITNESS_V0\<rparr>"


theorem EvalScript_no_abort_witness: "EvalScript [[1]] [OP_DUP] 0 accept_all SV_BASE \<noteq> Inl Abort"
  by (rule EvalScript_no_abort) (simp add: checker_total_def accept_all_def)


theorem FindAndDelete_exact_witness: "snd (FindAndDelete [OP_DUP] [OP_NOP]) = [OP_DUP]"
proof -
  have "fst (FindAndDelete [OP_DUP] [OP_NOP]) = 0"
    by (simp add: FindAndDelete_def FindAndDelete_loop.simps [of _ "_ # _"] skip_matches.simps GetScriptOp_plain
        FindAndDelete_loop.simps [of _ "[]"] GetScriptOp_def)
  with FindAndDelete_exact [of "[OP_DUP]" "[OP_NOP]"] show ?thesis by simp
qed

end
