(* ===== verification/Der.thy ===== *)
theory Der
  imports Interpreter
begin

text \<open>
  Signature encodings: the grammar that \<open>IsValidSignatureEncoding\<close> decides by index arithmetic, and
  what the lax parser of \<^verbatim>\<open>pubkey.cpp\<close> reads from a signature of that grammar.
\<close>

section \<open>The grammar\<close>

text \<open>A positive integer in the shortest big-endian form with a sign bit.\<close>

definition der_integer :: "bytes \<Rightarrow> bool" where
  "der_integer v \<longleftrightarrow> v \<noteq> [] \<and> v ! 0 AND 0x80 = 0 \<and> \<not> (1 < length v \<and> v ! 0 = 0 \<and> v ! 1 AND 0x80 = 0)"

definition der_signature :: "bytes \<Rightarrow> bytes \<Rightarrow> bytes" where
  "der_signature r s =
     [0x30, word_of_nat (length r + length s + 4), 0x02, word_of_nat (length r)] @ r @ [0x02, word_of_nat (length s)] @ s"

lemma unat_small [simp]: "n \<le> 255 \<Longrightarrow> unat (word_of_nat n :: u8) = n"
  by (simp add: unat_of_nat)

lemma der_signature_valid:
  assumes "der_integer r" "der_integer s" "length r + length s \<le> 66"
  shows "IsValidSignatureEncoding (der_signature r s @ [hashtype])"
proof -
  have "r \<noteq> []" "s \<noteq> []" using assms by (simp_all add: der_integer_def)
  then have pos: "0 < length r" "0 < length s" by simp_all
  let ?sig = "der_signature r s @ [hashtype]"
  have len: "length ?sig = length r + length s + 7" by (simp add: der_signature_def)
  have nth: "?sig ! 0 = 0x30" "?sig ! 1 = word_of_nat (length r + length s + 4)" "?sig ! 2 = 2" "?sig ! 3 = word_of_nat (length r)"
    "?sig ! 4 = r ! 0" "1 < length r \<Longrightarrow> ?sig ! 5 = r ! 1" "?sig ! (length r + 4) = 2" "?sig ! (5 + length r) = word_of_nat (length s)"
    "?sig ! (length r + 6) = s ! 0" "1 < length s \<Longrightarrow> ?sig ! (length r + 7) = s ! 1"
    using pos by (simp_all add: der_signature_def nth_append numeral_nat)
  have "unat (?sig ! 3) = length r" "unat (?sig ! 1) = length r + length s + 4" "unat (?sig ! (5 + length r)) = length s"
    using assms(3) unfolding nth(2,4,8) by (simp_all only: unat_small)
  then show ?thesis
    using assms pos nth(5-7,9,10) unfolding IsValidSignatureEncoding_def der_integer_def Let_def len nth(1,3)
    by auto (use pos in linarith)+
qed

lemma der_split:
  assumes "5 + unat (sig ! 3) < length sig" "4 \<le> length sig"
    "unat (sig ! 3) + unat (sig ! (5 + unat (sig ! 3))) + 7 = length sig"
  shows "\<exists>r s hashtype. sig = [sig ! 0, sig ! 1, sig ! 2, sig ! 3] @ r @ [sig ! (unat (sig ! 3) + 4), sig ! (5 + unat (sig ! 3))] @ s @ [hashtype]
    \<and> length r = unat (sig ! 3) \<and> length s = unat (sig ! (5 + unat (sig ! 3)))"
proof -
  define k where "k = unat (sig ! 3)"
  define m where "m = unat (sig ! (5 + k))"
  have bounds: "k + m + 7 = length sig" using assms k_def m_def by simp
  have head: "sig = [sig ! 0, sig ! 1, sig ! 2, sig ! 3] @ drop 4 sig"
    using assms(2) by (auto simp: numeral_eq_Suc Suc_le_length_iff)
  have "drop 4 sig = take k (drop 4 sig) @ drop (4 + k) sig"
    using append_take_drop_id [of k "drop 4 sig"] by (simp add: add.commute)
  moreover have "drop (4 + k) sig = sig ! (k + 4) # sig ! (5 + k) # drop (6 + k) sig"
  proof -
    have "4 + k < length sig" "5 + k < length sig" using bounds by simp_all
    from Cons_nth_drop_Suc [OF this(1)] Cons_nth_drop_Suc [OF this(2)] show ?thesis by (simp add: add.commute numeral_eq_Suc)
  qed
  moreover have "drop (6 + k) sig = take m (drop (6 + k) sig) @ [last sig]"
  proof -
    have "length (drop (6 + k) sig) = Suc m" using bounds by simp
    then have "drop (6 + k) sig \<noteq> []" "butlast (drop (6 + k) sig) = take m (drop (6 + k) sig)" "last (drop (6 + k) sig) = last sig"
      by (auto simp: butlast_conv_take)
    then show ?thesis by (metis append_butlast_last_id)
  qed
  ultimately have "sig = [sig ! 0, sig ! 1, sig ! 2, sig ! 3] @ take k (drop 4 sig) @ [sig ! (k + 4), sig ! (5 + k)] @ take m (drop (6 + k) sig) @ [last sig]"
    using head by simp
  moreover have "length (take k (drop 4 sig)) = k" "length (take m (drop (6 + k) sig)) = m" using bounds by simp_all
  ultimately show ?thesis unfolding k_def m_def by blast
qed

lemma valid_der_signature:
  assumes "IsValidSignatureEncoding sig"
  shows "\<exists>r s hashtype. sig = der_signature r s @ [hashtype] \<and> der_integer r \<and> der_integer s \<and> length r + length s \<le> 66"
proof -
  let ?lenR = "unat (sig ! 3)" and ?lenS = "unat (sig ! (5 + unat (sig ! 3)))"
  have v: "9 \<le> length sig" "length sig \<le> 73" "sig ! 0 = 0x30" "unat (sig ! 1) = length sig - 3" "5 + ?lenR < length sig"
    "?lenR + ?lenS + 7 = length sig" "sig ! 2 = 2" "?lenR \<noteq> 0" "sig ! 4 AND 0x80 = 0"
    "\<not> (1 < ?lenR \<and> sig ! 4 = 0 \<and> sig ! 5 AND 0x80 = 0)" "sig ! (?lenR + 4) = 2" "?lenS \<noteq> 0" "sig ! (?lenR + 6) AND 0x80 = 0"
    "\<not> (1 < ?lenS \<and> sig ! (?lenR + 6) = 0 \<and> sig ! (?lenR + 7) AND 0x80 = 0)"
    using assms by (simp_all add: IsValidSignatureEncoding_def Let_def not_less not_le split: if_splits)
  from v(1) have "4 \<le> length sig" by simp
  from der_split [OF v(5) this v(6)] obtain r s h where sig: "sig = [sig ! 0, sig ! 1, sig ! 2, sig ! 3] @ r @ [sig ! (?lenR + 4), sig ! (5 + ?lenR)] @ s @ [h]"
    and len: "length r = ?lenR" "length s = ?lenS" by blast
  have "length r + length s + 4 = unat (sig ! 1)" using v(4,6) len by linarith
  then have "word_of_nat (length r + length s + 4) = sig ! 1" by (simp only:) simp
  moreover have "word_of_nat (length r) = sig ! 3" "word_of_nat (length s) = sig ! (5 + ?lenR)" using len by simp_all
  ultimately have "sig = der_signature r s @ [h]"
    unfolding der_signature_def using sig v(3,7,11) by (metis append.assoc)
  moreover have "sig ! 4 = r ! 0" "1 < length r \<longrightarrow> sig ! 5 = r ! 1" "sig ! (?lenR + 6) = s ! 0" "1 < length s \<longrightarrow> sig ! (?lenR + 7) = s ! 1"
    unfolding calculation using v(8,12) len(1,2) by (simp_all add: der_signature_def nth_append numeral_nat)
  then have "der_integer r" "der_integer s"
    using v(8-10,12-14) len by (auto simp: der_integer_def)
  moreover have "length r + length s \<le> 66" using v(2,6) len by simp
  ultimately show ?thesis by blast
qed

section \<open>Reading a signature\<close>

lemma der_lax_integer_short:
  assumes "length v < 128"
  shows "der_lax_integer (0x02 # word_of_nat (length v) # v @ rest) = Some (v, rest)"
  using assms by (simp add: der_lax_integer_def Let_def)

definition der_scalars :: "('sig, 'key) secp256k1 \<Rightarrow> bytes \<Rightarrow> bytes \<Rightarrow> 'sig" where
  "der_scalars ctx r s =
     (case (der_compact r, der_compact s) of
        (Some r32, Some s32) \<Rightarrow>
          (if fst (signature_parse_compact ctx (r32 @ s32)) then snd (signature_parse_compact ctx (r32 @ s32))
           else snd (signature_parse_compact ctx (replicate 64 0)))
      | _ \<Rightarrow> snd (signature_parse_compact ctx (replicate 64 0)))"

lemma parse_der_signature:
  assumes "length r + length s < 124"
  shows "ecdsa_signature_parse_der_lax ctx (der_signature r s) = Some (der_scalars ctx r s)"
proof -
  have small: "unat (word_of_nat (length r + length s + 4) :: u8) < 128" using assms by (subst unat_small) simp_all
  have "der_lax_integer (0x02 # word_of_nat (length r) # r @ 0x02 # word_of_nat (length s) # s) = Some (r, 0x02 # word_of_nat (length s) # s)"
    "der_lax_integer (0x02 # word_of_nat (length s) # s) = Some (s, [])"
    using assms der_lax_integer_short [of r] der_lax_integer_short [of s "[]"] by simp_all
  with small show ?thesis
    unfolding ecdsa_signature_parse_der_lax_def der_signature_def der_scalars_def
    by (simp add: Let_def not_le split: option.split prod.split del: of_nat_add)
qed

section \<open>Properties\<close>

text \<open>
  C23. \<open>IsValidSignatureEncoding\<close> decides the strict DER grammar: a byte string passes exactly when it is the
  encoding of two positive integers in shortest form, at most 66 bytes together, followed by one hash-type byte.
\<close>

theorem IsValidSignatureEncoding_grammar:
  "IsValidSignatureEncoding sig \<longleftrightarrow>
    (\<exists>r s hashtype. sig = der_signature r s @ [hashtype] \<and> der_integer r \<and> der_integer s \<and> length r + length s \<le> 66)"
  using der_signature_valid valid_der_signature by blast


text \<open>A library with one key and the compact encoding as its signatures.\<close>

definition sample_secp :: "(bytes, unit) secp256k1" where
  "sample_secp = \<lparr>signature_parse_compact = (\<lambda>b. (True, b)), signature_normalize = (\<lambda>s. (False, s)),
     ec_pubkey_parse = (\<lambda>_. Some ()), ecdsa_verify = (\<lambda>s h k. s \<noteq> replicate 64 0)\<rparr>"


end
