(* ===== verification/Verify.thy ===== *)
theory Verify
  imports Interpreter_Safety Der
begin

text \<open>
  Signature hashes, the transaction signature checker and \<open>VerifyScript\<close>: the second half of
  \<^verbatim>\<open>src/script/interpreter.cpp\<close>. The elliptic-curve library is a parameter, through
  \<^verbatim>\<open>CPubKey\<close>.
\<close>

section \<open>Serialising a transaction for signing\<close>

lemma GetScriptOp_advance: "GetScriptOp pc = (ok, opcode, vch, pc') \<Longrightarrow> pc \<noteq> [] \<Longrightarrow> length pc' < length pc"
  by (auto simp: GetScriptOp_def split: list.splits if_splits sum.splits)

text \<open>The members of \<open>CTransactionSignatureSerializer\<close>.\<close>

record sig_serializer =
  ss_txTo :: NetMessageTransaction
  ss_scriptCode :: bytes
  ss_nIn :: nat
  fAnyoneCanPay :: bool
  fHashSingle :: bool
  fHashNone :: bool

definition CTransactionSignatureSerializer :: "NetMessageTransaction \<Rightarrow> bytes \<Rightarrow> nat \<Rightarrow> u32 \<Rightarrow> sig_serializer" where
  "CTransactionSignatureSerializer txTo scriptCode nIn nHashType =
     \<lparr>ss_txTo = txTo, ss_scriptCode = scriptCode, ss_nIn = nIn,
      fAnyoneCanPay = (nHashType AND SIGHASH_ANYONECANPAY \<noteq> 0),
      fHashSingle = (nHashType AND 0x1f = SIGHASH_SINGLE),
      fHashNone = (nHashType AND 0x1f = SIGHASH_NONE)\<rparr>"

function count_separators :: "bytes \<Rightarrow> nat \<Rightarrow> nat" where
  "count_separators it nCodeSeparators =
     (case GetScriptOp it of
        (ok, opcode, vch, it') \<Rightarrow>
          if ok then count_separators it' (if opcode = OP_CODESEPARATOR then nCodeSeparators + 1 else nCodeSeparators)
          else nCodeSeparators)"
  by pat_completeness auto
termination
  by (relation "measure (\<lambda>(it, n). length it)") (auto dest: GetScriptOp_progress [OF sym])

declare count_separators.simps [simp del]

text \<open>The second loop: the writes so far, \<open>itBegin\<close>, and \<open>it\<close> where the parser stopped.\<close>

function script_code_writes :: "bytes \<Rightarrow> bytes \<Rightarrow> ser_op list \<Rightarrow> ser_op list \<times> bytes \<times> bytes" where
  "script_code_writes it itBegin ws =
     (case GetScriptOp it of
        (ok, opcode, vch, it') \<Rightarrow>
          if ok then
            (if opcode = OP_CODESEPARATOR
             then script_code_writes it' it' (ws @ [W (take (length itBegin - length it' - 1) itBegin)])
             else script_code_writes it' itBegin ws)
          else (ws, itBegin, it'))"
  by pat_completeness auto
termination
  by (relation "measure (\<lambda>(it, itBegin, ws). length it)") (auto dest: GetScriptOp_progress [OF sym])

declare script_code_writes.simps [simp del]

definition SerializeScriptCode :: "sig_serializer \<Rightarrow> ser_op list" where
  "SerializeScriptCode this =
     (let scriptCode = ss_scriptCode this in
      case script_code_writes scriptCode scriptCode [] of
        (ws, itBegin, it) \<Rightarrow>
          CS (word_of_nat (length scriptCode - count_separators scriptCode 0)) # ws @
          (if itBegin \<noteq> [] then [W (take (length itBegin - length it) itBegin)] else []))"

definition SerializeInput :: "sig_serializer \<Rightarrow> nat \<Rightarrow> ser_op list" where
  "SerializeInput this nInput =
     (let nInput = (if fAnyoneCanPay this then ss_nIn this else nInput);
          txin = vin (ss_txTo this) ! nInput
      in Serialize_OutPoint 0 (previousOutput txin) @
         (if nInput \<noteq> ss_nIn this then Serialize_prevector [] else SerializeScriptCode this) @
         (if nInput \<noteq> ss_nIn this \<and> (fHashSingle this \<or> fHashNone this) then ser_writedata32 0
          else ser_writedata32 (sequence txin)))"

definition SerializeOutput :: "sig_serializer \<Rightarrow> nat \<Rightarrow> ser_op list" where
  "SerializeOutput this nOutput =
     (if fHashSingle this \<and> nOutput \<noteq> ss_nIn this then Serialize_TxOut 0 TxOut_SetNull
      else Serialize_TxOut 0 (vout (ss_txTo this) ! nOutput))"

definition sig_Serialize :: "sig_serializer \<Rightarrow> ser_op list" where
  "sig_Serialize this =
     (let nInputs = (if fAnyoneCanPay this then 1 else length (vin (ss_txTo this)));
          nOutputs = (if fHashNone this then 0 else if fHashSingle this then ss_nIn this + 1 else length (vout (ss_txTo this)))
      in ser_writedata32 (tx_nVersion (ss_txTo this)) @
         [CS (word_of_nat nInputs)] @ concat (map (SerializeInput this) [0..<nInputs]) @
         [CS (word_of_nat nOutputs)] @ concat (map (SerializeOutput this) [0..<nOutputs]) @
         ser_writedata32 (nLockTime (ss_txTo this)))"

section \<open>Signature hashes\<close>

definition GetPrevoutHash :: "NetMessageTransaction \<Rightarrow> uint256" where
  "GetPrevoutHash txTo = SerializeHash (concat (map (\<lambda>txin. Serialize_OutPoint 0 (previousOutput txin)) (vin txTo)))"

definition GetSequenceHash :: "NetMessageTransaction \<Rightarrow> uint256" where
  "GetSequenceHash txTo = SerializeHash (concat (map (\<lambda>txin. ser_writedata32 (sequence txin)) (vin txTo)))"

definition GetOutputsHash :: "NetMessageTransaction \<Rightarrow> uint256" where
  "GetOutputsHash txTo = SerializeHash (concat (map (Serialize_TxOut 0) (vout txTo)))"

record PrecomputedTransactionData =
  hashPrevouts :: uint256
  hashSequence :: uint256
  hashOutputs :: uint256
  ready :: bool

definition PrecomputedTransactionData_new :: "NetMessageTransaction \<Rightarrow> PrecomputedTransactionData" where
  "PrecomputedTransactionData_new txTo =
     (if HasWitness txTo
      then \<lparr>hashPrevouts = GetPrevoutHash txTo, hashSequence = GetSequenceHash txTo, hashOutputs = GetOutputsHash txTo, ready = True\<rparr>
      else \<lparr>hashPrevouts = uint256_new, hashSequence = uint256_new, hashOutputs = uint256_new, ready = False\<rparr>)"

text \<open>The branch for witness version 0.\<close>

definition SignatureHash_witness ::
  "bytes \<Rightarrow> NetMessageTransaction \<Rightarrow> nat \<Rightarrow> u32 \<Rightarrow> CAmount \<Rightarrow> PrecomputedTransactionData option \<Rightarrow> uint256" where
  "SignatureHash_witness scriptCode txTo nIn nHashType amount cache =
     (let cacheready = (case cache of None \<Rightarrow> False | Some c \<Rightarrow> ready c);
          anyone = (nHashType AND SIGHASH_ANYONECANPAY \<noteq> 0);
          single = (nHashType AND 0x1f = SIGHASH_SINGLE);
          none = (nHashType AND 0x1f = SIGHASH_NONE);
          hPrevouts = (if \<not> anyone then (if cacheready then hashPrevouts (the cache) else GetPrevoutHash txTo) else uint256_new);
          hSequence = (if \<not> anyone \<and> \<not> single \<and> \<not> none
                       then (if cacheready then hashSequence (the cache) else GetSequenceHash txTo) else uint256_new);
          hOutputs = (if \<not> single \<and> \<not> none then (if cacheready then hashOutputs (the cache) else GetOutputsHash txTo)
                      else if single \<and> nIn < length (vout txTo) then SerializeHash (Serialize_TxOut 0 (vout txTo ! nIn))
                      else uint256_new);
          txin = vin txTo ! nIn
      in SerializeHash
           (ser_writedata32 (tx_nVersion txTo) @ Serialize_uint256 hPrevouts @ Serialize_uint256 hSequence @
            Serialize_OutPoint 0 (previousOutput txin) @ Serialize_prevector scriptCode @ ser_writedata64 amount @
            ser_writedata32 (sequence txin) @ Serialize_uint256 hOutputs @ ser_writedata32 (nLockTime txTo) @
            ser_writedata32 nHashType))"

text \<open>The value \<open>1\<close> that is signed when \<open>SIGHASH_SINGLE\<close> has no matching output.\<close>

definition uint256_one :: uint256 where
  "uint256_one = 1 # replicate 31 0"

definition SignatureHash ::
  "bytes \<Rightarrow> NetMessageTransaction \<Rightarrow> nat \<Rightarrow> u32 \<Rightarrow> CAmount \<Rightarrow> SigVersion \<Rightarrow> PrecomputedTransactionData option \<Rightarrow> uint256 option" where
  "SignatureHash scriptCode txTo nIn nHashType amount sigversion cache =
     (if \<not> nIn < length (vin txTo) then None
      else Some
       (if sigversion = SV_WITNESS_V0 then SignatureHash_witness scriptCode txTo nIn nHashType amount cache
        else if nHashType AND 0x1f = SIGHASH_SINGLE \<and> length (vout txTo) \<le> nIn then uint256_one
        else SerializeHash (sig_Serialize (CTransactionSignatureSerializer txTo scriptCode nIn nHashType) @ ser_writedata32 nHashType)))"

section \<open>The transaction signature checker\<close>

definition TransactionSignatureChecker_CheckSig ::
  "('sig, 'key) secp256k1 \<Rightarrow> NetMessageTransaction \<Rightarrow> nat \<Rightarrow> CAmount \<Rightarrow> PrecomputedTransactionData option \<Rightarrow>
     bytes \<Rightarrow> bytes \<Rightarrow> bytes \<Rightarrow> SigVersion \<Rightarrow> bool option" where
  "TransactionSignatureChecker_CheckSig ctx txTo nIn amount txdata vchSigIn vchPubKey scriptCode sigversion =
     (let pubkey = CPubKey_Set vchPubKey in
      if \<not> CPubKey_IsValid pubkey then Some False
      else if vchSigIn = [] then Some False
      else let nHashType = ucast (last vchSigIn); vchSig = butlast vchSigIn in
        (case SignatureHash scriptCode txTo nIn nHashType amount sigversion txdata of
           None \<Rightarrow> None
         | Some sighash \<Rightarrow> Some (CPubKey_Verify ctx pubkey sighash vchSig)))"

definition TransactionSignatureChecker_CheckLockTime :: "NetMessageTransaction \<Rightarrow> nat \<Rightarrow> int \<Rightarrow> bool" where
  "TransactionSignatureChecker_CheckLockTime txTo nIn locktime =
     (if \<not> ((uint (nLockTime txTo) < LOCKTIME_THRESHOLD \<and> locktime < LOCKTIME_THRESHOLD) \<or>
            (LOCKTIME_THRESHOLD \<le> uint (nLockTime txTo) \<and> LOCKTIME_THRESHOLD \<le> locktime)) then False
      else if uint (nLockTime txTo) < locktime then False
      else if SEQUENCE_FINAL = sequence (vin txTo ! nIn) then False
      else True)"

definition SEQUENCE_LOCKTIME_TYPE_FLAG :: u32 where
  "SEQUENCE_LOCKTIME_TYPE_FLAG = 0x400000"

definition SEQUENCE_LOCKTIME_MASK :: u32 where
  "SEQUENCE_LOCKTIME_MASK = 0xFFFF"

definition TransactionSignatureChecker_CheckSequence :: "NetMessageTransaction \<Rightarrow> nat \<Rightarrow> int \<Rightarrow> bool" where
  "TransactionSignatureChecker_CheckSequence txTo nIn nSequence =
     (let txToSequence = uint (sequence (vin txTo ! nIn)) in
      if tx_nVersion txTo < 2 then False
      else if txToSequence AND uint SEQUENCE_LOCKTIME_DISABLE_FLAG \<noteq> 0 then False
      else let nLockTimeMask = uint (SEQUENCE_LOCKTIME_TYPE_FLAG OR SEQUENCE_LOCKTIME_MASK);
               txToSequenceMasked = txToSequence AND nLockTimeMask;
               nSequenceMasked = nSequence AND nLockTimeMask;
               flag = uint SEQUENCE_LOCKTIME_TYPE_FLAG
           in if \<not> ((txToSequenceMasked < flag \<and> nSequenceMasked < flag) \<or> (flag \<le> txToSequenceMasked \<and> flag \<le> nSequenceMasked))
              then False
              else if txToSequenceMasked < nSequenceMasked then False
              else True)"

definition TransactionSignatureChecker ::
  "('sig, 'key) secp256k1 \<Rightarrow> NetMessageTransaction \<Rightarrow> nat \<Rightarrow> CAmount \<Rightarrow> PrecomputedTransactionData option \<Rightarrow> checker" where
  "TransactionSignatureChecker ctx txTo nIn amount txdata =
     \<lparr>CheckSig = TransactionSignatureChecker_CheckSig ctx txTo nIn amount txdata,
      CheckLockTime = TransactionSignatureChecker_CheckLockTime txTo nIn,
      CheckSequence = TransactionSignatureChecker_CheckSequence txTo nIn,
      checker_CheckLowS = CPubKey_CheckLowS ctx\<rparr>"

section \<open>VerifyScript\<close>

text \<open>A witness is a vector of stack elements, bottom first.\<close>

definition VerifyWitnessProgram :: "bytes list \<Rightarrow> nat \<Rightarrow> bytes \<Rightarrow> u32 \<Rightarrow> checker \<Rightarrow> script_fail + unit" where
  "VerifyWitnessProgram witness witversion prog flags chk =
     (let run = (\<lambda>script stk.
            if list_ex (\<lambda>x. MAX_SCRIPT_ELEMENT_SIZE < length x) stk then set_error SCRIPT_ERR_PUSH_SIZE
            else case EvalScript (rev stk) script flags chk SV_WITNESS_V0 of
                Inl e \<Rightarrow> Inl e
              | Inr s \<Rightarrow>
                  if length s \<noteq> 1 then set_error SCRIPT_ERR_CLEANSTACK
                  else if \<not> CastToBool (hd s) then set_error SCRIPT_ERR_EVAL_FALSE
                  else Inr ()) in
      if witversion = 0 then
        (if length prog = WITNESS_V0_SCRIPTHASH_SIZE then
           (if length witness = 0 then set_error SCRIPT_ERR_WITNESS_PROGRAM_WITNESS_EMPTY
            else let script = last witness; stk = butlast witness in
              if fst (SHA256_CPU_Finalize (SHA256_CPU_Write SHA256_CPU_new script)) \<noteq> prog
              then set_error SCRIPT_ERR_WITNESS_PROGRAM_MISMATCH
              else run script stk)
         else if length prog = WITNESS_V0_KEYHASH_SIZE then
           (if length witness \<noteq> 2 then set_error SCRIPT_ERR_WITNESS_PROGRAM_MISMATCH
            else run ([OP_DUP, OP_HASH160] @ CScript_push prog @ [OP_EQUALVERIFY, OP_CHECKSIG]) witness)
         else set_error SCRIPT_ERR_WITNESS_PROGRAM_WRONG_LENGTH)
      else if has_flag flags SCRIPT_VERIFY_DISCOURAGE_UPGRADABLE_WITNESS_PROGRAM
        then set_error SCRIPT_ERR_DISCOURAGE_UPGRADABLE_WITNESS_PROGRAM
      else Inr ())"

text \<open>Sequencing: an error ends the verification.\<close>

definition andThen :: "'e + 'a \<Rightarrow> ('a \<Rightarrow> 'e + 'b) \<Rightarrow> 'e + 'b" where
  "andThen m k = (case m of Inl e \<Rightarrow> Inl e | Inr x \<Rightarrow> k x)"

text \<open>
  The two places where a witness program is verified: the output script itself and the script of a
  pay-to-script-hash output. The result is the stack and \<open>hadWitness\<close>.
\<close>

definition verify_witness ::
  "bytes \<Rightarrow> bytes list \<Rightarrow> u32 \<Rightarrow> checker \<Rightarrow> bool \<Rightarrow> ScriptError \<Rightarrow> bytes list \<Rightarrow> bool \<Rightarrow> script_fail + bytes list \<times> bool" where
  "verify_witness script witness flags chk malleated err s hadWitness =
     (if has_flag flags SCRIPT_VERIFY_WITNESS then
        (case IsWitnessProgram script of
           None \<Rightarrow> Inr (s, hadWitness)
         | Some (witnessversion, witnessprogram) \<Rightarrow>
             if malleated then set_error err
             else andThen (VerifyWitnessProgram witness witnessversion witnessprogram flags chk)
                    (\<lambda>_. Inr ([last s], True)))
      else Inr (s, hadWitness))"

definition verify_p2sh ::
  "bytes \<Rightarrow> bytes list \<Rightarrow> u32 \<Rightarrow> checker \<Rightarrow> bytes list \<Rightarrow> bool \<Rightarrow> script_fail + bytes list \<times> bool" where
  "verify_p2sh script_sig witness flags chk stackCopy hadWitness =
     (if \<not> IsPushOnly script_sig then set_error SCRIPT_ERR_SIG_PUSHONLY
      else case stackCopy of
        [] \<Rightarrow> Inl Abort
      | pubKey2 # s \<Rightarrow>
          andThen (EvalScript s pubKey2 flags chk SV_BASE) (\<lambda>s.
          if s = [] then set_error SCRIPT_ERR_EVAL_FALSE
          else if \<not> CastToBool (hd s) then set_error SCRIPT_ERR_EVAL_FALSE
          else verify_witness pubKey2 witness flags chk (script_sig \<noteq> CScript_push pubKey2)
                 SCRIPT_ERR_WITNESS_MALLEATED_P2SH s hadWitness))"

definition VerifyScript :: "bytes \<Rightarrow> bytes \<Rightarrow> (bytes list) option \<Rightarrow> u32 \<Rightarrow> checker \<Rightarrow> script_fail + unit" where
  "VerifyScript script_sig script_pubkey witnessPtr flags chk =
     (let witness = (case witnessPtr of None \<Rightarrow> [] | Some w \<Rightarrow> w) in
      if has_flag flags SCRIPT_VERIFY_SIGPUSHONLY \<and> \<not> IsPushOnly script_sig then set_error SCRIPT_ERR_SIG_PUSHONLY
      else andThen (EvalScript [] script_sig flags chk SV_BASE) (\<lambda>s0.
        let stackCopy = (if has_flag flags SCRIPT_VERIFY_P2SH then s0 else []) in
        andThen (EvalScript s0 script_pubkey flags chk SV_BASE) (\<lambda>s.
        if s = [] then set_error SCRIPT_ERR_EVAL_FALSE
        else if CastToBool (hd s) = False then set_error SCRIPT_ERR_EVAL_FALSE
        else andThen (verify_witness script_pubkey witness flags chk (script_sig \<noteq> []) SCRIPT_ERR_WITNESS_MALLEATED s False)
          (\<lambda>(s, hadWitness).
        andThen (if has_flag flags SCRIPT_VERIFY_P2SH \<and> IsPayToScriptHash script_pubkey
                 then verify_p2sh script_sig witness flags chk stackCopy hadWitness else Inr (s, hadWitness))
          (\<lambda>(s, hadWitness).
        if has_flag flags SCRIPT_VERIFY_CLEANSTACK \<and>
           \<not> (has_flag flags SCRIPT_VERIFY_P2SH \<and> has_flag flags SCRIPT_VERIFY_WITNESS) then Inl Abort
        else if has_flag flags SCRIPT_VERIFY_CLEANSTACK \<and> length s \<noteq> 1 then set_error SCRIPT_ERR_CLEANSTACK
        else if has_flag flags SCRIPT_VERIFY_WITNESS \<and> \<not> has_flag flags SCRIPT_VERIFY_P2SH then Inl Abort
        else if has_flag flags SCRIPT_VERIFY_WITNESS \<and> \<not> hadWitness \<and> witness \<noteq> [] then set_error SCRIPT_ERR_WITNESS_UNEXPECTED
        else Inr ())))))"

definition WitnessSigOps :: "nat \<Rightarrow> bytes \<Rightarrow> bytes list \<Rightarrow> nat" where
  "WitnessSigOps witversion witprogram witness =
     (if witversion = 0 then
        (if length witprogram = WITNESS_V0_KEYHASH_SIZE then 1
         else if length witprogram = WITNESS_V0_SCRIPTHASH_SIZE \<and> 0 < length witness then GetSigOpCount (last witness) True
         else 0)
      else 0)"

text \<open>The loop that looks for the last push: it does not look at the result of \<open>GetOp\<close>.\<close>

function last_data_loop :: "bytes \<Rightarrow> bytes \<Rightarrow> bytes" where
  "last_data_loop pc d =
     (if pc = [] then d else case GetScriptOp pc of (ok, opcode, vch, pc') \<Rightarrow> last_data_loop pc' vch)"
  by pat_completeness auto
termination
  by (relation "measure (\<lambda>(pc, d). length pc)") (auto dest: GetScriptOp_advance [OF sym])

declare last_data_loop.simps [simp del]

text \<open>\<open>None\<close> is the failed assertion that the witness rules come with the script-hash rules.\<close>

definition CountWitnessSigOps :: "bytes \<Rightarrow> bytes \<Rightarrow> (bytes list) option \<Rightarrow> u32 \<Rightarrow> nat option" where
  "CountWitnessSigOps script_sig script_pubkey witnessPtr flags =
     (let witness = (case witnessPtr of None \<Rightarrow> [] | Some w \<Rightarrow> w) in
      if \<not> has_flag flags SCRIPT_VERIFY_WITNESS then Some 0
      else if \<not> has_flag flags SCRIPT_VERIFY_P2SH then None
      else Some (case IsWitnessProgram script_pubkey of
          Some (witnessversion, witnessprogram) \<Rightarrow> WitnessSigOps witnessversion witnessprogram witness
        | None \<Rightarrow>
            if IsPayToScriptHash script_pubkey \<and> IsPushOnly script_sig then
              (case IsWitnessProgram (last_data_loop script_sig []) of
                 Some (witnessversion, witnessprogram) \<Rightarrow> WitnessSigOps witnessversion witnessprogram witness
               | None \<Rightarrow> 0)
            else 0))"

definition GetLegacySigOpCount :: "NetMessageTransaction \<Rightarrow> u32" where
  "GetLegacySigOpCount tx =
     sum_list (map (\<lambda>txin. word_of_nat (GetSigOpCount (scriptSig txin) False)) (vin tx)) +
     sum_list (map (\<lambda>txout. word_of_nat (GetSigOpCount (scriptPubKey txout) False)) (vout tx))"

section \<open>The signed serialisation is that of a transaction copy\<close>

text \<open>A script without its \<open>OP_CODESEPARATOR\<close>s, and whether the parser reaches the end of a script.\<close>

function strip_separators :: "bytes \<Rightarrow> bytes" where
  "strip_separators it =
     (case GetScriptOp it of
        (ok, opcode, vch, it') \<Rightarrow>
          if ok then (if opcode = OP_CODESEPARATOR then [] else take (length it - length it') it) @ strip_separators it'
          else [])"
  by pat_completeness auto
termination
  by (relation "measure length") (auto dest: GetScriptOp_progress [OF sym])

declare strip_separators.simps [simp del]

function parses :: "bytes \<Rightarrow> bool" where
  "parses it = (case GetScriptOp it of (ok, opcode, vch, it') \<Rightarrow> if ok then parses it' else it = [])"
  by pat_completeness auto
termination
  by (relation "measure length") (auto dest: GetScriptOp_progress [OF sym])

declare parses.simps [simp del]

lemma GetScriptOp_separator: "GetScriptOp it = (True, OP_CODESEPARATOR, vch, it') \<Longrightarrow> it = OP_CODESEPARATOR # it'"
  by (auto simp: GetScriptOp_def split: list.splits if_splits sum.splits)

lemma GetScriptOp_split: "GetScriptOp it = (True, opcode, vch, it') \<Longrightarrow> take (length it - length it') it @ it' = it"
  by (drule GetScriptOp_consumes) auto

lemma strip_separators_Nil [simp]: "strip_separators [] = []"
  by (simp add: strip_separators.simps GetScriptOp_def)

lemma count_separators_Nil [simp]: "count_separators [] n = n"
  by (simp add: count_separators.simps GetScriptOp_def)

lemma script_code_writes_strip:
  "parses it \<Longrightarrow> itBegin = pre @ it \<Longrightarrow> script_code_writes it itBegin ws = (ws', b, e) \<Longrightarrow>
    ser_bytes ws' @ take (length b - length e) b = ser_bytes ws @ pre @ strip_separators it \<and> e = []"
proof (induction it itBegin ws arbitrary: pre ws' b e rule: script_code_writes.induct)
  case (1 it itBegin ws)
  obtain ok opcode vch it' where op: "GetScriptOp it = (ok, opcode, vch, it')" by (cases "GetScriptOp it")
  consider (stop) "\<not> ok" | (sep) "ok" "opcode = OP_CODESEPARATOR" | (other) "ok" "opcode \<noteq> OP_CODESEPARATOR" by blast
  then show ?case
  proof cases
    case stop
    with "1.prems" op show ?thesis
      by (auto simp: parses.simps [of it] strip_separators.simps [of it] script_code_writes.simps [of it] GetScriptOp_def)
  next
    case sep
    from op sep have it: "it = OP_CODESEPARATOR # it'" by (auto dest: GetScriptOp_separator)
    from op sep "1.prems"(1) have "parses it'" "strip_separators it = strip_separators it'"
      by (simp_all add: parses.simps [of it] strip_separators.simps [of it])
    moreover from op sep "1.prems"(2,3) have "script_code_writes it' it' (ws @ [W pre]) = (ws', b, e)"
      by (simp add: script_code_writes.simps [of it]) (simp add: it)
    ultimately show ?thesis
      using "1.IH"(1) [OF op [symmetric] refl refl sep, of "[]" ws' b e] "1.prems"(2) by (auto simp: it)
  next
    case other
    let ?ins = "take (length it - length it') it"
    from op other have "?ins @ it' = it" by (auto dest: GetScriptOp_split)
    moreover from op other "1.prems"(1) have "parses it'" "strip_separators it = ?ins @ strip_separators it'"
      by (simp_all add: parses.simps [of it] strip_separators.simps [of it])
    moreover from op other "1.prems"(2,3) have "script_code_writes it' itBegin ws = (ws', b, e)"
      by (simp add: script_code_writes.simps [of it])
    ultimately show ?thesis
      using "1.IH"(2) [OF op [symmetric] refl refl other, of "pre @ ?ins" ws' b e] "1.prems"(2) by auto
  qed
qed

lemma strip_separators_length:
  "parses it \<Longrightarrow> count_separators it n + length (strip_separators it) = n + length it"
proof (induction it n rule: count_separators.induct)
  case (1 it n)
  obtain ok opcode vch it' where op: "GetScriptOp it = (ok, opcode, vch, it')" by (cases "GetScriptOp it")
  show ?case
  proof (cases ok)
    case True
    with op have op: "GetScriptOp it = (True, opcode, vch, it')" by simp
    have "length it' < length it" "opcode = OP_CODESEPARATOR \<Longrightarrow> length it = Suc (length it')"
      using op by (auto dest: GetScriptOp_separator GetScriptOp_progress)
    moreover from op "1.prems" have "parses it'" by (simp add: parses.simps [of it])
    moreover have "count_separators it n = count_separators it' (if opcode = OP_CODESEPARATOR then n + 1 else n)"
      using op by (simp add: count_separators.simps [of it])
    moreover have "length (strip_separators it) =
        (if opcode = OP_CODESEPARATOR then 0 else length it - length it') + length (strip_separators it')"
      using op by (simp add: strip_separators.simps [of it])
    ultimately show ?thesis
      using "1.IH" [OF op [symmetric] refl refl TrueI] by (simp split: if_splits)
  next
    case False
    with op "1.prems" show ?thesis
      by (simp add: parses.simps [of it] strip_separators.simps [of it] count_separators.simps [of it])
  qed
qed

lemma SerializeScriptCode_strip:
  assumes "parses (ss_scriptCode this)"
  shows "ser_bytes (SerializeScriptCode this) = ser_bytes (Serialize_prevector (strip_separators (ss_scriptCode this)))"
proof -
  obtain ws b e where run: "script_code_writes (ss_scriptCode this) (ss_scriptCode this) [] = (ws, b, e)"
    by (cases "script_code_writes (ss_scriptCode this) (ss_scriptCode this) []")
  from script_code_writes_strip [OF assms _ run, of "[]"]
  have "ser_bytes ws @ b = strip_separators (ss_scriptCode this)" "e = []" by auto
  moreover have "length (ss_scriptCode this) - count_separators (ss_scriptCode this) 0 = length (strip_separators (ss_scriptCode this))"
    using strip_separators_length [OF assms, of 0] by simp
  ultimately show ?thesis
    using run by (auto simp: SerializeScriptCode_def Let_def Serialize_prevector_def)
qed

text \<open>
  The transaction that is signed, as the original protocol describes it: a copy whose other inputs have
  empty scripts, with the inputs and outputs the hash type leaves out removed or blanked.
\<close>

definition signed_input :: "bytes \<Rightarrow> nat \<Rightarrow> bool \<Rightarrow> (nat \<times> TxIn) \<Rightarrow> TxIn" where
  "signed_input script nIn loose p =
     (case p of (i, txin) \<Rightarrow>
        if i = nIn then txin\<lparr>scriptSig := script\<rparr>
        else if loose then txin\<lparr>scriptSig := [], sequence := 0\<rparr> else txin\<lparr>scriptSig := []\<rparr>)"

definition signed_copy :: "bytes \<Rightarrow> NetMessageTransaction \<Rightarrow> nat \<Rightarrow> u32 \<Rightarrow> NetMessageTransaction" where
  "signed_copy script tx nIn nHashType =
     (let none = (nHashType AND 0x1f = SIGHASH_NONE); single = (nHashType AND 0x1f = SIGHASH_SINGLE) in
      tx\<lparr>vin := (if nHashType AND SIGHASH_ANYONECANPAY \<noteq> 0 then [(vin tx ! nIn)\<lparr>scriptSig := script\<rparr>]
                 else map (signed_input script nIn (none \<or> single)) (enumerate 0 (vin tx))),
         vout := (if none then [] else if single then replicate nIn TxOut_SetNull @ [vout tx ! nIn] else vout tx)\<rparr>)"

lemma Serialize_version [simp]:
  "Serialize_OutPoint SERIALIZE_TRANSACTION_NO_WITNESS = Serialize_OutPoint 0"
  "Serialize_TxOut SERIALIZE_TRANSACTION_NO_WITNESS = Serialize_TxOut 0"
  by (simp_all add: fun_eq_iff Serialize_OutPoint_def Serialize_TxOut_def SERIALIZE_TRANSACTION_NO_WITNESS_def
      SERIALIZE_BLOCK_HASH_def SERIALIZE_TXOUT_ISSPENT_def)

lemma concat_map_bytes: "ser_bytes (concat (map f xs)) = concat (map (\<lambda>x. ser_bytes (f x)) xs)"
  by (simp add: ser_bytes_concat comp_def)

lemma signed_inputs:
  fixes nHashType :: u32
  assumes "parses code" "nIn < length (vin tx)"
  defines "this \<equiv> CTransactionSignatureSerializer tx code nIn nHashType"
  shows "concat (map (\<lambda>i. ser_bytes (SerializeInput this i)) [0..<if fAnyoneCanPay this then 1 else length (vin tx)]) =
    concat (map (\<lambda>txin. ser_bytes (Serialize_TxIn SERIALIZE_TRANSACTION_NO_WITNESS txin))
      (vin (signed_copy (strip_separators code) tx nIn nHashType)))"
proof -
  have code: "ser_bytes (SerializeScriptCode this) = ser_bytes (Serialize_prevector (strip_separators code))"
    using SerializeScriptCode_strip [of this] assms by (simp add: this_def CTransactionSignatureSerializer_def)
  show ?thesis
  proof (cases "fAnyoneCanPay this")
    case True
    with code show ?thesis
      by (simp add: signed_copy_def this_def CTransactionSignatureSerializer_def SerializeInput_def Serialize_TxIn_def Let_def)
  next
    case False
    have "ser_bytes (SerializeInput this i) =
        ser_bytes (Serialize_TxIn SERIALIZE_TRANSACTION_NO_WITNESS (signed_input (strip_separators code) nIn (fHashNone this \<or> fHashSingle this) (i, vin tx ! i)))"
      if "i < length (vin tx)" for i
      using code False
      by (auto simp: this_def CTransactionSignatureSerializer_def SerializeInput_def Serialize_TxIn_def signed_input_def Let_def)
    then have "map (\<lambda>i. ser_bytes (SerializeInput this i)) [0..<length (vin tx)] =
        map (\<lambda>p. ser_bytes (Serialize_TxIn SERIALIZE_TRANSACTION_NO_WITNESS (signed_input (strip_separators code) nIn (fHashNone this \<or> fHashSingle this) p)))
          (enumerate 0 (vin tx))"
      by (intro nth_equalityI) (simp_all add: nth_enumerate_eq)
    with False show ?thesis
      by (simp add: signed_copy_def this_def CTransactionSignatureSerializer_def Let_def comp_def)
  qed
qed

lemma signed_outputs:
  fixes code :: bytes
  assumes "\<not> (nHashType AND 0x1f = SIGHASH_SINGLE \<and> length (vout tx) \<le> nIn)"
  defines "this \<equiv> CTransactionSignatureSerializer tx code nIn nHashType"
  shows "concat (map (SerializeOutput this) [0..<if fHashNone this then 0 else if fHashSingle this then nIn + 1 else length (vout tx)]) =
    concat (map (Serialize_TxOut 0) (vout (signed_copy script tx nIn nHashType)))"
proof -
  have tx: "ss_txTo this = tx" "ss_nIn this = nIn" "fHashNone this \<longleftrightarrow> nHashType AND 0x1f = SIGHASH_NONE"
      "fHashSingle this \<longleftrightarrow> nHashType AND 0x1f = SIGHASH_SINGLE"
    by (simp_all add: this_def CTransactionSignatureSerializer_def)
  have all: "map (SerializeOutput this) [0..<length (vout tx)] = map (Serialize_TxOut 0) (vout tx)" if "\<not> fHashSingle this"
    using that by (intro nth_equalityI) (simp_all add: SerializeOutput_def tx)
  have one: "map (SerializeOutput this) [0..<nIn] = replicate nIn (Serialize_TxOut 0 TxOut_SetNull)" if "fHashSingle this"
    using that by (intro nth_equalityI) (simp_all add: SerializeOutput_def tx)
  consider "fHashNone this" | "\<not> fHashNone this" "fHashSingle this" | "\<not> fHashNone this" "\<not> fHashSingle this" by blast
  then show ?thesis
  proof cases
    case 2
    with tx one have "SerializeOutput this nIn = Serialize_TxOut 0 (vout tx ! nIn)" by (simp add: SerializeOutput_def)
    with 2 tx one show ?thesis by (simp add: signed_copy_def Let_def)
  qed (use tx all in \<open>simp_all add: signed_copy_def Let_def\<close>)
qed

lemma SignatureHash_legacy:
  assumes "parses code" "nIn < length (vin tx)" "\<not> (nHashType AND 0x1f = SIGHASH_SINGLE \<and> length (vout tx) \<le> nIn)"
  shows "ser_bytes (sig_Serialize (CTransactionSignatureSerializer tx code nIn nHashType)) =
    ser_bytes (Serialize_tx SERIALIZE_TRANSACTION_NO_WITNESS (signed_copy (strip_separators code) tx nIn nHashType))"
proof -
  let ?ss = "CTransactionSignatureSerializer tx code nIn nHashType" and ?copy = "signed_copy (strip_separators code) tx nIn nHashType"
  let ?nIns = "if fAnyoneCanPay ?ss then 1 else length (vin tx)"
  let ?nOuts = "if fHashNone ?ss then 0 else if fHashSingle ?ss then nIn + 1 else length (vout tx)"
  have ss: "ss_txTo ?ss = tx" "ss_nIn ?ss = nIn" by (simp_all add: CTransactionSignatureSerializer_def)
  have lens: "length (vin ?copy) = ?nIns" "length (vout ?copy) = ?nOuts" "tx_nVersion ?copy = tx_nVersion tx" "nLockTime ?copy = nLockTime tx"
    by (simp_all add: signed_copy_def Let_def CTransactionSignatureSerializer_def)
  have witness: "SERIALIZE_TRANSACTION_NO_WITNESS AND SERIALIZE_TRANSACTION_NO_WITNESS \<noteq> 0"
    by (simp add: SERIALIZE_TRANSACTION_NO_WITNESS_def)
  have ins: "ser_bytes (concat (map (SerializeInput ?ss) [0..<?nIns])) =
      ser_bytes (concat (map (Serialize_TxIn SERIALIZE_TRANSACTION_NO_WITNESS) (vin ?copy)))"
    using signed_inputs [OF assms(1,2)] by (simp only: concat_map_bytes)
  have outs: "concat (map (SerializeOutput ?ss) [0..<?nOuts]) = concat (map (Serialize_TxOut 0) (vout ?copy))"
    by (rule signed_outputs [OF assms(3)])
  show ?thesis
    unfolding sig_Serialize_def Serialize_tx_def Serialize_vector_def Let_def ss lens Serialize_version outs
    using ins witness by (simp add: lens)
qed

section \<open>Nothing aborts\<close>

lemma TransactionSignatureChecker_total:
  "nIn < length (vin tx) \<Longrightarrow> checker_total (TransactionSignatureChecker ctx tx nIn amount txdata)"
  by (simp add: checker_total_def TransactionSignatureChecker_def TransactionSignatureChecker_CheckSig_def SignatureHash_def Let_def
      del: not_None_eq)

lemma andThen_Abort: "andThen m k = Inl Abort \<longleftrightarrow> m = Inl Abort \<or> (\<exists>x. m = Inr x \<and> k x = Inl Abort)"
  by (simp add: andThen_def split: sum.split)

lemma EvalScript_p2sh_empty: "IsPayToScriptHash script \<Longrightarrow> EvalScript [] script flags chk sigversion \<noteq> Inr s"
proof -
  assume "IsPayToScriptHash script"
  then obtain rest where "script = OP_HASH160 # rest" by (cases script) (auto simp: IsPayToScriptHash_def)
  then show ?thesis
    by (simp add: EvalScript_def EvalScript_loop_step GetScriptOp_plain eval_instruction_exec p2pkh_opcodes eval_crypto_def
        disabled_opcodes_def)
qed

lemma VerifyWitnessProgram_total: "checker_total chk \<Longrightarrow> VerifyWitnessProgram witness witversion prog flags chk \<noteq> Inl Abort"
  using EvalScript_total [of chk] by (auto simp: VerifyWitnessProgram_def Let_def split: sum.splits)

lemma verify_witness_total:
  "checker_total chk \<Longrightarrow> verify_witness script witness flags chk malleated err s hadWitness \<noteq> Inl Abort"
  using VerifyWitnessProgram_total [of chk] by (auto simp: verify_witness_def andThen_def split: option.splits sum.splits)

lemma verify_p2sh_total:
  "checker_total chk \<Longrightarrow> stackCopy \<noteq> [] \<Longrightarrow> verify_p2sh script_sig witness flags chk stackCopy hadWitness \<noteq> Inl Abort"
  using EvalScript_total [of chk] verify_witness_total [of chk]
  by (auto simp: verify_p2sh_def andThen_Abort split: list.splits)

lemma p2sh_not_empty:
  assumes "checker_total chk" "verify_p2sh script_sig witness flags chk s0 hadWitness = Inl Abort"
    "EvalScript s0 script_pubkey flags chk SV_BASE = Inr s" "IsPayToScriptHash script_pubkey"
  shows False
  using assms verify_p2sh_total [of chk s0] EvalScript_p2sh_empty by (cases "s0 = []") auto

lemma VerifyScript_total:
  assumes "checker_total chk"
    "has_flag flags SCRIPT_VERIFY_CLEANSTACK \<Longrightarrow> has_flag flags SCRIPT_VERIFY_WITNESS"
    "has_flag flags SCRIPT_VERIFY_WITNESS \<Longrightarrow> has_flag flags SCRIPT_VERIFY_P2SH"
  shows "VerifyScript script_sig script_pubkey witnessPtr flags chk \<noteq> Inl Abort"
  using assms(2,3) EvalScript_total [OF assms(1)] verify_witness_total [OF assms(1)]
  by (auto simp: VerifyScript_def Let_def andThen_Abort split: if_splits dest: p2sh_not_empty [OF assms(1)])

section \<open>Pay to witness key hash\<close>

lemma EvalScript_p2pkh:
  assumes "length h = 20"
  shows "EvalScript [key, sig] (p2pkh_script h) flags chk SV_WITNESS_V0 =
    (if Hash160 key \<noteq> h then set_error SCRIPT_ERR_EQUALVERIFY
     else case check_one_sig \<lparr>ec_flags = flags, ec_checker = chk, ec_sigversion = SV_WITNESS_V0\<rparr> (p2pkh_script h) sig key of
       Inl e \<Rightarrow> Inl e
     | Inr fSuccess \<Rightarrow>
         if \<not> fSuccess \<and> has_flag flags SCRIPT_VERIFY_NULLFAIL \<and> sig \<noteq> [] then set_error SCRIPT_ERR_SIG_NULLFAIL
         else Inr [if fSuccess then [1] else []])"
  using p2pkh_loop [OF assms, of "[]" "\<lparr>ec_flags = flags, ec_checker = chk, ec_sigversion = SV_WITNESS_V0\<rparr>" key sig "p2pkh_script h"] assms
  by (simp add: EvalScript_def p2pkh_script_def CScript_push_def MAX_SCRIPT_SIZE_def split: sum.split)

lemma VerifyWitnessProgram_keyhash:
  assumes "length h = 20"
  shows "VerifyWitnessProgram witness 0 h flags chk = Inr () \<longleftrightarrow>
    (\<exists>sig key. witness = [sig, key] \<and> length sig \<le> 520 \<and> length key \<le> 520 \<and> Hash160 key = h \<and>
       check_one_sig \<lparr>ec_flags = flags, ec_checker = chk, ec_sigversion = SV_WITNESS_V0\<rparr> (p2pkh_script h) sig key = Inr True)"
proof (cases "length witness = 2")
  case True
  then obtain sig key where "witness = [sig, key]" by (auto simp: length_Suc_conv numeral_2_eq_2)
  with assms show ?thesis
    using EvalScript_p2pkh [OF assms, of key sig flags chk]
    by (auto simp: VerifyWitnessProgram_def Let_def WITNESS_V0_SCRIPTHASH_SIZE_def WITNESS_V0_KEYHASH_SIZE_def limits_def
        p2pkh_script_def split: sum.splits if_splits)
next
  case False
  with assms show ?thesis
    by (auto simp: VerifyWitnessProgram_def Let_def WITNESS_V0_SCRIPTHASH_SIZE_def WITNESS_V0_KEYHASH_SIZE_def)
qed

section \<open>Lock times\<close>

lemma CheckLockTime_final:
  assumes "TransactionSignatureChecker_CheckLockTime tx nIn n" "nIn < length (vin tx)" "IsFinalTx tx height time" "0 \<le> n"
  shows "n = 0 \<or> n < (if n < LOCKTIME_THRESHOLD then height else time)"
proof -
  have *: "n \<le> uint (nLockTime tx)" "(uint (nLockTime tx) < LOCKTIME_THRESHOLD) = (n < LOCKTIME_THRESHOLD)"
    "sequence (vin tx ! nIn) \<noteq> SEQUENCE_FINAL"
    using assms(1) by (auto simp: TransactionSignatureChecker_CheckLockTime_def split: if_splits)
  have "\<not> list_all (\<lambda>txin. sequence txin = SEQUENCE_FINAL) (vin tx)"
    using *(3) assms(2) by (auto simp: list_all_length)
  then have "nLockTime tx = 0 \<or> uint (nLockTime tx) < (if n < LOCKTIME_THRESHOLD then height else time)"
    using assms(3) *(2) by (auto simp: IsFinalTx_def split: if_splits)
  with *(1) assms(4) show ?thesis by auto
qed

section \<open>Properties\<close>

text \<open>
  C25. The cached hashes never change a signature hash: with the data precomputed from the transaction the
  result is the one computed without a cache, for every script, input, hash type and signature version.
\<close>

theorem SignatureHash_cache:
  "SignatureHash scriptCode tx nIn nHashType amount sigversion (Some (PrecomputedTransactionData_new tx)) =
   SignatureHash scriptCode tx nIn nHashType amount sigversion None"
  by (simp add: SignatureHash_def SignatureHash_witness_def PrecomputedTransactionData_new_def Let_def)


text \<open>
  C16. \<open>VerifyScript\<close> never fails an assertion when it checks an existing input of a transaction with
  consistent flags, whatever the scripts, the witness and the elliptic-curve library: in particular a
  script-hash output is never unlocked from an empty stack.
\<close>

theorem VerifyScript_no_abort:
  assumes "nIn < length (vin tx)"
    and "has_flag flags SCRIPT_VERIFY_CLEANSTACK \<Longrightarrow> has_flag flags SCRIPT_VERIFY_WITNESS"
    and "has_flag flags SCRIPT_VERIFY_WITNESS \<Longrightarrow> has_flag flags SCRIPT_VERIFY_P2SH"
  shows "VerifyScript script_sig script_pubkey witnessPtr flags (TransactionSignatureChecker ctx tx nIn amount txdata) \<noteq> Inl Abort"
  using VerifyScript_total [OF TransactionSignatureChecker_total [OF assms(1)]] assms(2,3) by blast

text \<open>
  C26. A version 0 key-hash program accepts exactly a signature and a key whose hash is the program, both of
  at most 520 bytes, such that the signature check on the implied pay-to-key-hash script succeeds.
\<close>

theorem witness_keyhash_accepts:
  assumes "length prog = 20"
  shows "VerifyWitnessProgram witness 0 prog flags chk = Inr () \<longleftrightarrow>
    (\<exists>sig key. witness = [sig, key] \<and> length sig \<le> 520 \<and> length key \<le> 520 \<and> Hash160 key = prog \<and>
       check_one_sig \<lparr>ec_flags = flags, ec_checker = chk, ec_sigversion = SV_WITNESS_V0\<rparr> (p2pkh_script prog) sig key = Inr True)"
  by (rule VerifyWitnessProgram_keyhash [OF assms])

text \<open>
  C27. \<open>OP_CHECKLOCKTIMEVERIFY\<close> holds a transaction back: if it passes in an input of a transaction that is
  final at a block height and time, then the number on the stack is zero or below that height or time,
  whichever its range selects.
\<close>

theorem CHECKLOCKTIMEVERIFY_enforced:
  assumes "eval_locktime cfg OP_CHECKLOCKTIMEVERIFY st = Inr st'" "has_flag (ec_flags cfg) SCRIPT_VERIFY_CHECKLOCKTIMEVERIFY"
    and "ec_checker cfg = TransactionSignatureChecker ctx tx nIn amount txdata" "nIn < length (vin tx)" "IsFinalTx tx height time"
  shows "\<exists>vch s n. stack st = vch # s \<and> CScriptNum vch (fRequireMinimal cfg) 5 = Some n \<and> 0 \<le> n \<and>
    (n = 0 \<or> n < (if n < LOCKTIME_THRESHOLD then height else time))"
proof -
  from assms(1,2) obtain vch s n where "stack st = vch # s" "CScriptNum vch (fRequireMinimal cfg) 5 = Some n" "0 \<le> n"
      "CheckLockTime (ec_checker cfg) n"
    by (auto simp: eval_locktime_def with_num_Inr split: list.splits if_splits)
  with CheckLockTime_final [OF _ assms(4,5), of n] assms(3) show ?thesis by (simp add: TransactionSignatureChecker_def)
qed

section \<open>Witnesses\<close>

definition locked_tx :: NetMessageTransaction where
  "locked_tx = NetMessageTransaction_new\<lparr>vin := [TxIn_new\<lparr>sequence := 0\<rparr>], vout := [TxOut_SetNull\<lparr>nValue := 5\<rparr>], nLockTime := 100\<rparr>"


theorem VerifyScript_no_abort_witness:
  "VerifyScript [OP_0] [OP_DUP] None SCRIPT_VERIFY_P2SH (TransactionSignatureChecker sample_secp locked_tx 0 5 None) \<noteq> Inl Abort"
  by (rule VerifyScript_no_abort)
    (simp_all add: locked_tx_def has_flag_def SCRIPT_VERIFY_P2SH_def SCRIPT_VERIFY_WITNESS_def SCRIPT_VERIFY_CLEANSTACK_def)

theorem witness_keyhash_accepts_witness:
  "VerifyWitnessProgram [[1]] 0 (replicate 20 7) 0 (TransactionSignatureChecker sample_secp locked_tx 0 5 None) \<noteq> Inr ()"
  using witness_keyhash_accepts [of "replicate 20 7" "[[1]]" 0] by simp

theorem CHECKLOCKTIMEVERIFY_enforced_witness:
  "\<exists>vch s n. [[50]] = vch # s \<and> CScriptNum vch False 5 = Some n \<and> 0 \<le> n \<and>
    (n = 0 \<or> n < (if n < LOCKTIME_THRESHOLD then 200 else 3))"
proof -
  let ?cfg = "\<lparr>ec_flags = SCRIPT_VERIFY_CHECKLOCKTIMEVERIFY, ec_checker = TransactionSignatureChecker sample_secp locked_tx 0 5 None, ec_sigversion = SV_BASE\<rparr>"
  let ?st = "\<lparr>stack = [[50]], altstack = [], vfExec = [], nOpCount = 0, codehash = []\<rparr>"
  have num: "CScriptNum [50] False 5 = Some 50" by (simp add: CScriptNum_def CScriptNum_set_vch_def)
  have min: "fRequireMinimal ?cfg = False"
    by (simp add: fRequireMinimal_def has_flag_def SCRIPT_VERIFY_CHECKLOCKTIMEVERIFY_def SCRIPT_VERIFY_MINIMALDATA_def)
  have "eval_locktime ?cfg OP_CHECKLOCKTIMEVERIFY ?st = Inr ?st"
    using num min
    by (simp add: eval_locktime_def with_num_def TransactionSignatureChecker_def TransactionSignatureChecker_CheckLockTime_def
        locked_tx_def LOCKTIME_THRESHOLD_def SEQUENCE_FINAL_def)
  moreover have "IsFinalTx locked_tx 200 3" by (simp add: IsFinalTx_def locked_tx_def LOCKTIME_THRESHOLD_def)
  ultimately show ?thesis
    using CHECKLOCKTIMEVERIFY_enforced [of ?cfg ?st ?st sample_secp locked_tx 0 5 None 200 3] min
    by (simp add: has_flag_def SCRIPT_VERIFY_CHECKLOCKTIMEVERIFY_def locked_tx_def)
qed

end
