(* ===== verification/Block.thy ===== *)
theory Block
  imports Tx Script "HOL-Library.List_Lexorder"
begin

text \<open>
  Block headers, blocks, block index entries and Merkle roots: \<^verbatim>\<open>src/block.h\<close> and
  \<^verbatim>\<open>src/block.cpp\<close>, without the functions that read the database.
\<close>

section \<open>Headers and blocks\<close>

definition SER_GETHASH :: u32 where
  "SER_GETHASH = 4"

definition PROTOCOL_VERSION :: u32 where
  "PROTOCOL_VERSION = 70015"

record BlockHeader =
  bh_nVersion :: u32
  bh_hashPrevBlock :: uint256
  bh_hashMerkleRoot :: uint256
  bh_nTime :: u32
  bh_nBits :: u32
  bh_nNonce :: u32
  bh_nTxCount :: u64

record Block = BlockHeader +
  vtx :: "NetMessageTransaction list"

definition BlockHeader_SetNull :: BlockHeader where
  "BlockHeader_SetNull = \<lparr>bh_nVersion = 0, bh_hashPrevBlock = uint256_new, bh_hashMerkleRoot = uint256_new,
     bh_nTime = 0, bh_nBits = 0, bh_nNonce = 0, bh_nTxCount = 0\<rparr>"

definition Block_SetNull :: Block where
  "Block_SetNull = BlockHeader.extend BlockHeader_SetNull \<lparr>vtx = []\<rparr>"

definition BlockHeader_IsNull :: "'a BlockHeader_scheme \<Rightarrow> bool" where
  "BlockHeader_IsNull h \<longleftrightarrow> bh_nBits h = 0"

text \<open>
  The virtual method \<open>IsHeader\<close> is the first argument: true for a header object, false for the header
  part of a block. The version of the stream is tested for a bit that belongs to the stream type.
\<close>

definition Serialize_BlockHeader :: "bool \<Rightarrow> u32 \<Rightarrow> 'a BlockHeader_scheme \<Rightarrow> ser_op list" where
  "Serialize_BlockHeader IsHeader ver h =
     ser_writedata32 (bh_nVersion h) @ Serialize_uint256 (bh_hashPrevBlock h) @ Serialize_uint256 (bh_hashMerkleRoot h) @
     ser_writedata32 (bh_nTime h) @ ser_writedata32 (bh_nBits h) @ ser_writedata32 (bh_nNonce h) @
     (if IsHeader \<and> ver AND SER_GETHASH = 0 then [CS (bh_nTxCount h)] else [])"

definition Unserialize_BlockHeader :: "bool \<Rightarrow> 'a BlockHeader_scheme \<Rightarrow> 'a BlockHeader_scheme unser" where
  "Unserialize_BlockHeader IsHeader h = versionU (\<lambda>ver.
     bindU ser_readdata32 (\<lambda>nVersion.
     bindU (Unserialize_uint256 (bh_hashPrevBlock h)) (\<lambda>hashPrev.
     bindU (Unserialize_uint256 (bh_hashMerkleRoot h)) (\<lambda>root.
     bindU ser_readdata32 (\<lambda>nTime.
     bindU ser_readdata32 (\<lambda>nBits.
     bindU ser_readdata32 (\<lambda>nNonce.
     bindU (if IsHeader \<and> ver AND SER_GETHASH = 0 then ReadCompactSize else retU (bh_nTxCount h)) (\<lambda>nTxCount.
       retU (h\<lparr>bh_nVersion := nVersion, bh_hashPrevBlock := hashPrev, bh_hashMerkleRoot := root, bh_nTime := nTime,
               bh_nBits := nBits, bh_nNonce := nNonce, bh_nTxCount := nTxCount\<rparr>)))))))))"

definition BlockHeader_GetHash :: "bool \<Rightarrow> 'a BlockHeader_scheme \<Rightarrow> uint256" where
  "BlockHeader_GetHash IsHeader h = SerializeHash (Serialize_BlockHeader IsHeader PROTOCOL_VERSION h)"

abbreviation Block_GetHash :: "Block \<Rightarrow> uint256" where
  "Block_GetHash \<equiv> BlockHeader_GetHash False"

definition GetBlockTime :: "'a BlockHeader_scheme \<Rightarrow> int" where
  "GetBlockTime h = uint (bh_nTime h)"

definition sizeof_NetMessageTransaction :: nat where
  "sizeof_NetMessageTransaction = 160"

definition Serialize_Block :: "u32 \<Rightarrow> Block \<Rightarrow> ser_op list" where
  "Serialize_Block ver b = Serialize_BlockHeader False ver b @ Serialize_vector (Serialize_tx ver) (vtx b)"

definition Unserialize_Block :: "Block \<Rightarrow> Block unser" where
  "Unserialize_Block b =
     bindU (Unserialize_BlockHeader False b) (\<lambda>b.
     bindU (Unserialize_vector sizeof_NetMessageTransaction NetMessageTransaction_new Unserialize_tx) (\<lambda>txs.
       retU (b\<lparr>vtx := txs\<rparr>)))"

definition Block_GetBlockHeader :: "Block \<Rightarrow> BlockHeader" where
  "Block_GetBlockHeader b = BlockHeader_SetNull\<lparr>bh_nVersion := bh_nVersion b, bh_hashPrevBlock := bh_hashPrevBlock b,
     bh_hashMerkleRoot := bh_hashMerkleRoot b, bh_nTime := bh_nTime b, bh_nBits := bh_nBits b, bh_nNonce := bh_nNonce b\<rparr>"

text \<open>As for transactions, the argument meant as a version is the stream type and the version is 0.\<close>

definition Block_GetWeight :: "Block \<Rightarrow> nat" where
  "Block_GetWeight b =
     GetSerializeSize (Serialize_Block 0 b) * (WITNESS_SCALE_FACTOR - 1) + GetSerializeSize (Serialize_Block 0 b)"

section \<open>Merkle roots\<close>

record MerkleRootResult =
  mr_hash :: uint256
  mr_mutated :: bool

text \<open>
  One level, in place: \<open>ctx\<close> hashes the 64 bytes at \<open>pIn\<close> and writes the 32 bytes at \<open>pOut\<close> of the
  same array.
\<close>

primrec merkle_level :: "nat \<Rightarrow> nat \<Rightarrow> nat \<Rightarrow> SHA256_CPU \<Rightarrow> bytes \<Rightarrow> SHA256_CPU \<times> bytes" where
  "merkle_level 0 pIn pOut ctx mem = (ctx, mem)"
| "merkle_level (Suc blocks) pIn pOut ctx mem =
     (let ctx = SHA256_CPU_Write ctx (take 64 (drop pIn mem));
          (out, ctx) = DoubleHash256_Finalize ctx;
          mem = memcpy mem pOut out
      in merkle_level blocks (pIn + 64) (pOut + 32) (SHA256_CPU_Reset ctx) mem)"

definition hashes_of :: "nat \<Rightarrow> bytes \<Rightarrow> uint256 list" where
  "hashes_of n mem = map (\<lambda>i. take 32 (drop (32 * i) mem)) [0..<n]"

function ComputeMerkleRoot_loop :: "SHA256_CPU \<Rightarrow> bool \<Rightarrow> uint256 list \<Rightarrow> uint256 list \<times> bool" where
  "ComputeMerkleRoot_loop ctx mutated txHashes =
     (if 1 < length txHashes then
        let mutated = (if mutated then list_ex (\<lambda>pos. txHashes ! (2 * pos) = txHashes ! (2 * pos + 1)) [0..<length txHashes div 2] \<or> mutated
                       else mutated);
            txHashes = (if odd (length txHashes) then txHashes @ [last txHashes] else txHashes);
            nextLevelHashCount = length txHashes div 2;
            (ctx, mem) = merkle_level nextLevelHashCount 0 0 ctx (concat txHashes)
        in ComputeMerkleRoot_loop ctx mutated (hashes_of nextLevelHashCount mem)
      else (txHashes, mutated))"
  by pat_completeness auto
termination
  by (relation "measure (\<lambda>(ctx, mutated, txHashes). length txHashes)") (auto simp: hashes_of_def elim!: oddE split: if_splits)

declare ComputeMerkleRoot_loop.simps [simp del]

definition ComputeMerkleRoot :: "uint256 list \<Rightarrow> MerkleRootResult" where
  "ComputeMerkleRoot txHashes =
     (case ComputeMerkleRoot_loop SHA256_CPU_new False txHashes of
        (txHashes, mutated) \<Rightarrow>
          \<lparr>mr_hash = (if length txHashes = 0 then uint256_new else txHashes ! 0), mr_mutated = mutated\<rparr>)"

definition MakeMerkleRoot :: "Block \<Rightarrow> MerkleRootResult" where
  "MakeMerkleRoot b = ComputeMerkleRoot (map (\<lambda>tx. fst (GetHash tx)) (vtx b))"

text \<open>A block without transactions makes the code write outside the vector: \<open>None\<close>.\<close>

definition MakeWitnessMerkleRoot :: "Block \<Rightarrow> MerkleRootResult option" where
  "MakeWitnessMerkleRoot b =
     (if vtx b = [] then None
      else Some (ComputeMerkleRoot (uint256_new # map (\<lambda>tx. fst (GetWitnessHash tx)) (tl (vtx b)))))"

section \<open>Index entries\<close>

definition INVALID_BLOCK_HEIGHT :: int where
  "INVALID_BLOCK_HEIGHT = - 1"

record BlockIndex =
  bi_height :: int
  bi_hash :: uint256
  bi_hashPrevBlock :: uint256
  bi_hashNextBlock :: uint256
  bi_block :: Block
  bi_blockHeader :: BlockHeader

definition BlockIndex_new :: BlockIndex where
  "BlockIndex_new = \<lparr>bi_height = INVALID_BLOCK_HEIGHT, bi_hash = uint256_new, bi_hashPrevBlock = uint256_new,
     bi_hashNextBlock = uint256_new, bi_block = Block_SetNull, bi_blockHeader = BlockHeader_SetNull\<rparr>"

definition BlockIndex_of :: "int \<Rightarrow> uint256 \<Rightarrow> uint256 \<Rightarrow> BlockIndex" where
  "BlockIndex_of height hash prevBlock = BlockIndex_new\<lparr>bi_height := height, bi_hash := hash, bi_hashPrevBlock := prevBlock\<rparr>"

definition BlockIndex_of_block :: "Block \<Rightarrow> int \<Rightarrow> BlockIndex" where
  "BlockIndex_of_block block height = BlockIndex_of height (Block_GetHash block) (bh_hashPrevBlock block)"

definition BlockIndex_IsNull :: "BlockIndex \<Rightarrow> bool" where
  "BlockIndex_IsNull idx \<longleftrightarrow> uint256_IsNull (bi_hash idx)"

definition BlockIndex_eq :: "BlockIndex \<Rightarrow> BlockIndex \<Rightarrow> bool" where
  "BlockIndex_eq a b \<longleftrightarrow> bi_hash b = bi_hash a"

definition Serialize_BlockIndex :: "BlockIndex \<Rightarrow> ser_op list" where
  "Serialize_BlockIndex idx =
     ser_writedata64 (word_of_int (bi_height idx)) @ Serialize_uint256 (bi_hash idx) @
     Serialize_uint256 (bi_hashPrevBlock idx) @ Serialize_uint256 (bi_hashNextBlock idx)"

definition Unserialize_BlockIndex :: "BlockIndex \<Rightarrow> BlockIndex unser" where
  "Unserialize_BlockIndex idx =
     bindU ser_readdata64 (\<lambda>height.
     bindU (Unserialize_uint256 (bi_hash idx)) (\<lambda>hash.
     bindU (Unserialize_uint256 (bi_hashPrevBlock idx)) (\<lambda>hashPrev.
     bindU (Unserialize_uint256 (bi_hashNextBlock idx)) (\<lambda>hashNext.
       retU (idx\<lparr>bi_height := sint height, bi_hash := hash, bi_hashPrevBlock := hashPrev, bi_hashNextBlock := hashNext\<rparr>)))))"

section \<open>The genesis block\<close>

definition genesis_key :: bytes where
  "genesis_key =
    [4, 103, 138, 253, 176, 254, 85, 72, 39, 25, 103, 241, 166, 113, 48, 183, 16,
     92, 214, 168, 40, 224, 57, 9, 166, 121, 98, 224, 234, 31, 97, 222, 182, 73,
     246, 188, 63, 76, 239, 56, 196, 243, 85, 4, 229, 30, 193, 18, 222, 92, 56,
     77, 247, 186, 11, 141, 87, 138, 76, 112, 43, 107, 241, 29, 95]"

definition genesis_timestamp :: bytes where
  "genesis_timestamp = map of_char ''The Times 03/Jan/2009 Chancellor on brink of second bailout for banks''"

definition CreateGenesisBlock_with :: "bytes \<Rightarrow> bytes \<Rightarrow> u32 \<Rightarrow> u32 \<Rightarrow> u32 \<Rightarrow> u32 \<Rightarrow> CAmount \<Rightarrow> Block" where
  "CreateGenesisBlock_with pszTimestamp genesisOutputScript nTime nNonce nBits nVersion genesisReward =
     (let txNew = NetMessageTransaction_new\<lparr>tx_nVersion := 1,
            vin := [TxIn_new\<lparr>scriptSig := push_int64 486604799 @ CScript_push (CScriptNum_serialize 4) @ CScript_push pszTimestamp\<rparr>],
            vout := [TxOut_SetNull\<lparr>nValue := genesisReward, scriptPubKey := genesisOutputScript\<rparr>]\<rparr>;
          genesis = Block_SetNull\<lparr>bh_nTime := nTime, bh_nBits := nBits, bh_nNonce := nNonce, bh_nVersion := nVersion, vtx := [txNew],
            bh_hashPrevBlock := uint256_new\<rparr>
      in genesis\<lparr>bh_hashMerkleRoot := mr_hash (MakeMerkleRoot genesis)\<rparr>)"

definition CreateGenesisBlock :: "u32 \<Rightarrow> u32 \<Rightarrow> u32 \<Rightarrow> u32 \<Rightarrow> CAmount \<Rightarrow> Block" where
  "CreateGenesisBlock nTime nNonce nBits nVersion genesisReward =
     CreateGenesisBlock_with genesis_timestamp (CScript_push genesis_key @ [OP_CHECKSIG]) nTime nNonce nBits nVersion genesisReward"

definition GetGenesisBlock :: Block where
  "GetGenesisBlock = CreateGenesisBlock 1296688602 2 0x207fffff 1 (50 * COIN)"

section \<open>The Merkle tree\<close>

text \<open>The tree as it is usually described: a last hash without a partner is paired with itself.\<close>

fun merkle_pairs :: "uint256 list \<Rightarrow> uint256 list" where
  "merkle_pairs [] = []"
| "merkle_pairs [a] = [sha256d (a @ a)]"
| "merkle_pairs (a # b # ls) = sha256d (a @ b) # merkle_pairs ls"

lemma length_merkle_pairs [simp]: "length (merkle_pairs ls) = (length ls + 1) div 2"
  by (induction ls rule: merkle_pairs.induct) simp_all

function merkle_root :: "uint256 list \<Rightarrow> uint256" where
  "merkle_root ls = (if ls = [] then uint256_new else if length ls = 1 then hd ls else merkle_root (merkle_pairs ls))"
  by pat_completeness auto
termination
  by (relation "measure length") (auto simp: neq_Nil_conv)

declare merkle_root.simps [simp del]

lemma merkle_root_step: "1 < length ls \<Longrightarrow> merkle_root ls = merkle_root (merkle_pairs ls)"
  by (subst merkle_root.simps) auto

abbreviation hashes32 :: "uint256 list \<Rightarrow> bool" where
  "hashes32 \<equiv> list_all (\<lambda>h. length h = 32)"

lemma hashes32_pairs [simp]: "hashes32 (merkle_pairs ls)"
  by (induction ls rule: merkle_pairs.induct) simp_all

lemma merkle_pairs_odd: "odd (length ls) \<Longrightarrow> merkle_pairs (ls @ [last ls]) = merkle_pairs ls"
  by (induction ls rule: merkle_pairs.induct) auto

lemma merkle_pairs_nth:
  "i < length (merkle_pairs ls) \<Longrightarrow>
     merkle_pairs ls ! i = sha256d (ls ! (2 * i) @ (if 2 * i + 1 < length ls then ls ! (2 * i + 1) else ls ! (2 * i)))"
proof (induction ls arbitrary: i rule: merkle_pairs.induct)
  case (3 a b ls)
  then show ?case by (cases i) auto
qed simp_all

lemma length_concat32: "hashes32 ls \<Longrightarrow> length (concat ls) = 32 * length ls"
  by (induction ls) simp_all

lemma drop_concat32: "hashes32 ls \<Longrightarrow> drop (32 * i) (concat ls) = concat (drop i ls)"
proof (induction ls arbitrary: i)
  case (Cons h ls)
  then show ?case by (cases i) simp_all
qed simp

lemma take_concat32:
  assumes "hashes32 ls" "2 * i + 1 < length ls"
  shows "take 64 (drop (64 * i) (concat ls)) = ls ! (2 * i) @ ls ! (2 * i + 1)"
proof -
  have "drop (2 * i) ls = ls ! (2 * i) # ls ! (2 * i + 1) # drop (2 * i + 2) ls"
    using assms(2) by (metis Cons_nth_drop_Suc Suc_eq_plus1 Suc_lessD add_2_eq_Suc')
  moreover have "length (ls ! (2 * i)) = 32" "length (ls ! (2 * i + 1)) = 32" using assms by (auto simp: list_all_length)
  ultimately show ?thesis using drop_concat32 [OF assms(1), of "2 * i"] by simp
qed

lemma DoubleHash256_Finalize_state:
  assumes "sha256_absorbed st m"
  shows "sha256_absorbed (SHA256_CPU_Reset (snd (DoubleHash256_Finalize st))) []"
proof -
  obtain buf st' where fin: "SHA256_CPU_Finalize st = (buf, st')" by force
  then have "sha256_absorbed st' (sha256_pad m)" using SHA256_CPU_Finalize_absorbed [OF assms] by simp
  from SHA256_CPU_Finalize_absorbed(2) [OF SHA256_CPU_Write_absorbs [OF sha256_absorbed_Reset [OF this]], of buf] fin
  show ?thesis by (intro sha256_absorbed_Reset) (simp add: DoubleHash256_Finalize_def)
qed

text \<open>Reading ahead of the writes: the level in place computes the parents from the old contents.\<close>

lemma merkle_level_correct:
  assumes "sha256_absorbed ctx []" "length mem = 64 * (k + n)" "merkle_level n (64 * k) (32 * k) ctx mem = (ctx', mem')"
  shows "sha256_absorbed ctx' [] \<and> length mem' = length mem \<and> take (32 * k) mem' = take (32 * k) mem \<and>
    (\<forall>i < n. take 32 (drop (32 * (k + i)) mem') = sha256d (take 64 (drop (64 * (k + i)) mem)))"
  using assms
proof (induction n arbitrary: k ctx mem)
  case (Suc n)
  define ctx1 where "ctx1 = SHA256_CPU_Write ctx (take 64 (drop (64 * k) mem))"
  define out where "out = sha256d (take 64 (drop (64 * k) mem))"
  define mem1 where "mem1 = memcpy mem (32 * k) out"
  have abs: "sha256_absorbed ctx1 (take 64 (drop (64 * k) mem))"
    using SHA256_CPU_Write_absorbs [OF Suc.prems(1)] by (simp add: ctx1_def)
  have out: "fst (DoubleHash256_Finalize ctx1) = out" using DoubleHash256_Finalize_absorbed [OF abs] by (simp add: out_def)
  have run: "merkle_level n (64 * Suc k) (32 * Suc k) (SHA256_CPU_Reset (snd (DoubleHash256_Finalize ctx1))) mem1 = (ctx', mem')"
    using Suc.prems(3) out by (simp add: ctx1_def mem1_def Let_def split_beta add.commute)
  have len: "length mem1 = length mem" using Suc.prems(2) by (simp add: mem1_def memcpy_def out_def)
  have tail: "drop (64 * (Suc k + i)) mem1 = drop (64 * (Suc k + i)) mem" for i
    using Suc.prems(2) by (simp add: mem1_def memcpy_def out_def drop_append add.commute add.left_commute)
  have head: "take (32 * Suc k) mem1 = take (32 * k) mem @ out"
    using Suc.prems(2) by (simp add: mem1_def memcpy_def out_def)
  have IH: "sha256_absorbed ctx' []" "length mem' = length mem" "take (32 * Suc k) mem' = take (32 * Suc k) mem1"
    "\<forall>i < n. take 32 (drop (32 * (Suc k + i)) mem') = sha256d (take 64 (drop (64 * (Suc k + i)) mem1))"
    using Suc.IH [OF DoubleHash256_Finalize_state [OF abs] _ run] Suc.prems(2) len by simp_all
  have kept: "take (32 * k) mem' = take (32 * k) mem"
    using arg_cong [OF IH(3) [unfolded head], of "take (32 * k)"] Suc.prems(2) by simp
  have new: "take 32 (drop (32 * k) mem') = out"
    using arg_cong [OF IH(3) [unfolded head], of "drop (32 * k)"] Suc.prems(2) by (simp add: take_drop add.commute)
  have "take 32 (drop (32 * (k + i)) mem') = sha256d (take 64 (drop (64 * (k + i)) mem))" if "i < Suc n" for i
  proof (cases i)
    case 0
    then show ?thesis using new by (simp add: out_def)
  next
    case (Suc j)
    then have "take 32 (drop (32 * (Suc k + j)) mem') = sha256d (take 64 (drop (64 * (Suc k + j)) mem))"
      using IH(4) that tail by simp
    then show ?thesis using Suc by (simp add: algebra_simps)
  qed
  with IH(1,2) kept show ?case by blast
qed simp

lemma merkle_level_pairs:
  assumes "sha256_absorbed ctx []" "hashes32 ls" "even (length ls)"
    "merkle_level (length ls div 2) 0 0 ctx (concat ls) = (ctx', mem')"
  shows "hashes_of (length ls div 2) mem' = merkle_pairs ls" "sha256_absorbed ctx' []"
proof -
  have len: "length (concat ls) = 64 * (0 + length ls div 2)" using assms(2,3) length_concat32 by auto
  have level: "merkle_level (length ls div 2) (64 * 0) (32 * 0) ctx (concat ls) = (ctx', mem')" using assms(4) by simp
  from merkle_level_correct [OF assms(1) len level]
  have run: "sha256_absorbed ctx' []" "\<forall>i < length ls div 2. take 32 (drop (32 * i) mem') = sha256d (take 64 (drop (64 * i) (concat ls)))"
    by simp_all
  show "sha256_absorbed ctx' []" by (rule run(1))
  show "hashes_of (length ls div 2) mem' = merkle_pairs ls"
    using run(2) assms(2,3) by (intro nth_equalityI) (auto simp: hashes_of_def merkle_pairs_nth take_concat32)
qed

lemma ComputeMerkleRoot_loop_root:
  "sha256_absorbed ctx [] \<Longrightarrow> hashes32 ls \<Longrightarrow>
     (case ComputeMerkleRoot_loop ctx False ls of
        (ls', mutated) \<Rightarrow> (if length ls' = 0 then uint256_new else ls' ! 0) = merkle_root ls \<and> \<not> mutated)"
proof (induction "length ls" arbitrary: ctx ls rule: less_induct)
  case less
  show ?case
  proof (cases "1 < length ls")
    case True
    define ls2 where "ls2 = (if odd (length ls) then ls @ [last ls] else ls)"
    have ls2: "hashes32 ls2" "even (length ls2)" "merkle_pairs ls2 = merkle_pairs ls"
      using less.prems(2) True last_in_set [of ls] by (cases "ls = []"; auto simp: ls2_def merkle_pairs_odd list_all_iff)+
    obtain ctx' mem' where level: "merkle_level (length ls2 div 2) 0 0 ctx (concat ls2) = (ctx', mem')" by force
    note pairs = merkle_level_pairs [OF less.prems(1) ls2(1,2) level]
    have "ComputeMerkleRoot_loop ctx False ls = ComputeMerkleRoot_loop ctx' False (merkle_pairs ls)"
      using True level pairs ls2(3) by (subst ComputeMerkleRoot_loop.simps) (simp add: ls2_def [symmetric] Let_def del: One_nat_def)
    moreover have "merkle_root ls = merkle_root (merkle_pairs ls)"
      by (rule merkle_root_step [OF True])
    moreover have "length (merkle_pairs ls) < length ls" using True by simp
    ultimately show ?thesis using less.hyps [of "merkle_pairs ls" ctx'] pairs(2) by simp
  next
    case False
    then show ?thesis by (cases ls) (simp_all add: ComputeMerkleRoot_loop.simps merkle_root.simps)
  qed
qed

lemma ComputeMerkleRoot_tree:
  "hashes32 ls \<Longrightarrow> ComputeMerkleRoot ls = \<lparr>mr_hash = merkle_root ls, mr_mutated = False\<rparr>"
  using ComputeMerkleRoot_loop_root [OF sha256_absorbed_new, of ls]
  by (cases "ComputeMerkleRoot_loop SHA256_CPU_new False ls") (simp add: ComputeMerkleRoot_def)

text \<open>A root binds the leaves, up to a collision of the hash function on 64 bytes.\<close>

lemma merkle_pairs_inj:
  assumes "hashes32 ls" "hashes32 ls'" "length ls = length ls'" "merkle_pairs ls = merkle_pairs ls'"
    and no_collision: "\<And>x y. length x = 64 \<Longrightarrow> length y = 64 \<Longrightarrow> sha256d x = sha256d y \<Longrightarrow> x = y"
  shows "ls = ls'"
  using assms(1-4)
proof (induction ls arbitrary: ls' rule: merkle_pairs.induct)
  case (2 a)
  then obtain b where "ls' = [b]" by (cases ls') auto
  with 2 no_collision [of "a @ a" "b @ b"] show ?case by simp
next
  case (3 a b ls)
  from "3.prems"(3) have "length ls' = Suc (Suc (length ls))" by simp
  then obtain c d ds where ls': "ls' = c # d # ds" by (auto simp: length_Suc_conv)
  with "3.prems" no_collision [of "a @ b" "c @ d"] have "a = c" "b = d" by simp_all
  with "3.IH" [of ds] "3.prems" ls' show ?case by simp
qed simp

lemma merkle_root_binding:
  assumes no_collision: "\<And>x y. length x = 64 \<Longrightarrow> length y = 64 \<Longrightarrow> sha256d x = sha256d y \<Longrightarrow> x = y"
  shows "hashes32 ls \<Longrightarrow> hashes32 ls' \<Longrightarrow> length ls = length ls' \<Longrightarrow> merkle_root ls = merkle_root ls' \<Longrightarrow> ls = ls'"
proof (induction "length ls" arbitrary: ls ls' rule: less_induct)
  case less
  consider "ls = []" | a where "ls = [a]" | "1 < length ls" by (cases ls; cases "tl ls") auto
  then show ?case
  proof cases
    case 2
    with less.prems(3) obtain b where "ls' = [b]" by (cases ls') auto
    with 2 less.prems(4) show ?thesis by (simp add: merkle_root.simps)
  next
    case 3
    have "merkle_root (merkle_pairs ls) = merkle_root (merkle_pairs ls')"
      using less.prems(3,4) 3 by (simp add: merkle_root_step)
    with less.hyps [of "merkle_pairs ls" "merkle_pairs ls'"] 3 less.prems have "merkle_pairs ls = merkle_pairs ls'" by simp
    from merkle_pairs_inj [OF less.prems(1-3) this no_collision] show ?thesis by blast
  qed (use less.prems in simp)
qed

section \<open>Round trips\<close>

definition BlockHeader_wf :: "'a BlockHeader_scheme \<Rightarrow> bool" where
  "BlockHeader_wf h \<longleftrightarrow> length (bh_hashPrevBlock h) = 32 \<and> length (bh_hashMerkleRoot h) = 32"

definition Block_wf :: "u32 \<Rightarrow> Block \<Rightarrow> bool" where
  "Block_wf ver b \<longleftrightarrow> BlockHeader_wf b \<and> list_all (tx_encodable ver) (vtx b) \<and> length (vtx b) \<le> MAX_SIZE"

text \<open>What reading leaves of the object read into: the transaction count, and in the transactions what is not serialised.\<close>

definition Block_merge :: "u32 \<Rightarrow> Block \<Rightarrow> Block \<Rightarrow> Block" where
  "Block_merge ver old b = b\<lparr>bh_nTxCount := bh_nTxCount old, vtx := map (tx_merge ver NetMessageTransaction_new) (vtx b)\<rparr>"

lemma decodes_uint256:
  "length old = 32 \<Longrightarrow> length x = 32 \<Longrightarrow> decodes ver (Unserialize_uint256 old) x x"
  using uint256_codec.decodes_un [of old x ver] by (simp add: Serialize_uint256_def)

lemma decodes_BlockHeader:
  assumes "BlockHeader_wf old" "BlockHeader_wf h"
  shows "decodes ver (Unserialize_BlockHeader False old) (ser_bytes (Serialize_BlockHeader False ver h))
    (old\<lparr>bh_nVersion := bh_nVersion h, bh_hashPrevBlock := bh_hashPrevBlock h, bh_hashMerkleRoot := bh_hashMerkleRoot h,
         bh_nTime := bh_nTime h, bh_nBits := bh_nBits h, bh_nNonce := bh_nNonce h\<rparr>)"
proof -
  have "decodes ver (Unserialize_BlockHeader False old)
     (WriteLE32 (bh_nVersion h) @ bh_hashPrevBlock h @ bh_hashMerkleRoot h @ WriteLE32 (bh_nTime h) @ WriteLE32 (bh_nBits h) @
      WriteLE32 (bh_nNonce h))
    (old\<lparr>bh_nVersion := bh_nVersion h, bh_hashPrevBlock := bh_hashPrevBlock h, bh_hashMerkleRoot := bh_hashMerkleRoot h,
         bh_nTime := bh_nTime h, bh_nBits := bh_nBits h, bh_nNonce := bh_nNonce h\<rparr>)"
    using assms unfolding Unserialize_BlockHeader_def BlockHeader_wf_def
    by (intro decodes_version decodes_bind [OF decodes_readdata32] decodes_bind [OF decodes_uint256]
        decodes_bind_last [OF decodes_readdata32]) (auto intro!: decodes_bind_last [OF decodes_ret] decodes_return)
  then show ?thesis by (simp add: Serialize_BlockHeader_def Serialize_uint256_def)
qed

interpretation tx_codec: codec_vector ver "Serialize_tx ver" Unserialize_tx "tx_merge ver" "tx_encodable ver" "\<lambda>_. True"
    sizeof_NetMessageTransaction NetMessageTransaction_new for ver
  by unfold_locales (auto intro: decodes_tx simp: sizeof_NetMessageTransaction_def)

lemma decodes_Block:
  assumes "BlockHeader_wf old" "Block_wf ver b"
  shows "decodes ver (Unserialize_Block old) (ser_bytes (Serialize_Block ver b)) (Block_merge ver old b)"
proof -
  let ?mid = "old\<lparr>bh_nVersion := bh_nVersion b, bh_hashPrevBlock := bh_hashPrevBlock b, bh_hashMerkleRoot := bh_hashMerkleRoot b,
    bh_nTime := bh_nTime b, bh_nBits := bh_nBits b, bh_nNonce := bh_nNonce b\<rparr>"
  have "decodes ver (Unserialize_Block old)
      (ser_bytes (Serialize_BlockHeader False ver b) @ ser_bytes (Serialize_vector (Serialize_tx ver) (vtx b)))
      (?mid\<lparr>vtx := map (tx_merge ver NetMessageTransaction_new) (vtx b)\<rparr>)"
    unfolding Unserialize_Block_def
    using assms tx_codec.vec.decodes_un [of ver "vtx b"]
    by (intro decodes_bind [OF decodes_BlockHeader] decodes_bind_last [where x = "map (tx_merge ver NetMessageTransaction_new) (vtx b)"])
      (auto simp: Block_wf_def decodes_ret)
  moreover have "?mid\<lparr>vtx := map (tx_merge ver NetMessageTransaction_new) (vtx b)\<rparr> = Block_merge ver old b"
    by (cases old, cases b) (simp add: Block_merge_def)
  ultimately show ?thesis by (simp add: Serialize_Block_def)
qed

interpretation Block_codec: codec ver "Serialize_Block ver" Unserialize_Block "Block_merge ver" "Block_wf ver" BlockHeader_wf for ver
  by unfold_locales (rule decodes_Block)

definition BlockIndex_wf :: "BlockIndex \<Rightarrow> bool" where
  "BlockIndex_wf idx \<longleftrightarrow> length (bi_hash idx) = 32 \<and> length (bi_hashPrevBlock idx) = 32 \<and> length (bi_hashNextBlock idx) = 32
     \<and> - (2 ^ 63) \<le> bi_height idx \<and> bi_height idx < 2 ^ 63"

definition BlockIndex_merge :: "BlockIndex \<Rightarrow> BlockIndex \<Rightarrow> BlockIndex" where
  "BlockIndex_merge old idx = idx\<lparr>bi_block := bi_block old, bi_blockHeader := bi_blockHeader old\<rparr>"

lemma sint_word_of_int: "- (2 ^ 63) \<le> i \<Longrightarrow> i < 2 ^ 63 \<Longrightarrow> sint (word_of_int i :: u64) = i"
  by (simp add: signed_of_int signed_take_bit_int_eq_self)

lemma decodes_BlockIndex:
  assumes "BlockIndex_wf old" "BlockIndex_wf idx"
  shows "decodes ver (Unserialize_BlockIndex old) (ser_bytes (Serialize_BlockIndex idx)) (BlockIndex_merge old idx)"
proof -
  have height: "sint (word_of_int (bi_height idx) :: u64) = bi_height idx"
    using assms(2) by (simp add: BlockIndex_wf_def sint_word_of_int)
  have "decodes ver (Unserialize_BlockIndex old)
     (WriteLE64 (word_of_int (bi_height idx)) @ bi_hash idx @ bi_hashPrevBlock idx @ bi_hashNextBlock idx)
     (old\<lparr>bi_height := bi_height idx, bi_hash := bi_hash idx, bi_hashPrevBlock := bi_hashPrevBlock idx, bi_hashNextBlock := bi_hashNextBlock idx\<rparr>)"
    using assms height unfolding Unserialize_BlockIndex_def BlockIndex_wf_def
    by (intro decodes_bind [OF decodes_readdata64] decodes_bind [OF decodes_uint256] decodes_bind_last [OF decodes_uint256]) (auto intro: decodes_return)
  moreover have "old\<lparr>bi_height := bi_height idx, bi_hash := bi_hash idx, bi_hashPrevBlock := bi_hashPrevBlock idx, bi_hashNextBlock := bi_hashNextBlock idx\<rparr>
      = BlockIndex_merge old idx"
    by (rule BlockIndex.equality) (simp_all add: BlockIndex_merge_def)
  ultimately show ?thesis by (simp add: Serialize_BlockIndex_def Serialize_uint256_def)
qed

lemma BlockIndex_wf_new [simp]: "BlockIndex_wf BlockIndex_new"
  by (simp add: BlockIndex_wf_def BlockIndex_new_def INVALID_BLOCK_HEIGHT_def)

interpretation BlockIndex_codec: codec ver Serialize_BlockIndex Unserialize_BlockIndex BlockIndex_merge BlockIndex_wf BlockIndex_wf for ver
  by unfold_locales (rule decodes_BlockIndex)

section \<open>Block hashes\<close>

lemma GetHash_bit: "PROTOCOL_VERSION AND SER_GETHASH \<noteq> 0"
  by (simp add: PROTOCOL_VERSION_def SER_GETHASH_def)

definition header_bytes :: "'a BlockHeader_scheme \<Rightarrow> bytes" where
  "header_bytes h = WriteLE32 (bh_nVersion h) @ bh_hashPrevBlock h @ bh_hashMerkleRoot h @ WriteLE32 (bh_nTime h) @
     WriteLE32 (bh_nBits h) @ WriteLE32 (bh_nNonce h)"

lemma BlockHeader_GetHash_bytes: "BlockHeader_GetHash IsHeader h = sha256d (header_bytes h)"
  by (simp add: BlockHeader_GetHash_def Serialize_BlockHeader_def SerializeHash_sha256d GetHash_bit header_bytes_def Serialize_uint256_def)

lemma length_header_bytes: "BlockHeader_wf h \<Longrightarrow> length (header_bytes h) = 80"
  by (simp add: header_bytes_def BlockHeader_wf_def)

lemma Block_GetHash_merge [simp]: "Block_GetHash (Block_merge ver old b) = Block_GetHash b"
  by (simp add: BlockHeader_GetHash_bytes header_bytes_def Block_merge_def)

lemma length_Block_GetHash [simp]: "length (BlockHeader_GetHash IsHeader h) = 32"
  by (simp add: BlockHeader_GetHash_bytes)

section \<open>Properties\<close>

text \<open>
  C6. The Merkle root is computed in place, level by level, in one array; the result is the root of the
  binary tree in which a last node without a partner is paired with itself.
\<close>

theorem ComputeMerkleRoot_correct:
  assumes "list_all (\<lambda>h. length h = 32) txHashes"
  shows "mr_hash (ComputeMerkleRoot txHashes) = merkle_root txHashes"
  using ComputeMerkleRoot_tree [OF assms] by simp



text \<open>
  C13. A block read back: from a stream that starts with the bytes of a block, \<open>operator>>\<close> reads the block,
  apart from what is not in the stream, consumes exactly those bytes, and the hash of the result is the same.
\<close>

theorem block_roundtrip:
  assumes "Block_wf ver b" "BlockHeader_wf old" "length (nd_data s) < 2 ^ 32" "nd_version s = ver"
    "remaining s = ser_bytes (Serialize_Block ver b) @ rest"
  shows "Unserialize_Block old s = Inr (Block_merge ver old b, skip (GetSerializeSize (Serialize_Block ver b)) s)
    \<and> Block_GetHash (Block_merge ver old b) = Block_GetHash b"
  using decodesD [OF Block_codec.decodes_un [OF assms(2,1)], of s rest] assms(3-5)
  by (simp add: addressable_def GetSerializeSize_length)

section \<open>Witnesses\<close>

theorem ComputeMerkleRoot_correct_witness:
  "mr_hash (ComputeMerkleRoot [replicate 32 1, replicate 32 2, replicate 32 3]) =
   sha256d (sha256d (replicate 32 1 @ replicate 32 2) @ sha256d (replicate 32 3 @ replicate 32 3))"
  using ComputeMerkleRoot_correct [of "[replicate 32 1, replicate 32 2, replicate 32 3]"] by (simp add: merkle_root.simps)



theorem block_roundtrip_witness:
  "Unserialize_Block Block_SetNull (NetMessageData_new (ser_bytes (Serialize_Block 0 Block_SetNull)) 0) =
   Inr (Block_SetNull, skip (GetSerializeSize (Serialize_Block 0 Block_SetNull)) (NetMessageData_new (ser_bytes (Serialize_Block 0 Block_SetNull)) 0))"
proof -
  let ?s = "NetMessageData_new (ser_bytes (Serialize_Block 0 Block_SetNull)) 0"
  have wf: "Block_wf 0 Block_SetNull" "BlockHeader_wf Block_SetNull" "Block_merge 0 Block_SetNull Block_SetNull = Block_SetNull"
    by (simp_all add: Block_wf_def BlockHeader_wf_def Block_SetNull_def BlockHeader_SetNull_def BlockHeader.defs Block.defs Block_merge_def MAX_SIZE_def)
  have "length (nd_data ?s) < 2 ^ 32" "nd_version ?s = 0" "remaining ?s = ser_bytes (Serialize_Block 0 Block_SetNull) @ []"
    by (simp_all add: NetMessageData_new_def remaining_def Serialize_Block_def Serialize_BlockHeader_def Serialize_uint256_def Serialize_vector_def
        Block_SetNull_def BlockHeader_SetNull_def BlockHeader.defs Block.defs WriteCompactSize_def)
  from block_roundtrip [OF wf(1,2) this] wf(3) show ?thesis by simp
qed

end
