(* ===== verification/Store.thy ===== *)
theory Store
  imports Block Verify
begin

text \<open>
  The databases of \<^verbatim>\<open>src/blockchain.h\<close>: the wrappers around the key-value store, the block, index and
  transaction tables and the set of unspent outputs. The key-value library is a parameter, the record
  \<open>leveldb\<close> of its operations over an opaque type of databases.
\<close>

section \<open>The key-value store\<close>

text \<open>A status that is not \<open>ok\<close> is \<open>None\<close> for a read and \<open>False\<close> for a write.\<close>

record 'db leveldb =
  ldb_Get :: "'db \<Rightarrow> bytes \<Rightarrow> bytes option"
  ldb_Put :: "'db \<Rightarrow> bytes \<Rightarrow> bytes \<Rightarrow> bool \<times> 'db"
  ldb_Delete :: "'db \<Rightarrow> bytes \<Rightarrow> bool \<times> 'db"

text \<open>What the library documents for a database without I/O errors: it is a map.\<close>

definition leveldb_reliable :: "'db leveldb \<Rightarrow> bool" where
  "leveldb_reliable L \<longleftrightarrow>
     (\<forall>db k v. fst (ldb_Put L db k v) \<and> ldb_Get L (snd (ldb_Put L db k v)) = (ldb_Get L db)(k \<mapsto> v)) \<and>
     (\<forall>db k. fst (ldb_Delete L db k) \<and> ldb_Get L (snd (ldb_Delete L db k)) = (ldb_Get L db)(k := None))"

text \<open>
  Ways in which a call does not return: an exception, a failed assertion, undefined behaviour, a lock held already, a
  loop that does not end.
\<close>

datatype chain_fault = Thrown ser_error | AssertFailed | NullDeref | BadIndex | Deadlock | NoReturn

definition GetData :: "'db leveldb \<Rightarrow> 'db \<Rightarrow> bytes \<Rightarrow> bytes option" where
  "GetData L db key = ldb_Get L db key"

definition PutData :: "'db leveldb \<Rightarrow> 'db \<Rightarrow> bytes \<Rightarrow> bytes \<Rightarrow> bool \<times> 'db" where
  "PutData L db key data = ldb_Put L db key data"

definition DeleteData :: "'db leveldb \<Rightarrow> 'db \<Rightarrow> bytes \<Rightarrow> bool \<times> 'db" where
  "DeleteData L db key = ldb_Delete L db key"

definition GetInt64 :: "'db leveldb \<Rightarrow> 'db \<Rightarrow> bytes \<Rightarrow> chain_fault + u64 option" where
  "GetInt64 L db key =
     (case ldb_Get L db key of
        None \<Rightarrow> Inr None
      | Some buf \<Rightarrow> if length buf \<noteq> 8 then Inl AssertFailed else Inr (Some (ReadLE64 buf)))"

definition SetInt64 :: "'db leveldb \<Rightarrow> 'db \<Rightarrow> bytes \<Rightarrow> u64 \<Rightarrow> bool \<times> 'db" where
  "SetInt64 L db key value = ldb_Put L db key (WriteLE64 value)"

definition PutHash256 :: "'db leveldb \<Rightarrow> 'db \<Rightarrow> bytes \<Rightarrow> uint256 \<Rightarrow> bool \<times> 'db" where
  "PutHash256 L db key value = ldb_Put L db key value"

definition GetHash256 :: "'db leveldb \<Rightarrow> 'db \<Rightarrow> bytes \<Rightarrow> chain_fault + uint256 option" where
  "GetHash256 L db key =
     (case ldb_Get L db key of
        None \<Rightarrow> Inr None
      | Some buf \<Rightarrow> if length buf \<noteq> 32 then Inl AssertFailed else Inr (Some buf))"

text \<open>Reading an object from a buffer with \<open>operator>>\<close>.\<close>

definition read_object :: "'a unser \<Rightarrow> u32 \<Rightarrow> bytes \<Rightarrow> chain_fault + 'a" where
  "read_object un ver buf = (case un (NetMessageData_new buf ver) of Inl e \<Rightarrow> Inl (Thrown e) | Inr (x, s) \<Rightarrow> Inr x)"

section \<open>Blocks and index entries\<close>

text \<open>\<open>None\<close> is the result \<open>false\<close>, which leaves the object read into unchanged.\<close>

definition GetBlock :: "'db leveldb \<Rightarrow> 'db \<Rightarrow> uint256 \<Rightarrow> Block \<Rightarrow> chain_fault + Block option" where
  "GetBlock L db hash value =
     (case GetData L db hash of
        None \<Rightarrow> Inr None
      | Some buf \<Rightarrow> andThen (read_object (Unserialize_Block value) 0 buf) (\<lambda>b. Inr (Some b)))"

definition PutBlock :: "'db leveldb \<Rightarrow> 'db \<Rightarrow> uint256 \<Rightarrow> Block \<Rightarrow> bool \<times> 'db" where
  "PutBlock L db hash value = PutData L db hash (ser_bytes (Serialize_Block 0 value))"

record TipBlockInfo =
  tbi_hash :: uint256
  tbi_height :: u64
  tbi_txCount :: u32
  tbi_hashPrevBlock :: uint256

definition Serialize_TipBlockInfo :: "TipBlockInfo \<Rightarrow> ser_op list" where
  "Serialize_TipBlockInfo t =
     Serialize_uint256 (tbi_hash t) @ ser_writedata64 (tbi_height t) @ ser_writedata32 (tbi_txCount t) @ Serialize_uint256 (tbi_hashPrevBlock t)"

definition Unserialize_TipBlockInfo :: "TipBlockInfo \<Rightarrow> TipBlockInfo unser" where
  "Unserialize_TipBlockInfo t =
     bindU (Unserialize_uint256 (tbi_hash t)) (\<lambda>h. bindU ser_readdata64 (\<lambda>ht. bindU ser_readdata32 (\<lambda>n.
     bindU (Unserialize_uint256 (tbi_hashPrevBlock t)) (\<lambda>p.
       retU \<lparr>tbi_hash = h, tbi_height = ht, tbi_txCount = n, tbi_hashPrevBlock = p\<rparr>))))"

definition TIP_BLOCK_INFO_KEY :: bytes where
  "TIP_BLOCK_INFO_KEY = map of_char ''_TIP_BLOCK_INFO_KEY''"

definition GetTipBlockInfo :: "'db leveldb \<Rightarrow> 'db \<Rightarrow> TipBlockInfo \<Rightarrow> chain_fault + TipBlockInfo option" where
  "GetTipBlockInfo L db value =
     (case GetData L db TIP_BLOCK_INFO_KEY of
        None \<Rightarrow> Inr None
      | Some buf \<Rightarrow> andThen (read_object (Unserialize_TipBlockInfo value) 0 buf) (\<lambda>t. Inr (Some t)))"

definition PutTipBlockInfo :: "'db leveldb \<Rightarrow> 'db \<Rightarrow> TipBlockInfo \<Rightarrow> bool \<times> 'db" where
  "PutTipBlockInfo L db value = PutData L db TIP_BLOCK_INFO_KEY (ser_bytes (Serialize_TipBlockInfo value))"

definition BlockIndex_IsExist :: "'db leveldb \<Rightarrow> 'db \<Rightarrow> uint256 \<Rightarrow> bool" where
  "BlockIndex_IsExist L db hash \<longleftrightarrow> GetData L db hash \<noteq> None"

definition BlockIndex_Get :: "'db leveldb \<Rightarrow> 'db \<Rightarrow> uint256 \<Rightarrow> BlockIndex \<Rightarrow> chain_fault + BlockIndex option" where
  "BlockIndex_Get L db hash value =
     (case GetData L db hash of
        None \<Rightarrow> Inr None
      | Some buf \<Rightarrow> andThen (read_object (Unserialize_BlockIndex value) 0 buf) (\<lambda>i. Inr (Some i)))"

text \<open>The overloads that return a pointer read into a new object; \<open>None\<close> is the null pointer.\<close>

definition BlockIndex_CGet :: "'db leveldb \<Rightarrow> 'db \<Rightarrow> uint256 \<Rightarrow> chain_fault + BlockIndex option" where
  "BlockIndex_CGet L db hash = BlockIndex_Get L db hash BlockIndex_new"

definition BlockIndex_Put :: "'db leveldb \<Rightarrow> 'db \<Rightarrow> BlockIndex \<Rightarrow> bool \<times> 'db" where
  "BlockIndex_Put L db index = PutData L db (bi_hash index) (ser_bytes (Serialize_BlockIndex index))"

section \<open>Transactions of the active chain\<close>

record TxIdx =
  ti_hashBlock :: uint256
  ti_height :: int
  ti_tx :: NetMessageTransaction

definition TxIdx_new :: TxIdx where
  "TxIdx_new = \<lparr>ti_hashBlock = uint256_new, ti_height = 0, ti_tx = NetMessageTransaction_new\<rparr>"

definition Serialize_TxIdx :: "u32 \<Rightarrow> TxIdx \<Rightarrow> ser_op list" where
  "Serialize_TxIdx ver t = Serialize_uint256 (ti_hashBlock t) @ ser_writedata64 (word_of_int (ti_height t)) @ Serialize_tx ver (ti_tx t)"

definition Unserialize_TxIdx :: "TxIdx \<Rightarrow> TxIdx unser" where
  "Unserialize_TxIdx t =
     bindU (Unserialize_uint256 (ti_hashBlock t)) (\<lambda>h. bindU ser_readdata64 (\<lambda>ht. bindU (Unserialize_tx (ti_tx t)) (\<lambda>tx.
       retU \<lparr>ti_hashBlock = h, ti_height = sint ht, ti_tx = tx\<rparr>)))"

definition TxIdx_Put :: "'db leveldb \<Rightarrow> 'db \<Rightarrow> TxIdx \<Rightarrow> bool \<times> 'db" where
  "TxIdx_Put L db t = PutData L db (fst (GetHash (ti_tx t))) (ser_bytes (Serialize_TxIdx 0 t))"

definition TxIdx_Get :: "'db leveldb \<Rightarrow> 'db \<Rightarrow> uint256 \<Rightarrow> TxIdx \<Rightarrow> chain_fault + TxIdx option" where
  "TxIdx_Get L db txHash v =
     (case GetData L db txHash of
        None \<Rightarrow> Inr None
      | Some buf \<Rightarrow> andThen (read_object (Unserialize_TxIdx v) 0 buf) (\<lambda>t. Inr (Some t)))"

definition TxIdx_IsExist :: "'db leveldb \<Rightarrow> 'db \<Rightarrow> uint256 \<Rightarrow> bool" where
  "TxIdx_IsExist L db txHash \<longleftrightarrow> GetData L db txHash \<noteq> None"

text \<open>
  \<open>TransactionIndexManager\<close> keeps the same entries with the spent flag of every output: its streams
  have the version \<open>SERIALIZE_TXOUT_ISSPENT\<close>.
\<close>

definition IndexEntity_Put :: "'db leveldb \<Rightarrow> 'db \<Rightarrow> TxIdx \<Rightarrow> bool \<times> 'db" where
  "IndexEntity_Put L db entity = PutData L db (fst (GetHash (ti_tx entity))) (ser_bytes (Serialize_TxIdx SERIALIZE_TXOUT_ISSPENT entity))"

definition IndexEntity_Get :: "'db leveldb \<Rightarrow> 'db \<Rightarrow> uint256 \<Rightarrow> TxIdx \<Rightarrow> chain_fault + TxIdx option" where
  "IndexEntity_Get L db hash outEntity =
     (case GetData L db hash of
        None \<Rightarrow> Inr None
      | Some buf \<Rightarrow> andThen (read_object (Unserialize_TxIdx outEntity) SERIALIZE_TXOUT_ISSPENT buf) (\<lambda>t. Inr (Some t)))"

definition SetUTXOSpentStatus :: "'db leveldb \<Rightarrow> 'db \<Rightarrow> OutPoint \<Rightarrow> bool \<Rightarrow> chain_fault + bool \<times> 'db" where
  "SetUTXOSpentStatus L db pt spent =
     (if uint256_IsNull (hashTransaction pt) then Inr (False, db)
      else andThen (IndexEntity_Get L db (hashTransaction pt) TxIdx_new) (\<lambda>r.
        case r of
          None \<Rightarrow> Inr (False, db)
        | Some entity \<Rightarrow>
            let outs = vout (ti_tx entity); i = unat (outPutIdx pt) in
            if length outs \<le> i then Inr (False, db)
            else Inr (IndexEntity_Put L db
              (entity\<lparr>ti_tx := (ti_tx entity)\<lparr>vout := outs[i := (outs ! i)\<lparr>isSpent := spent\<rparr>]\<rparr>\<rparr>))))"

definition IsSpentUTXO :: "'db leveldb \<Rightarrow> 'db \<Rightarrow> OutPoint \<Rightarrow> chain_fault + bool" where
  "IsSpentUTXO L db pt =
     (if uint256_IsNull (hashTransaction pt) then Inr False
      else andThen (IndexEntity_Get L db (hashTransaction pt) TxIdx_new) (\<lambda>r.
        case r of
          None \<Rightarrow> Inr False
        | Some entity \<Rightarrow>
            if length (vout (ti_tx entity)) \<le> unat (outPutIdx pt) then Inr False
            else Inr (isSpent (vout (ti_tx entity) ! unat (outPutIdx pt)))))"

definition UseUTXO :: "'db leveldb \<Rightarrow> 'db \<Rightarrow> OutPoint \<Rightarrow> chain_fault + bool \<times> 'db" where
  "UseUTXO L db pt = SetUTXOSpentStatus L db pt True"

definition RecoveryUTXO :: "'db leveldb \<Rightarrow> 'db \<Rightarrow> OutPoint \<Rightarrow> chain_fault + bool \<times> 'db" where
  "RecoveryUTXO L db pt = SetUTXOSpentStatus L db pt False"

section \<open>Unspent outputs\<close>

definition OutPoint_of :: "uint256 \<Rightarrow> u32 \<Rightarrow> uint256 \<Rightarrow> int \<Rightarrow> bool \<Rightarrow> OutPoint" where
  "OutPoint_of hash idx hashBlock height used =
     \<lparr>isUsed = used, op_hashBlock = hashBlock, op_height = word_of_int height, hashTransaction = hash, outPutIdx = idx\<rparr>"

definition UTXO_Put :: "'db leveldb \<Rightarrow> 'db \<Rightarrow> OutPoint \<Rightarrow> bool \<times> 'db" where
  "UTXO_Put L db pt =
     (if OutPoint_IsNull pt then (False, db)
      else PutData L db (ser_bytes (Serialize_OutPoint 0 pt)) (ser_bytes (Serialize_OutPoint SERIALIZE_BLOCK_HASH pt)))"

definition UTXO_Get :: "'db leveldb \<Rightarrow> 'db \<Rightarrow> OutPoint \<Rightarrow> chain_fault + OutPoint option" where
  "UTXO_Get L db pt =
     (case GetData L db (ser_bytes (Serialize_OutPoint 0 pt)) of
        None \<Rightarrow> Inr None
      | Some buf \<Rightarrow> andThen (read_object (Unserialize_OutPoint OutPoint_SetNull) SERIALIZE_BLOCK_HASH buf) (\<lambda>v. Inr (Some v)))"

definition IsUnspent :: "'db leveldb \<Rightarrow> 'db \<Rightarrow> OutPoint \<Rightarrow> chain_fault + bool" where
  "IsUnspent L db pt = andThen (UTXO_Get L db pt) (\<lambda>r. case r of None \<Rightarrow> Inr False | Some v \<Rightarrow> Inr (\<not> isUsed v))"

text \<open>The object behind the pointer \<open>out\<close> is the second result.\<close>

definition CanUse :: "'db leveldb \<Rightarrow> 'db \<Rightarrow> OutPoint \<Rightarrow> OutPoint \<Rightarrow> chain_fault + bool \<times> OutPoint" where
  "CanUse L db pt out = andThen (UTXO_Get L db pt) (\<lambda>r. case r of None \<Rightarrow> Inr (False, out) | Some v \<Rightarrow> Inr (\<not> isUsed v, v))"

definition UTXO_Use :: "'db leveldb \<Rightarrow> OutPoint \<Rightarrow> 'db \<Rightarrow> chain_fault + bool \<times> 'db" where
  "UTXO_Use L pt db = andThen (UTXO_Get L db pt) (\<lambda>r.
     case r of None \<Rightarrow> Inr (False, db) | Some v \<Rightarrow> Inr (UTXO_Put L db (v\<lparr>isUsed := True\<rparr>)))"

definition UTXO_UnUsed :: "'db leveldb \<Rightarrow> OutPoint \<Rightarrow> 'db \<Rightarrow> chain_fault + bool \<times> 'db" where
  "UTXO_UnUsed L pt db = andThen (UTXO_Get L db pt) (\<lambda>r.
     case r of None \<Rightarrow> Inr (False, db) | Some v \<Rightarrow> Inr (UTXO_Put L db (v\<lparr>isUsed := False\<rparr>)))"

definition UTXO_Remove :: "'db leveldb \<Rightarrow> 'db \<Rightarrow> OutPoint \<Rightarrow> bool \<times> 'db" where
  "UTXO_Remove L db pt = DeleteData L db (ser_bytes (Serialize_OutPoint 0 pt))"

text \<open>A loop over a list that passes a state on and stops at a fault.\<close>

primrec foldE :: "('a \<Rightarrow> 's \<Rightarrow> 'e + 's) \<Rightarrow> 'a list \<Rightarrow> 's \<Rightarrow> 'e + 's" where
  "foldE f [] s = Inr s"
| "foldE f (x # xs) s = andThen (f x s) (foldE f xs)"

definition CacheUTXO :: "'db leveldb \<Rightarrow> NetMessageTransaction \<Rightarrow> uint256 \<Rightarrow> int \<Rightarrow> 'db \<Rightarrow> chain_fault + 'db" where
  "CacheUTXO L tx hashBlock height db =
     (let hash = fst (GetHash tx) in
      andThen (if \<not> IsCoinBase tx
               then foldE (\<lambda>txin db. andThen (UTXO_Use L (previousOutput txin) db) (\<lambda>(ok, db). Inr db)) (vin tx) db
               else Inr db) (\<lambda>db.
      Inr (fold (\<lambda>i db. snd (UTXO_Put L db (OutPoint_of hash (word_of_nat i) hashBlock height False))) [0..<length (vout tx)] db)))"

definition UnCacheUTXO :: "'db leveldb \<Rightarrow> NetMessageTransaction \<Rightarrow> 'db \<Rightarrow> chain_fault + 'db" where
  "UnCacheUTXO L tx db =
     (let hash = fst (GetHash tx) in
      andThen (if \<not> IsCoinBase tx
               then foldE (\<lambda>txin db. andThen (UTXO_UnUsed L (previousOutput txin) db) (\<lambda>(ok, db). Inr db)) (vin tx) db
               else Inr db) (\<lambda>db.
      Inr (fold (\<lambda>i db. snd (UTXO_Remove L db (OutPoint_SetNull\<lparr>hashTransaction := hash, outPutIdx := word_of_nat i\<rparr>))) [0..<length (vout tx)] db)))"

section \<open>The unspent outputs as a map\<close>

type_synonym utxo_map = "uint256 \<times> u32 \<Rightarrow> OutPoint option"

definition utxo_key :: "uint256 \<times> u32 \<Rightarrow> bytes" where
  "utxo_key k = fst k @ WriteLE32 (snd k)"

abbreviation outpoint_key :: "OutPoint \<Rightarrow> uint256 \<times> u32" where
  "outpoint_key pt \<equiv> (hashTransaction pt, outPutIdx pt)"

definition utxo_entry_ok :: "uint256 \<times> u32 \<Rightarrow> OutPoint \<Rightarrow> bool" where
  "utxo_entry_ok k v \<longleftrightarrow> outpoint_key v = k \<and> OutPoint_wf v \<and> \<not> OutPoint_IsNull v"

definition utxo_rep :: "'db leveldb \<Rightarrow> 'db \<Rightarrow> utxo_map \<Rightarrow> bool" where
  "utxo_rep L db m \<longleftrightarrow>
     (\<forall>k. length (fst k) = 32 \<longrightarrow>
        ldb_Get L db (utxo_key k) = map_option (\<lambda>v. ser_bytes (Serialize_OutPoint SERIALIZE_BLOCK_HASH v)) (m k)) \<and>
     (\<forall>k v. m k = Some v \<longrightarrow> utxo_entry_ok k v)"

definition set_used :: "bool \<Rightarrow> uint256 \<times> u32 \<Rightarrow> utxo_map \<Rightarrow> utxo_map" where
  "set_used used k m = (case m k of None \<Rightarrow> m | Some v \<Rightarrow> m(k \<mapsto> v\<lparr>isUsed := used\<rparr>))"

lemma ser_bytes_OutPoint_key [simp]: "ser_bytes (Serialize_OutPoint 0 pt) = utxo_key (outpoint_key pt)"
  by (simp add: Serialize_OutPoint_def Serialize_uint256_def utxo_key_def)

lemma WriteLE32_inj: "WriteLE32 a = WriteLE32 b \<Longrightarrow> a = b"
  by (metis ReadLE32_WriteLE32 append_Nil2)

lemma utxo_key_inj: "length (fst k) = 32 \<Longrightarrow> length (fst k') = 32 \<Longrightarrow> utxo_key k = utxo_key k' \<longleftrightarrow> k = k'"
  by (cases k; cases k') (auto simp: utxo_key_def dest: WriteLE32_inj)

lemma addressable_new: "length buf < 2 ^ 32 \<Longrightarrow> addressable (NetMessageData_new buf ver)"
  by (simp add: addressable_def NetMessageData_new_def)

lemma read_object_decodes:
  assumes "decodes ver un bs x" "length bs < 2 ^ 32"
  shows "read_object un ver bs = Inr x"
  using decodesD [OF assms(1) addressable_new [OF assms(2)], where rest = "[]"]
  by (simp add: read_object_def NetMessageData_new_def remaining_def)

lemma read_OutPoint:
  assumes "OutPoint_wf v"
  shows "read_object (Unserialize_OutPoint OutPoint_SetNull) SERIALIZE_BLOCK_HASH (ser_bytes (Serialize_OutPoint SERIALIZE_BLOCK_HASH v)) = Inr v"
proof -
  have "length (ser_bytes (Serialize_OutPoint SERIALIZE_BLOCK_HASH v)) < 2 ^ 32"
    using assms by (simp add: Serialize_OutPoint_def Serialize_uint256_def Serialize_bool_def OutPoint_wf_def)
  from read_object_decodes [OF OutPoint_codec.decodes_un [OF OutPoint_wf_SetNull assms] this]
  show ?thesis by (simp add: OutPoint_merge_def SERIALIZE_BLOCK_HASH_def)
qed

lemma UTXO_Get_rep:
  assumes "utxo_rep L db m" "length (hashTransaction pt) = 32"
  shows "UTXO_Get L db pt = Inr (m (outpoint_key pt))"
proof (cases "m (outpoint_key pt)")
  case (Some v)
  with assms have "OutPoint_wf v" by (auto simp: utxo_rep_def utxo_entry_ok_def)
  with assms Some show ?thesis by (simp add: UTXO_Get_def GetData_def utxo_rep_def read_OutPoint andThen_def)
qed (use assms in \<open>simp add: UTXO_Get_def GetData_def utxo_rep_def\<close>)

lemma UTXO_Put_rep:
  assumes "leveldb_reliable L" "utxo_rep L db m" "OutPoint_wf pt" "\<not> OutPoint_IsNull pt"
  shows "utxo_rep L (snd (UTXO_Put L db pt)) (m(outpoint_key pt \<mapsto> pt))"
proof -
  have "length (hashTransaction pt) = 32" using assms(3) by (simp add: OutPoint_wf_def)
  moreover have "ldb_Get L (snd (UTXO_Put L db pt)) = (ldb_Get L db)(utxo_key (outpoint_key pt) \<mapsto> ser_bytes (Serialize_OutPoint SERIALIZE_BLOCK_HASH pt))"
    using assms(1,4) by (simp add: UTXO_Put_def PutData_def leveldb_reliable_def)
  ultimately show ?thesis
    using assms(2-4) by (auto simp: utxo_rep_def utxo_entry_ok_def utxo_key_inj)
qed

lemma UTXO_Remove_rep:
  assumes "leveldb_reliable L" "utxo_rep L db m" "length (hashTransaction pt) = 32"
  shows "utxo_rep L (snd (UTXO_Remove L db pt)) (m(outpoint_key pt := None))"
proof -
  have "ldb_Get L (snd (UTXO_Remove L db pt)) = (ldb_Get L db)(utxo_key (outpoint_key pt) := None)"
    using assms(1) by (simp add: UTXO_Remove_def DeleteData_def leveldb_reliable_def)
  then show ?thesis using assms(2,3) by (auto simp: utxo_rep_def utxo_key_inj)
qed

lemma utxo_entry_used: "utxo_entry_ok k v \<Longrightarrow> OutPoint_wf (v\<lparr>isUsed := u\<rparr>) \<and> \<not> OutPoint_IsNull (v\<lparr>isUsed := u\<rparr>) \<and> outpoint_key (v\<lparr>isUsed := u\<rparr>) = k"
  by (auto simp: utxo_entry_ok_def OutPoint_wf_def OutPoint_IsNull_def)

lemma UTXO_Use_rep:
  assumes "leveldb_reliable L" "utxo_rep L db m" "length (hashTransaction pt) = 32"
  shows "\<exists>ok db'. UTXO_Use L pt db = Inr (ok, db') \<and> utxo_rep L db' (set_used True (outpoint_key pt) m)"
    "\<exists>ok db'. UTXO_UnUsed L pt db = Inr (ok, db') \<and> utxo_rep L db' (set_used False (outpoint_key pt) m)"
proof -
  have put: "\<exists>ok db'. UTXO_Put L db (v\<lparr>isUsed := u\<rparr>) = (ok, db') \<and> utxo_rep L db' (set_used u (outpoint_key pt) m)"
    if m: "m (outpoint_key pt) = Some v" for v u
  proof -
    from m assms(2) have "utxo_entry_ok (outpoint_key pt) v" by (simp add: utxo_rep_def)
    from utxo_entry_used [OF this] UTXO_Put_rep [OF assms(1,2), of "v\<lparr>isUsed := u\<rparr>"] m show ?thesis
      by (auto simp: set_used_def intro: prod.collapse [symmetric])
  qed
  note get = UTXO_Get_rep [OF assms(2,3)]
  show "\<exists>ok db'. UTXO_Use L pt db = Inr (ok, db') \<and> utxo_rep L db' (set_used True (outpoint_key pt) m)"
    using assms(2) get put by (cases "m (outpoint_key pt)") (auto simp: UTXO_Use_def andThen_def set_used_def)
  show "\<exists>ok db'. UTXO_UnUsed L pt db = Inr (ok, db') \<and> utxo_rep L db' (set_used False (outpoint_key pt) m)"
    using assms(2) get put by (cases "m (outpoint_key pt)") (auto simp: UTXO_UnUsed_def andThen_def set_used_def)
qed

lemma fold_set_used:
  "fold (set_used u) ks m k = (if k \<in> set ks then map_option (\<lambda>v. v\<lparr>isUsed := u\<rparr>) (m k) else m k)"
proof (induction ks arbitrary: m)
  case (Cons a ks)
  have "set_used u a m k = (if k = a then map_option (\<lambda>v. v\<lparr>isUsed := u\<rparr>) (m k) else m k)"
    by (auto simp: set_used_def split: option.split)
  with Cons show ?case by (auto simp: option.map_comp comp_def)
qed simp

lemma foldE_rep:
  assumes "\<And>x db m. x \<in> set xs \<Longrightarrow> utxo_rep L db m \<Longrightarrow> \<exists>db'. f x db = Inr db' \<and> utxo_rep L db' (g x m)"
  shows "utxo_rep L db m \<Longrightarrow> \<exists>db'. foldE f xs db = Inr db' \<and> utxo_rep L db' (fold g xs m)"
  using assms
proof (induction xs arbitrary: db m)
  case (Cons x xs)
  then obtain db1 where db1: "f x db = Inr db1" "utxo_rep L db1 (g x m)" by (meson list.set_intros(1))
  from Cons.IH [OF db1(2)] Cons.prems(2) obtain db' where "foldE f xs db1 = Inr db'" "utxo_rep L db' (fold g xs (g x m))" by auto
  with db1(1) show ?case by (simp add: andThen_def)
qed simp

lemma fold_rep:
  assumes "\<And>x db m. x \<in> set xs \<Longrightarrow> utxo_rep L db m \<Longrightarrow> utxo_rep L (f x db) (g x m)"
  shows "utxo_rep L db m \<Longrightarrow> utxo_rep L (fold f xs db) (fold g xs m)"
  using assms by (induction xs arbitrary: db m) auto

text \<open>What the two operations do to the map.\<close>

definition tx_input_keys :: "NetMessageTransaction \<Rightarrow> (uint256 \<times> u32) list" where
  "tx_input_keys tx = (if IsCoinBase tx then [] else map (\<lambda>txin. outpoint_key (previousOutput txin)) (vin tx))"

definition utxo_cache :: "NetMessageTransaction \<Rightarrow> uint256 \<Rightarrow> int \<Rightarrow> utxo_map \<Rightarrow> utxo_map" where
  "utxo_cache tx hashBlock height m =
     fold (\<lambda>i m. m((fst (GetHash tx), word_of_nat i) \<mapsto> OutPoint_of (fst (GetHash tx)) (word_of_nat i) hashBlock height False))
       [0..<length (vout tx)] (fold (set_used True) (tx_input_keys tx) m)"

definition utxo_uncache :: "NetMessageTransaction \<Rightarrow> utxo_map \<Rightarrow> utxo_map" where
  "utxo_uncache tx m =
     fold (\<lambda>i m. m((fst (GetHash tx), word_of_nat i) := None)) [0..<length (vout tx)] (fold (set_used False) (tx_input_keys tx) m)"

definition utxo_tx_ok :: "NetMessageTransaction \<Rightarrow> bool" where
  "utxo_tx_ok tx \<longleftrightarrow> length (fst (GetHash tx)) = 32 \<and> length (vout tx) < 2 ^ 32 - 1 \<and>
     list_all (\<lambda>txin. length (hashTransaction (previousOutput txin)) = 32) (vin tx)"

lemma unat_index: "i < 2 ^ 32 \<Longrightarrow> unat (word_of_nat i :: u32) = i"
  by (simp add: unat_of_nat)

lemma word_of_nat_index_eq: "i < 2 ^ 32 \<Longrightarrow> j < 2 ^ 32 \<Longrightarrow> (word_of_nat i :: u32) = word_of_nat j \<longleftrightarrow> i = j"
  by (metis unat_index)

lemma output_not_null:
  assumes "i < 2 ^ 32 - 1"
  shows "word_of_nat i \<noteq> NULL_INDEX"
proof
  assume "word_of_nat i = NULL_INDEX"
  then have "unat (word_of_nat i :: u32) = 2 ^ 32 - 1" by (simp add: NULL_INDEX_def unsigned_minus_1_eq_mask mask_eq_exp_minus_1)
  with assms unat_index [of i] show False by simp
qed

lemma CacheUTXO_rep:
  assumes "leveldb_reliable L" "utxo_rep L db m" "utxo_tx_ok tx" "length hashBlock = 32"
  shows "\<exists>db'. CacheUTXO L tx hashBlock height db = Inr db' \<and> utxo_rep L db' (utxo_cache tx hashBlock height m)"
proof -
  have ok: "length (fst (GetHash tx)) = 32" "length (vout tx) < 2 ^ 32 - 1" "\<forall>txin \<in> set (vin tx). length (hashTransaction (previousOutput txin)) = 32"
    using assms(3) by (auto simp: utxo_tx_ok_def list_all_iff)
  have "\<exists>db1. (if \<not> IsCoinBase tx
       then foldE (\<lambda>txin db. andThen (UTXO_Use L (previousOutput txin) db) (\<lambda>(ok, db). Inr db)) (vin tx) db else Inr db) = Inr db1
     \<and> utxo_rep L db1 (fold (set_used True) (tx_input_keys tx) m)"
  proof (cases "IsCoinBase tx")
    case False
    have "\<exists>db'. foldE (\<lambda>txin db. andThen (UTXO_Use L (previousOutput txin) db) (\<lambda>(ok, db). Inr db)) (vin tx) db = Inr db'
        \<and> utxo_rep L db' (fold (\<lambda>txin. set_used True (outpoint_key (previousOutput txin))) (vin tx) m)"
      using ok(3) UTXO_Use_rep(1) [OF assms(1)] by (intro foldE_rep [OF _ assms(2)]) (fastforce simp: andThen_def)
    with False show ?thesis by (simp add: tx_input_keys_def fold_map comp_def)
  qed (use assms(2) in \<open>simp add: tx_input_keys_def\<close>)
  then obtain db1 where db1: "(if \<not> IsCoinBase tx
       then foldE (\<lambda>txin db. andThen (UTXO_Use L (previousOutput txin) db) (\<lambda>(ok, db). Inr db)) (vin tx) db else Inr db) = Inr db1"
     "utxo_rep L db1 (fold (set_used True) (tx_input_keys tx) m)" by blast
  let ?out = "\<lambda>i. OutPoint_of (fst (GetHash tx)) (word_of_nat i) hashBlock height False"
  have "utxo_rep L (snd (UTXO_Put L db (?out i))) (m((fst (GetHash tx), word_of_nat i) \<mapsto> ?out i))"
    if "i < length (vout tx)" "utxo_rep L db m" for i db m
    using UTXO_Put_rep [OF assms(1) that(2), of "?out i"] that(1) ok output_not_null [of i] assms(4)
    by (simp add: OutPoint_of_def OutPoint_wf_def OutPoint_IsNull_def)
  then have "utxo_rep L (fold (\<lambda>i db. snd (UTXO_Put L db (?out i))) [0..<length (vout tx)] db1) (utxo_cache tx hashBlock height m)"
    unfolding utxo_cache_def by (intro fold_rep [OF _ db1(2)]) simp
  with db1(1) show ?thesis by (simp add: CacheUTXO_def andThen_def Let_def)
qed

lemma UnCacheUTXO_rep:
  assumes "leveldb_reliable L" "utxo_rep L db m" "utxo_tx_ok tx"
  shows "\<exists>db'. UnCacheUTXO L tx db = Inr db' \<and> utxo_rep L db' (utxo_uncache tx m)"
proof -
  have ok: "length (fst (GetHash tx)) = 32" "\<forall>txin \<in> set (vin tx). length (hashTransaction (previousOutput txin)) = 32"
    using assms(3) by (auto simp: utxo_tx_ok_def list_all_iff)
  have "\<exists>db1. (if \<not> IsCoinBase tx
       then foldE (\<lambda>txin db. andThen (UTXO_UnUsed L (previousOutput txin) db) (\<lambda>(ok, db). Inr db)) (vin tx) db else Inr db) = Inr db1
     \<and> utxo_rep L db1 (fold (set_used False) (tx_input_keys tx) m)"
  proof (cases "IsCoinBase tx")
    case False
    have "\<exists>db'. foldE (\<lambda>txin db. andThen (UTXO_UnUsed L (previousOutput txin) db) (\<lambda>(ok, db). Inr db)) (vin tx) db = Inr db'
        \<and> utxo_rep L db' (fold (\<lambda>txin. set_used False (outpoint_key (previousOutput txin))) (vin tx) m)"
      using ok(2) UTXO_Use_rep(2) [OF assms(1)] by (intro foldE_rep [OF _ assms(2)]) (fastforce simp: andThen_def)
    with False show ?thesis by (simp add: tx_input_keys_def fold_map comp_def)
  qed (use assms(2) in \<open>simp add: tx_input_keys_def\<close>)
  then obtain db1 where db1: "(if \<not> IsCoinBase tx
       then foldE (\<lambda>txin db. andThen (UTXO_UnUsed L (previousOutput txin) db) (\<lambda>(ok, db). Inr db)) (vin tx) db else Inr db) = Inr db1"
     "utxo_rep L db1 (fold (set_used False) (tx_input_keys tx) m)" by blast
  let ?pt = "\<lambda>i. OutPoint_SetNull\<lparr>hashTransaction := fst (GetHash tx), outPutIdx := word_of_nat i\<rparr>"
  have "utxo_rep L (snd (UTXO_Remove L db (?pt i))) (m((fst (GetHash tx), word_of_nat i) := None))" if "utxo_rep L db m" for i db m
    using UTXO_Remove_rep [OF assms(1) that, of "?pt i"] ok(1) by simp
  then have "utxo_rep L (fold (\<lambda>i db. snd (UTXO_Remove L db (?pt i))) [0..<length (vout tx)] db1) (utxo_uncache tx m)"
    unfolding utxo_uncache_def by (intro fold_rep [OF _ db1(2)]) simp
  with db1(1) show ?thesis by (simp add: UnCacheUTXO_def andThen_def Let_def)
qed

lemma fold_put_apply:
  "fold (\<lambda>i m. m((h, word_of_nat i) := f i)) is m k =
     (if fst k = h \<and> (\<exists>i \<in> set is. snd k = word_of_nat i) then fold (\<lambda>i m. m((h, word_of_nat i) := f i)) is m k else m k)"
  by (induction "is" arbitrary: m) auto

lemma fold_put_nth:
  assumes "n \<le> 2 ^ 32" "i < n"
  shows "fold (\<lambda>i m. m((h, word_of_nat i :: u32) := f i)) [0..<n] m (h, word_of_nat i) = f i"
  using assms
proof (induction n)
  case (Suc n)
  then show ?case by (cases "i = n") (auto simp: word_of_nat_index_eq)
qed simp

lemma utxo_cache_apply:
  assumes "utxo_tx_ok tx"
  shows "i < length (vout tx) \<Longrightarrow> utxo_cache tx hb ht m (fst (GetHash tx), word_of_nat i) = Some (OutPoint_of (fst (GetHash tx)) (word_of_nat i) hb ht False)"
    "\<not> (fst k = fst (GetHash tx) \<and> (\<exists>i < length (vout tx). snd k = word_of_nat i)) \<Longrightarrow>
       utxo_cache tx hb ht m k = fold (set_used True) (tx_input_keys tx) m k"
proof -
  have "length (vout tx) \<le> 2 ^ 32" using assms by (simp add: utxo_tx_ok_def)
  then show "i < length (vout tx) \<Longrightarrow> utxo_cache tx hb ht m (fst (GetHash tx), word_of_nat i) = Some (OutPoint_of (fst (GetHash tx)) (word_of_nat i) hb ht False)"
    unfolding utxo_cache_def by (rule fold_put_nth)
  show "\<not> (fst k = fst (GetHash tx) \<and> (\<exists>i < length (vout tx). snd k = word_of_nat i)) \<Longrightarrow>
       utxo_cache tx hb ht m k = fold (set_used True) (tx_input_keys tx) m k"
    unfolding utxo_cache_def by (subst fold_put_apply) auto
qed

text \<open>The outputs of a transaction that was not there before, and inputs that are available or unknown.\<close>

definition utxo_fresh :: "NetMessageTransaction \<Rightarrow> utxo_map \<Rightarrow> bool" where
  "utxo_fresh tx m \<longleftrightarrow> (\<forall>i < length (vout tx). m (fst (GetHash tx), word_of_nat i) = None) \<and>
     list_all (\<lambda>k. fst k \<noteq> fst (GetHash tx) \<and> (case m k of None \<Rightarrow> True | Some v \<Rightarrow> \<not> isUsed v)) (tx_input_keys tx)"

lemma utxo_uncache_cache:
  assumes "utxo_tx_ok tx" "utxo_fresh tx m"
  shows "utxo_uncache tx (utxo_cache tx hb ht m) = m"
proof
  fix k
  have fresh: "\<forall>i < length (vout tx). m (fst (GetHash tx), word_of_nat i) = None"
      "\<And>k. k \<in> set (tx_input_keys tx) \<Longrightarrow> fst k \<noteq> fst (GetHash tx) \<and> (\<forall>v. m k = Some v \<longrightarrow> \<not> isUsed v)"
    using assms(2) by (auto simp: utxo_fresh_def list_all_iff split: option.splits)
  show "utxo_uncache tx (utxo_cache tx hb ht m) k = m k"
  proof (cases "fst k = fst (GetHash tx) \<and> (\<exists>i < length (vout tx). snd k = word_of_nat i)")
    case True
    then obtain i where i: "i < length (vout tx)" "k = (fst (GetHash tx), word_of_nat i)" by (cases k) auto
    have "length (vout tx) \<le> 2 ^ 32" using assms(1) by (simp add: utxo_tx_ok_def)
    from fold_put_nth [OF this i(1), where f = "\<lambda>i. None"] i fresh(1) show ?thesis by (simp add: utxo_uncache_def)
  next
    case False
    then have "utxo_uncache tx (utxo_cache tx hb ht m) k = fold (set_used False) (tx_input_keys tx) (utxo_cache tx hb ht m) k"
      unfolding utxo_uncache_def by (subst fold_put_apply) auto
    also have "\<dots> = m k"
      using utxo_cache_apply(2) [OF assms(1) False] fresh(2) [of k]
      by (cases "m k") (auto simp: fold_set_used option.map_comp comp_def)
    finally show ?thesis .
  qed
qed

lemma IsUnspent_rep:
  "utxo_rep L db m \<Longrightarrow> length (hashTransaction pt) = 32 \<Longrightarrow>
     IsUnspent L db pt = Inr (case m (outpoint_key pt) of None \<Rightarrow> False | Some v \<Rightarrow> \<not> isUsed v)"
  by (simp add: IsUnspent_def UTXO_Get_rep andThen_def split: option.split)

section \<open>Objects read back\<close>

lemma read_BlockIndex:
  assumes "BlockIndex_wf idx" "BlockIndex_wf old"
  shows "read_object (Unserialize_BlockIndex old) 0 (ser_bytes (Serialize_BlockIndex idx)) = Inr (BlockIndex_merge old idx)"
  using assms by (intro read_object_decodes [OF BlockIndex_codec.decodes_un])
    (simp_all add: Serialize_BlockIndex_def Serialize_uint256_def BlockIndex_wf_def)

lemma BlockIndex_Get_stored:
  assumes "ldb_Get L db (bi_hash idx) = Some (ser_bytes (Serialize_BlockIndex idx))" "BlockIndex_wf idx" "BlockIndex_wf old"
  shows "BlockIndex_Get L db (bi_hash idx) old = Inr (Some (BlockIndex_merge old idx))"
  using assms by (simp add: BlockIndex_Get_def GetData_def read_BlockIndex andThen_def)

lemma GetBlock_stored:
  assumes "ldb_Get L db hash = Some (ser_bytes (Serialize_Block 0 b))" "Block_wf 0 b" "BlockHeader_wf old"
    "length (ser_bytes (Serialize_Block 0 b)) < 2 ^ 32"
  shows "GetBlock L db hash old = Inr (Some (Block_merge 0 old b))"
  using assms read_object_decodes [OF Block_codec.decodes_un [OF assms(3,2)] assms(4)] by (simp add: GetBlock_def GetData_def andThen_def)

section \<open>Properties\<close>

text \<open>
  C5. Undoing a transaction: after \<open>CacheUTXO\<close> and then \<open>UnCacheUTXO\<close> of a transaction whose outputs
  were not in the set and whose inputs were not spent, every lookup in the set gives what it gave before.
  Neither operation throws.
\<close>

theorem UTXO_undo:
  assumes "leveldb_reliable L" "utxo_rep L db m" "utxo_tx_ok tx" "length hashBlock = 32" "utxo_fresh tx m"
  shows "\<exists>db' db''. CacheUTXO L tx hashBlock height db = Inr db' \<and> UnCacheUTXO L tx db' = Inr db'' \<and>
    (\<forall>pt. length (hashTransaction pt) = 32 \<longrightarrow> UTXO_Get L db'' pt = UTXO_Get L db pt)"
proof -
  from CacheUTXO_rep [OF assms(1-4), of height] obtain db'
    where db': "CacheUTXO L tx hashBlock height db = Inr db'" "utxo_rep L db' (utxo_cache tx hashBlock height m)" by blast
  from UnCacheUTXO_rep [OF assms(1) db'(2) assms(3)] utxo_uncache_cache [OF assms(3,5)] obtain db''
    where "UnCacheUTXO L tx db' = Inr db''" "utxo_rep L db'' m" by auto
  with db'(1) UTXO_Get_rep [OF assms(2)] UTXO_Get_rep [of L db'' m] show ?thesis by auto
qed


section \<open>Witnesses\<close>

text \<open>A database in memory.\<close>

definition memory_db :: "(bytes \<Rightarrow> bytes option) leveldb" where
  "memory_db = \<lparr>ldb_Get = (\<lambda>db k. db k), ldb_Put = (\<lambda>db k v. (True, db(k \<mapsto> v))), ldb_Delete = (\<lambda>db k. (True, db(k := None)))\<rparr>"

definition sample_spend :: NetMessageTransaction where
  "sample_spend = NetMessageTransaction_new\<lparr>tx_hash := replicate 32 1,
     vin := [TxIn_new\<lparr>previousOutput := OutPoint_of (replicate 32 2) 0 uint256_new 0 False\<rparr>], vout := [TxOut_SetNull]\<rparr>"

lemma sample_spend_facts:
  "leveldb_reliable memory_db" "utxo_rep memory_db (\<lambda>_. None) (\<lambda>_. None)" "utxo_tx_ok sample_spend" "utxo_fresh sample_spend (\<lambda>_. None)"
  "\<not> IsCoinBase sample_spend" "vin sample_spend = [TxIn_new\<lparr>previousOutput := OutPoint_of (replicate 32 2) 0 uint256_new 0 False\<rparr>]"
proof -
  have hash: "fst (GetHash sample_spend) = replicate 32 1"
    by (simp add: GetHash_def sample_spend_def uint256_IsNull_def numeral_eq_Suc)
  show "leveldb_reliable memory_db" by (simp add: leveldb_reliable_def memory_db_def)
  show "utxo_rep memory_db (\<lambda>_. None) (\<lambda>_. None)" by (simp add: utxo_rep_def memory_db_def)
  show "\<not> IsCoinBase sample_spend"
    by (simp add: IsCoinBase_def sample_spend_def OutPoint_IsNull_def OutPoint_of_def NULL_INDEX_def)
  show "utxo_tx_ok sample_spend" by (simp add: utxo_tx_ok_def hash) (simp add: sample_spend_def OutPoint_of_def)
  show "utxo_fresh sample_spend (\<lambda>_. None)"
    by (simp add: utxo_fresh_def hash tx_input_keys_def \<open>\<not> IsCoinBase sample_spend\<close>)
      (simp add: sample_spend_def OutPoint_of_def numeral_eq_Suc)
qed (simp add: sample_spend_def)

theorem UTXO_undo_witness:
  "\<exists>db' db''. CacheUTXO memory_db sample_spend uint256_new 7 (\<lambda>_. None) = Inr db' \<and> UnCacheUTXO memory_db sample_spend db' = Inr db'' \<and>
    (\<forall>pt. length (hashTransaction pt) = 32 \<longrightarrow> UTXO_Get memory_db db'' pt = UTXO_Get memory_db (\<lambda>_. None) pt)"
  by (rule UTXO_undo [OF sample_spend_facts(1-3) length_uint256_new sample_spend_facts(4)])


end
