(* ===== verification/Pow.thy ===== *)
theory Pow
  imports Arith_Uint256 Block Verify "HOL-Library.Signed_Division"
begin

text \<open>
  Consensus parameters, proof of work, block rewards and script flags: \<^verbatim>\<open>src/params.h\<close> and the functions
  of \<^verbatim>\<open>src/blockchain.h\<close> that depend on them only. The singleton of the parameters is an argument.
\<close>

section \<open>Parameters\<close>

record ParamsBase =
  p_hashGenesisBlock :: uint256
  p_hashGenesisMerkleRoot :: uint256
  p_nSubsidyHalvingInterval :: int
  p_BIP16Exception :: uint256
  p_BIP65Height :: int
  p_BIP66Height :: int
  p_CSVHeight :: int
  p_SegwitHeight :: int
  p_powLimit :: uint256

text \<open>Hashes are written in hexadecimal from the last byte to the first.\<close>

definition RegTestParams :: ParamsBase where
  "RegTestParams = \<lparr>
     p_hashGenesisBlock = rev [0x0f, 0x91, 0x88, 0xf1, 0x3c, 0xb7, 0xb2, 0xc7, 0x1f, 0x2a, 0x33, 0x5e, 0x3a, 0x4f, 0xc3, 0x28,
       0xbf, 0x5b, 0xeb, 0x43, 0x60, 0x12, 0xaf, 0xca, 0x59, 0x0b, 0x1a, 0x11, 0x46, 0x6e, 0x22, 0x06],
     p_hashGenesisMerkleRoot = rev [0x4a, 0x5e, 0x1e, 0x4b, 0xaa, 0xb8, 0x9f, 0x3a, 0x32, 0x51, 0x8a, 0x88, 0xc3, 0x1b, 0xc8, 0x7f,
       0x61, 0x8f, 0x76, 0x67, 0x3e, 0x2c, 0xc7, 0x7a, 0xb2, 0x12, 0x7b, 0x7a, 0xfd, 0xed, 0xa3, 0x3b],
     p_nSubsidyHalvingInterval = 150, p_BIP16Exception = uint256_new, p_BIP65Height = 1351, p_BIP66Height = 1251,
     p_CSVHeight = 432, p_SegwitHeight = 0, p_powLimit = replicate 31 0xff @ [0x7f]\<rparr>"

definition s_PowTargetTimespan :: u64 where
  "s_PowTargetTimespan = 14 * 24 * 60 * 60"

definition s_PowTargetSpacing :: u64 where
  "s_PowTargetSpacing = 10 * 60"

definition s_PowAllowMinDifficultyBlocks :: bool where
  "s_PowAllowMinDifficultyBlocks = True"

definition s_PowNoRetargeting :: bool where
  "s_PowNoRetargeting = True"

definition DifficultyAdjustmentInterval :: int where
  "DifficultyAdjustmentInterval = sint (s_PowTargetTimespan div s_PowTargetSpacing)"

section \<open>Proof of work\<close>

definition CheckProofOfWork :: "ParamsBase \<Rightarrow> uint256 \<Rightarrow> u32 \<Rightarrow> bool" where
  "CheckProofOfWork params hash nBits =
     (let (bnTarget, fNegative, fOverflow) = SetCompact nBits in
      if fNegative \<or> base_uint_EqualTo bnTarget 0 \<or> fOverflow \<or> 0 < base_uint_CompareTo bnTarget (UintToArith256 (p_powLimit params)) then False
      else if 0 < base_uint_CompareTo (UintToArith256 hash) bnTarget then False
      else True)"

text \<open>
  The adjustment of the target. The time span is a signed 64-bit integer and the constants are unsigned, so both
  comparisons are unsigned. The factor is converted to 32 bits by the multiplication. The result is \<open>None\<close> when an
  assertion of \<open>GetCompact\<close> fails or the division throws.
\<close>

definition clamp_timespan :: "u64 \<Rightarrow> u64" where
  "clamp_timespan nActualTimespan =
     (let nActualTimespan = (if nActualTimespan < s_PowTargetTimespan div 4 then s_PowTargetTimespan div 4 else nActualTimespan)
      in if s_PowTargetTimespan * 4 < nActualTimespan then s_PowTargetTimespan * 4 else nActualTimespan)"

definition retarget :: "ParamsBase \<Rightarrow> u32 \<Rightarrow> u64 \<Rightarrow> u32 option" where
  "retarget params nBits nActualTimespan =
     (let bnPowLimit = UintToArith256 (p_powLimit params);
          bnNew = base_uint_mul32 (fst (SetCompact nBits)) (ucast (clamp_timespan nActualTimespan))
      in case base_uint_div bnNew (base_uint_of_u64 WIDTH256 s_PowTargetTimespan) of
           Inl e \<Rightarrow> None
         | Inr bnNew \<Rightarrow> GetCompact (if 0 < base_uint_CompareTo bnNew bnPowLimit then bnPowLimit else bnNew) False)"

definition CalculateNextWorkRequired :: "ParamsBase \<Rightarrow> 'a BlockHeader_scheme \<Rightarrow> u64 \<Rightarrow> u32 option" where
  "CalculateNextWorkRequired params lastBlock nFirstBlockTime =
     (if s_PowNoRetargeting then Some (bh_nBits lastBlock)
      else retarget params (bh_nBits lastBlock) (ucast (bh_nTime lastBlock) - nFirstBlockTime))"

section \<open>Rewards\<close>

text \<open>The height is an \<open>int\<close>, read as a signed number; a division by zero or a negative shift is \<open>None\<close>.\<close>

definition GetBlockSubsidy :: "ParamsBase \<Rightarrow> u32 \<Rightarrow> CAmount option" where
  "GetBlockSubsidy params nHeight =
     (if p_nSubsidyHalvingInterval params = 0 then None
      else let halvings = sint nHeight sdiv p_nSubsidyHalvingInterval params
      in if 64 \<le> halvings then Some 0
         else if halvings < 0 then None
         else Some (signed_drop_bit (nat halvings) (50 * COIN)))"

section \<open>Script flags\<close>

definition IsScriptWitnessEnabled :: "ParamsBase \<Rightarrow> bool" where
  "IsScriptWitnessEnabled params \<longleftrightarrow> p_SegwitHeight params \<noteq> 2147483647"

definition IsWitnessEnabled_index :: "ParamsBase \<Rightarrow> BlockIndex \<Rightarrow> bool" where
  "IsWitnessEnabled_index params index =
     (let height = (if uint256_IsNull (bi_hashPrevBlock index) then 0 else bi_height index) in p_SegwitHeight params \<le> height)"

definition IsWitnessEnabled :: "ParamsBase \<Rightarrow> int \<Rightarrow> bool" where
  "IsWitnessEnabled params height \<longleftrightarrow> p_SegwitHeight params \<le> height"

definition GetBlockScriptFlags :: "ParamsBase \<Rightarrow> BlockIndex \<Rightarrow> u32" where
  "GetBlockScriptFlags params index =
     (let flags = SCRIPT_VERIFY_NONE;
          flags = (if uint256_IsNull (p_BIP16Exception params) \<or> uint256_IsNull (bi_hash index) \<or> bi_hash index \<noteq> p_BIP16Exception params
                   then flags OR SCRIPT_VERIFY_P2SH else flags);
          flags = (if flags AND SCRIPT_VERIFY_P2SH \<noteq> 0 \<and> IsScriptWitnessEnabled params then flags OR SCRIPT_VERIFY_WITNESS else flags);
          flags = (if p_BIP66Height params \<le> bi_height index then flags OR SCRIPT_VERIFY_DERSIG else flags);
          flags = (if p_BIP65Height params \<le> bi_height index then flags OR SCRIPT_VERIFY_CHECKLOCKTIMEVERIFY else flags);
          flags = (if p_CSVHeight params \<le> bi_height index then flags OR SCRIPT_VERIFY_CHECKSEQUENCEVERIFY else flags);
          flags = (if IsWitnessEnabled_index params index then flags OR SCRIPT_VERIFY_NULLDUMMY else flags)
      in flags)"

section \<open>What the check of the proof of work decides\<close>

lemma ucast_eq_0: "ucast (w :: u32) = (0 :: u64) \<longleftrightarrow> w = 0"
proof -
  have "unat (ucast w :: u64) = unat w" by (rule unat_ucast_32_64)
  thus ?thesis by (metis unat_eq_zero unsigned_0)
qed

lemma base_uint_EqualTo_0: "length pn = 8 \<Longrightarrow> base_uint_EqualTo pn 0 \<longleftrightarrow> wval pn = 0"
  unfolding wval_eq_0_iff by (auto simp: base_uint_EqualTo_def numeral_eq_Suc length_Suc_conv ucast_eq_0)

lemma CheckProofOfWork_accepts:
  assumes "length hash = 32" "length (p_powLimit params) = 32"
  shows "CheckProofOfWork params hash nBits \<longleftrightarrow>
    0 < compact_value nBits \<and> compact_value nBits \<le> wval (p_powLimit params) \<and> \<not> bit nBits 23 \<and> wval hash \<le> compact_value nBits"
proof -
  have limit: "wval (p_powLimit params) < 2 ^ 256" using wval_less [of "p_powLimit params"] assms(2) by simp
  have "CheckProofOfWork params hash nBits \<longleftrightarrow>
      \<not> (fst (snd (SetCompact nBits)) \<or> wval (fst (SetCompact nBits)) = 0 \<or> snd (snd (SetCompact nBits)) \<or>
        wval (p_powLimit params) < wval (fst (SetCompact nBits))) \<and> wval hash \<le> wval (fst (SetCompact nBits))"
    using assms by (simp add: CheckProofOfWork_def Let_def split_beta base_uint_EqualTo_0 fst_SetCompact(2) base_uint_compare_simps
        wval_UintToArith256 not_less)
  also have "\<dots> \<longleftrightarrow> 0 < compact_value nBits \<and> compact_value nBits \<le> wval (p_powLimit params) \<and> \<not> bit nBits 23 \<and> wval hash \<le> compact_value nBits"
    unfolding fst_SetCompact SetCompact_overflow SetCompact_negative
    using limit by (cases "compact_value nBits < 2 ^ 256") auto
  finally show ?thesis .
qed

text \<open>
  C3. The proof-of-work check accepts a hash exactly if the compact target it is given stands for a positive number
  without the sign bit, at most the limit of the network, and the hash, as a number, is at most that target.
\<close>

theorem CheckProofOfWork_iff:
  assumes "length hash = 32" "length (p_powLimit params) = 32"
  shows "CheckProofOfWork params hash nBits \<longleftrightarrow>
    0 < compact_value nBits \<and> compact_value nBits \<le> wval (p_powLimit params) \<and> \<not> bit nBits 23 \<and> wval hash \<le> compact_value nBits"
  using assms by (rule CheckProofOfWork_accepts)

lemma wval_replicate_max: "wval (replicate n (0xff :: u8)) = 256 ^ n - 1"
proof (induction n)
  case (Suc n)
  have "(1 :: nat) \<le> 256 ^ n" by simp
  thus ?case using Suc by (simp add: diff_mult_distrib2)
qed simp

theorem CheckProofOfWork_iff_witness:
  "CheckProofOfWork RegTestParams uint256_new 0x207fffff \<and> \<not> CheckProofOfWork RegTestParams uint256_new 0x2100ffff"
proof -
  have c: "compact_value 0x207fffff = 0x7fffff * 256 ^ 29" "compact_value 0x2100ffff = 0xffff * 256 ^ 30"
    by (simp_all add: compact_value_def compact_mantissa_def compact_exponent_def)
  have l: "wval (p_powLimit RegTestParams) = 2 ^ 255 - 1" "length (p_powLimit RegTestParams) = 32"
    by (simp_all add: RegTestParams_def wval_append wval_replicate_max)
  have h: "wval uint256_new = 0" "length uint256_new = 32"
    by (simp_all add: uint256_new_def)
  have "CheckProofOfWork RegTestParams uint256_new 0x207fffff"
    unfolding CheckProofOfWork_iff [OF h(2) l(2)] c l h by simp
  moreover have "\<not> CheckProofOfWork RegTestParams uint256_new 0x2100ffff"
    unfolding CheckProofOfWork_iff [OF h(2) l(2)] c l h by simp
  ultimately show ?thesis ..
qed

section \<open>The supply of coins\<close>

lemma GetBlockSubsidy_nat:
  assumes "0 < p_nSubsidyHalvingInterval params" "h < 2 ^ 31"
  shows "GetBlockSubsidy params (word_of_nat h) = Some (word_of_nat (5000000000 div 2 ^ (h div nat (p_nSubsidyHalvingInterval params))))"
proof -
  let ?I = "p_nSubsidyHalvingInterval params"
  have h: "sint (word_of_nat h :: u32) = int h"
    using assms(2) by (simp add: signed_of_nat signed_take_bit_int_eq_self_iff)
  have q: "int h sdiv ?I = int (h div nat ?I)"
    using assms(1) by (simp add: signed_divide_int_def sgn_if zdiv_int)
  let ?q = "h div nat ?I"
  have small: "signed_drop_bit k (50 * COIN) = (word_of_nat (5000000000 div 2 ^ k) :: u64)" for k
  proof -
    have "sint (50 * COIN) = 5000000000" by (simp add: COIN_def)
    hence "sint (signed_drop_bit k (50 * COIN)) = int (5000000000 div 2 ^ k)"
      by (simp add: sint_signed_drop_bit_eq drop_bit_eq_div zdiv_int)
    thus ?thesis by (metis of_int_of_nat_eq of_int_sint scast_id)
  qed
  have "(5000000000 :: nat) div 2 ^ ?q = 0" if "64 \<le> ?q"
    by (rule div_less, rule less_le_trans [of _ "2 ^ 64"]) (simp, rule power_increasing [OF that], simp)
  thus ?thesis using assms(1) by (auto simp: GetBlockSubsidy_def Let_def h q small)
qed

lemma halving_sum: "(\<Sum>k<K. A div 2 ^ k) + 2 * (A div 2 ^ K) \<le> 2 * (A :: nat)"
proof (induction K)
  case (Suc K)
  have "2 * (A div 2 ^ Suc K) \<le> A div 2 ^ K"
    by (simp add: div_mult2_eq mult.commute [of 2])
  thus ?case using Suc by simp
qed simp

lemma grouped_sum: "0 < k \<Longrightarrow> (\<Sum>h<n * k. f (h div k)) = k * (\<Sum>m<n. f m :: nat)"
proof -
  assume k: "0 < k"
  have "(\<Sum>h<n * k. f (h div k)) = (\<Sum>m<n. \<Sum>h = m * k..<m * k + k. f (h div k))"
    by (rule sum.nat_group [symmetric])
  also have "\<dots> = (\<Sum>m<n. k * f m)"
  proof (rule sum.cong [OF refl])
    fix m
    have "(\<Sum>h = m * k..<m * k + k. f (h div k)) = (\<Sum>h = m * k..<m * k + k. f m)"
      by (rule sum.cong [OF refl]) (auto intro!: arg_cong [of _ _ f] div_nat_eqI simp: mult.commute)
    thus "(\<Sum>h = m * k..<m * k + k. f (h div k)) = k * f m" by simp
  qed
  finally show ?thesis by (simp add: sum_distrib_left)
qed

lemma halving_supply:
  assumes "0 < k"
  shows "(\<Sum>h<n. A div 2 ^ (h div k)) \<le> 2 * A * (k :: nat)"
proof -
  have "n \<le> (n div k + 1) * k" using mod_less_divisor [OF assms, of n] div_mult_mod_eq [of n k] unfolding add_mult_distrib mult_1 by linarith
  hence "(\<Sum>h<n. A div 2 ^ (h div k)) \<le> (\<Sum>h<(n div k + 1) * k. A div 2 ^ (h div k))"
    by (intro sum_mono2) auto
  also have "\<dots> = k * (\<Sum>m<n div k + 1. A div 2 ^ m)" by (rule grouped_sum [OF assms])
  also have "\<dots> \<le> k * (2 * A)" by (rule mult_left_mono) (use halving_sum [of A "n div k + 1"] in linarith, simp)
  finally show ?thesis by (simp add: mult.commute mult.left_commute)
qed

text \<open>
  C9. The rewards of all blocks up to any height are defined, and together they create at most 100 coins per block of
  the first halving interval.
\<close>

theorem GetBlockSubsidy_supply:
  assumes "0 < p_nSubsidyHalvingInterval params" "n \<le> 2 ^ 31"
  shows "\<exists>rewards. map (\<lambda>h. GetBlockSubsidy params (word_of_nat h)) [0..<n] = map Some rewards \<and>
    sum_list (map unat rewards) \<le> unat (100 * COIN) * nat (p_nSubsidyHalvingInterval params)"
proof (intro exI conjI)
  let ?r = "\<lambda>h. (5000000000 :: nat) div 2 ^ (h div nat (p_nSubsidyHalvingInterval params))"
  show "map (\<lambda>h. GetBlockSubsidy params (word_of_nat h)) [0..<n] = map Some (map (\<lambda>h. word_of_nat (?r h)) [0..<n])"
    using assms by (simp add: GetBlockSubsidy_nat)
  have "?r h \<le> 5000000000" for h by simp
  hence "?r h < 2 ^ 64" for h by (rule le_less_trans) simp
  hence "unat (word_of_nat (?r h) :: u64) = ?r h" for h
    by (simp add: unsigned_of_nat take_bit_nat_eq_self_iff)
  hence "sum_list (map unat (map (\<lambda>h. word_of_nat (?r h) :: u64) [0..<n])) = (\<Sum>h<n. ?r h)"
    by (simp add: comp_def interv_sum_list_conv_sum_set_nat atLeast0LessThan)
  thus "sum_list (map unat (map (\<lambda>h. word_of_nat (?r h) :: u64) [0..<n])) \<le> unat (100 * COIN) * nat (p_nSubsidyHalvingInterval params)"
    using halving_supply [of "nat (p_nSubsidyHalvingInterval params)" 5000000000 n] assms(1) by (simp add: COIN_def)
qed

theorem GetBlockSubsidy_supply_witness:
  "\<exists>rewards. map (\<lambda>h. GetBlockSubsidy RegTestParams (word_of_nat h)) [0..<1000] = map Some rewards \<and>
    sum_list (map unat rewards) \<le> unat MAX_MONEY"
proof -
  have "0 < p_nSubsidyHalvingInterval RegTestParams" "(1000 :: nat) \<le> 2 ^ 31" by (simp_all add: RegTestParams_def)
  moreover have "unat (100 * COIN) * nat (p_nSubsidyHalvingInterval RegTestParams) \<le> unat MAX_MONEY"
    by (simp add: RegTestParams_def COIN_def MAX_MONEY_def)
  ultimately show ?thesis using GetBlockSubsidy_supply by (meson le_trans)
qed

section \<open>Flags of a block\<close>

lemma GetBlockScriptFlags_consistent:
  "has_flag (GetBlockScriptFlags params index) SCRIPT_VERIFY_CLEANSTACK \<Longrightarrow> has_flag (GetBlockScriptFlags params index) SCRIPT_VERIFY_WITNESS"
  "has_flag (GetBlockScriptFlags params index) SCRIPT_VERIFY_WITNESS \<Longrightarrow> has_flag (GetBlockScriptFlags params index) SCRIPT_VERIFY_P2SH"
  by (auto simp: GetBlockScriptFlags_def has_flag_def Let_def SCRIPT_VERIFY_NONE_def SCRIPT_VERIFY_P2SH_def SCRIPT_VERIFY_WITNESS_def
      SCRIPT_VERIFY_CLEANSTACK_def SCRIPT_VERIFY_DERSIG_def SCRIPT_VERIFY_CHECKLOCKTIMEVERIFY_def SCRIPT_VERIFY_CHECKSEQUENCEVERIFY_def
      SCRIPT_VERIFY_NULLDUMMY_def split: if_splits)

section \<open>The adjustment of the target\<close>

lemma wval_retarget:
  assumes "length (p_powLimit params) = 32"
  shows "\<exists>bn. retarget params nBits span = GetCompact bn False \<and> length bn = 8 \<and>
    wval bn = min (compact_value nBits mod 2 ^ 256 * unat (clamp_timespan span) mod 2 ^ 256 div unat s_PowTargetTimespan) (wval (p_powLimit params))"
proof -
  let ?m = "base_uint_mul32 (fst (SetCompact nBits)) (ucast (clamp_timespan span))"
  let ?d = "base_uint_of_u64 WIDTH256 s_PowTargetTimespan"
  have d: "wval ?d = unat s_PowTargetTimespan" by (simp add: wval_base_uint_of_u64 WIDTH256_def)
  have "unat (clamp_timespan span) \<le> 4838400"
    by (auto simp: clamp_timespan_def Let_def s_PowTargetTimespan_def word_less_nat_alt not_less)
  hence c: "unat (ucast (clamp_timespan span) :: u32) = unat (clamp_timespan span)"
    by (simp add: unsigned_ucast_eq take_bit_nat_eq_self_iff)
  have len: "length ?m = 8"
    by (simp add: fst_SetCompact(2))
  have m: "wval ?m = compact_value nBits mod 2 ^ 256 * unat (clamp_timespan span) mod 2 ^ 256"
    by (simp add: wval_base_uint_mul32 c fst_SetCompact)
  obtain q where q: "base_uint_div ?m ?d = Inr q" "wval q = wval ?m div wval ?d" "length q = 8"
    using wval_base_uint_div [of ?m ?d] len d by (auto simp: base_uint_of_u64_def WIDTH256_def s_PowTargetTimespan_def)
  show ?thesis
    by (rule exI [of _ "if wval (p_powLimit params) < wval q then UintToArith256 (p_powLimit params) else q"])
      (use q assms in \<open>auto simp: retarget_def Let_def base_uint_compare_simps wval_UintToArith256 d m min_def\<close>)
qed

end
