(* ===== verification/Genesis.thy ===== *)
theory Genesis
  imports Sha256_Eval Pow
begin

text \<open>
  The genesis block of the regression-test network, evaluated: its coinbase transaction, Merkle root and hash.
\<close>

section \<open>Digests\<close>

lemma sha256_genesis_tx_block0:
  "fips_compress sha256_Initialize
    [1, 0, 0, 0, 1, 0, 0, 0, 0, 0, 0, 0, 0, 0, 0, 0, 0, 0, 0, 0, 0, 0, 0, 0, 0, 0, 0, 0, 0, 0, 0, 0, 0, 0, 0, 0,
     0, 255, 255, 255, 255, 77, 4, 255, 255, 0, 29, 1, 4, 69, 84, 104, 101, 32, 84, 105, 109, 101, 115, 32,
     48, 51, 47, 74] =
    [2018226822, 334774367, 2437322581, 1875380564, 1630061417, 252754601, 2389554518, 4234947727]"
  unfolding sha256_Initialize_def
  by (rule fips_compress_eval) (simp_all only: sha256_bits_eval, simp)

lemma sha256_genesis_tx_block1:
  "fips_compress [2018226822, 334774367, 2437322581, 1875380564, 1630061417, 252754601, 2389554518, 4234947727]
    [97, 110, 47, 50, 48, 48, 57, 32, 67, 104, 97, 110, 99, 101, 108, 108, 111, 114, 32, 111, 110, 32, 98, 114,
     105, 110, 107, 32, 111, 102, 32, 115, 101, 99, 111, 110, 100, 32, 98, 97, 105, 108, 111, 117, 116, 32,
     102, 111, 114, 32, 98, 97, 110, 107, 115, 255, 255, 255, 255, 1, 0, 242, 5, 42] =
    [2403337864, 1463383087, 3824317104, 2473078682, 2556461555, 34537922, 1014785590, 1367300014]"
  by (rule fips_compress_eval) (simp_all only: sha256_bits_eval, simp)

lemma sha256_genesis_tx_block2:
  "fips_compress [2403337864, 1463383087, 3824317104, 2473078682, 2556461555, 34537922, 1014785590, 1367300014]
    [1, 0, 0, 0, 67, 65, 4, 103, 138, 253, 176, 254, 85, 72, 39, 25, 103, 241, 166, 113, 48, 183, 16, 92, 214,
     168, 40, 224, 57, 9, 166, 121, 98, 224, 234, 31, 97, 222, 182, 73, 246, 188, 63, 76, 239, 56, 196, 243,
     85, 4, 229, 30, 193, 18, 222, 92, 56, 77, 247, 186, 11, 141, 87, 138] =
    [3700678794, 1674578849, 218692082, 1345109009, 663340303, 1933207522, 1755127110, 1370787630]"
  by (rule fips_compress_eval) (simp_all only: sha256_bits_eval, simp)

lemma sha256_genesis_tx_block3:
  "fips_compress [3700678794, 1674578849, 218692082, 1345109009, 663340303, 1933207522, 1755127110, 1370787630]
    [76, 112, 43, 107, 241, 29, 95, 172, 0, 0, 0, 0, 128, 0, 0, 0, 0, 0, 0, 0, 0, 0, 0, 0, 0, 0, 0, 0, 0, 0, 0, 0,
     0, 0, 0, 0, 0, 0, 0, 0, 0, 0, 0, 0, 0, 0, 0, 0, 0, 0, 0, 0, 0, 0, 0, 0, 0, 0, 0, 0, 0, 0, 6, 96] =
    [657862246, 3761424177, 3251130783, 1124483040, 3855642843, 470562130, 3137646497, 2318517951]"
  by (rule fips_compress_eval) (simp_all only: sha256_bits_eval, simp)

lemma sha256_genesis_tx:
  "sha256 [1, 0, 0, 0, 1, 0, 0, 0, 0, 0, 0, 0, 0, 0, 0, 0, 0, 0, 0, 0, 0, 0, 0, 0, 0, 0, 0, 0, 0, 0, 0, 0, 0, 0, 0, 0,
     0, 255, 255, 255, 255, 77, 4, 255, 255, 0, 29, 1, 4, 69, 84, 104, 101, 32, 84, 105, 109, 101, 115, 32,
     48, 51, 47, 74, 97, 110, 47, 50, 48, 48, 57, 32, 67, 104, 97, 110, 99, 101, 108, 108, 111, 114, 32, 111,
     110, 32, 98, 114, 105, 110, 107, 32, 111, 102, 32, 115, 101, 99, 111, 110, 100, 32, 98, 97, 105, 108,
     111, 117, 116, 32, 102, 111, 114, 32, 98, 97, 110, 107, 115, 255, 255, 255, 255, 1, 0, 242, 5, 42, 1, 0,
     0, 0, 67, 65, 4, 103, 138, 253, 176, 254, 85, 72, 39, 25, 103, 241, 166, 113, 48, 183, 16, 92, 214, 168,
     40, 224, 57, 9, 166, 121, 98, 224, 234, 31, 97, 222, 182, 73, 246, 188, 63, 76, 239, 56, 196, 243, 85,
     4, 229, 30, 193, 18, 222, 92, 56, 77, 247, 186, 11, 141, 87, 138, 76, 112, 43, 107, 241, 29, 95, 172, 0,
     0, 0, 0] =
    [39, 54, 46, 102, 224, 50, 199, 49, 193, 200, 81, 159, 67, 6, 63, 224, 229, 208, 112, 219, 28, 12, 53, 82,
     187, 4, 175, 161, 138, 49, 198, 191]"
proof -
  let ?m = "[1, 0, 0, 0, 1, 0, 0, 0, 0, 0, 0, 0, 0, 0, 0, 0, 0, 0, 0, 0, 0, 0, 0, 0, 0, 0, 0, 0, 0, 0, 0, 0, 0, 0, 0, 0,
     0, 255, 255, 255, 255, 77, 4, 255, 255, 0, 29, 1, 4, 69, 84, 104, 101, 32, 84, 105, 109, 101, 115, 32,
     48, 51, 47, 74, 97, 110, 47, 50, 48, 48, 57, 32, 67, 104, 97, 110, 99, 101, 108, 108, 111, 114, 32, 111,
     110, 32, 98, 114, 105, 110, 107, 32, 111, 102, 32, 115, 101, 99, 111, 110, 100, 32, 98, 97, 105, 108,
     111, 117, 116, 32, 102, 111, 114, 32, 98, 97, 110, 107, 115, 255, 255, 255, 255, 1, 0, 242, 5, 42, 1, 0,
     0, 0, 67, 65, 4, 103, 138, 253, 176, 254, 85, 72, 39, 25, 103, 241, 166, 113, 48, 183, 16, 92, 214, 168,
     40, 224, 57, 9, 166, 121, 98, 224, 234, 31, 97, 222, 182, 73, 246, 188, 63, 76, 239, 56, 196, 243, 85,
     4, 229, 30, 193, 18, 222, 92, 56, 77, 247, 186, 11, 141, 87, 138, 76, 112, 43, 107, 241, 29, 95, 172, 0,
     0, 0, 0]"
  let ?cs = "[[1, 0, 0, 0, 1, 0, 0, 0, 0, 0, 0, 0, 0, 0, 0, 0, 0, 0, 0, 0, 0, 0, 0, 0, 0, 0, 0, 0, 0, 0, 0, 0, 0, 0, 0, 0,
     0, 255, 255, 255, 255, 77, 4, 255, 255, 0, 29, 1, 4, 69, 84, 104, 101, 32, 84, 105, 109, 101, 115, 32,
     48, 51, 47, 74],
    [97, 110, 47, 50, 48, 48, 57, 32, 67, 104, 97, 110, 99, 101, 108, 108, 111, 114, 32, 111, 110, 32, 98, 114,
     105, 110, 107, 32, 111, 102, 32, 115, 101, 99, 111, 110, 100, 32, 98, 97, 105, 108, 111, 117, 116, 32,
     102, 111, 114, 32, 98, 97, 110, 107, 115, 255, 255, 255, 255, 1, 0, 242, 5, 42],
    [1, 0, 0, 0, 67, 65, 4, 103, 138, 253, 176, 254, 85, 72, 39, 25, 103, 241, 166, 113, 48, 183, 16, 92, 214,
     168, 40, 224, 57, 9, 166, 121, 98, 224, 234, 31, 97, 222, 182, 73, 246, 188, 63, 76, 239, 56, 196, 243,
     85, 4, 229, 30, 193, 18, 222, 92, 56, 77, 247, 186, 11, 141, 87, 138],
    [76, 112, 43, 107, 241, 29, 95, 172, 0, 0, 0, 0, 128, 0, 0, 0, 0, 0, 0, 0, 0, 0, 0, 0, 0, 0, 0, 0, 0, 0, 0, 0,
     0, 0, 0, 0, 0, 0, 0, 0, 0, 0, 0, 0, 0, 0, 0, 0, 0, 0, 0, 0, 0, 0, 0, 0, 0, 0, 0, 0, 0, 0, 6, 96]]"
  have len: "length ?m = 204" by simp
  have zeros: "sha256_zeros 204 = 43" by (simp add: sha256_zeros_def)
  have fill: "replicate 43 (0 :: u8) = [0, 0, 0, 0, 0, 0, 0, 0, 0, 0, 0, 0, 0, 0, 0, 0, 0, 0, 0, 0, 0, 0, 0, 0, 0, 0, 0, 0, 0, 0, 0, 0, 0, 0, 0, 0,
     0, 0, 0, 0, 0, 0, 0]" by (simp add: numeral_eq_Suc)
  have size: "WriteBE64 (word_of_nat (8 * 204)) = [0, 0, 0, 0, 0, 0, 6, 96]" by (simp add: WriteBE64_def wdigits_numeral)
  have "sha256_pad ?m = concat ?cs"
    unfolding sha256_pad_def len zeros fill size by simp
  moreover have "list_all (\<lambda>c. length c = 64) ?cs" by simp
  ultimately have "sha256 ?m = concat (map WriteBE32 (fold (\<lambda>c s. fips_compress s c) ?cs sha256_Initialize))"
    by (rule sha256_chunks)
  also have "fold (\<lambda>c s. fips_compress s c) ?cs sha256_Initialize = [657862246, 3761424177, 3251130783, 1124483040, 3855642843, 470562130, 3137646497, 2318517951]"
    by (simp only: fold_simps id_apply o_apply sha256_genesis_tx_block0 sha256_genesis_tx_block1 sha256_genesis_tx_block2 sha256_genesis_tx_block3)
  finally show ?thesis by (simp add: WriteBE32_def wdigits_numeral)
qed

lemma sha256_genesis_tx2_block0:
  "fips_compress sha256_Initialize
    [39, 54, 46, 102, 224, 50, 199, 49, 193, 200, 81, 159, 67, 6, 63, 224, 229, 208, 112, 219, 28, 12, 53, 82,
     187, 4, 175, 161, 138, 49, 198, 191, 128, 0, 0, 0, 0, 0, 0, 0, 0, 0, 0, 0, 0, 0, 0, 0, 0, 0, 0, 0, 0, 0,
     0, 0, 0, 0, 0, 0, 0, 0, 1, 0] =
    [1000599037, 2054886066, 2059873342, 1735823201, 2143820739, 2290766130, 983546026, 1260281418]"
  unfolding sha256_Initialize_def
  by (rule fips_compress_eval) (simp_all only: sha256_bits_eval, simp)

lemma sha256_genesis_tx2:
  "sha256 [39, 54, 46, 102, 224, 50, 199, 49, 193, 200, 81, 159, 67, 6, 63, 224, 229, 208, 112, 219, 28, 12, 53, 82,
     187, 4, 175, 161, 138, 49, 198, 191] =
    [59, 163, 237, 253, 122, 123, 18, 178, 122, 199, 44, 62, 103, 118, 143, 97, 127, 200, 27, 195, 136, 138, 81,
     50, 58, 159, 184, 170, 75, 30, 94, 74]"
proof -
  let ?m = "[39, 54, 46, 102, 224, 50, 199, 49, 193, 200, 81, 159, 67, 6, 63, 224, 229, 208, 112, 219, 28, 12, 53, 82,
     187, 4, 175, 161, 138, 49, 198, 191]"
  let ?cs = "[[39, 54, 46, 102, 224, 50, 199, 49, 193, 200, 81, 159, 67, 6, 63, 224, 229, 208, 112, 219, 28, 12, 53, 82,
     187, 4, 175, 161, 138, 49, 198, 191, 128, 0, 0, 0, 0, 0, 0, 0, 0, 0, 0, 0, 0, 0, 0, 0, 0, 0, 0, 0, 0, 0,
     0, 0, 0, 0, 0, 0, 0, 0, 1, 0]]"
  have len: "length ?m = 32" by simp
  have zeros: "sha256_zeros 32 = 23" by (simp add: sha256_zeros_def)
  have fill: "replicate 23 (0 :: u8) = [0, 0, 0, 0, 0, 0, 0, 0, 0, 0, 0, 0, 0, 0, 0, 0, 0, 0, 0, 0, 0, 0, 0]" by (simp add: numeral_eq_Suc)
  have size: "WriteBE64 (word_of_nat (8 * 32)) = [0, 0, 0, 0, 0, 0, 1, 0]" by (simp add: WriteBE64_def wdigits_numeral)
  have "sha256_pad ?m = concat ?cs"
    unfolding sha256_pad_def len zeros fill size by simp
  moreover have "list_all (\<lambda>c. length c = 64) ?cs" by simp
  ultimately have "sha256 ?m = concat (map WriteBE32 (fold (\<lambda>c s. fips_compress s c) ?cs sha256_Initialize))"
    by (rule sha256_chunks)
  also have "fold (\<lambda>c s. fips_compress s c) ?cs sha256_Initialize = [1000599037, 2054886066, 2059873342, 1735823201, 2143820739, 2290766130, 983546026, 1260281418]"
    by (simp only: fold_simps id_apply o_apply sha256_genesis_tx2_block0)
  finally show ?thesis by (simp add: WriteBE32_def wdigits_numeral)
qed

lemma sha256_genesis_header_block0:
  "fips_compress sha256_Initialize
    [1, 0, 0, 0, 0, 0, 0, 0, 0, 0, 0, 0, 0, 0, 0, 0, 0, 0, 0, 0, 0, 0, 0, 0, 0, 0, 0, 0, 0, 0, 0, 0, 0, 0, 0, 0,
     59, 163, 237, 253, 122, 123, 18, 178, 122, 199, 44, 62, 103, 118, 143, 97, 127, 200, 27, 195, 136, 138,
     81, 50, 58, 159, 184, 170] =
    [3163593267, 1666760688, 2429332605, 509201064, 3284719849, 1325466568, 2528216886, 1192884507]"
  unfolding sha256_Initialize_def
  by (rule fips_compress_eval) (simp_all only: sha256_bits_eval, simp)

lemma sha256_genesis_header_block1:
  "fips_compress [3163593267, 1666760688, 2429332605, 509201064, 3284719849, 1325466568, 2528216886, 1192884507]
    [75, 30, 94, 74, 218, 229, 73, 77, 255, 255, 127, 32, 2, 0, 0, 0, 128, 0, 0, 0, 0, 0, 0, 0, 0, 0, 0, 0, 0, 0,
     0, 0, 0, 0, 0, 0, 0, 0, 0, 0, 0, 0, 0, 0, 0, 0, 0, 0, 0, 0, 0, 0, 0, 0, 0, 0, 0, 0, 0, 0, 0, 0, 2, 128] =
    [1836119701, 1874264921, 3984803526, 1593069758, 1167895975, 1413866550, 896902478, 1204437373]"
  by (rule fips_compress_eval) (simp_all only: sha256_bits_eval, simp)

lemma sha256_genesis_header:
  "sha256 [1, 0, 0, 0, 0, 0, 0, 0, 0, 0, 0, 0, 0, 0, 0, 0, 0, 0, 0, 0, 0, 0, 0, 0, 0, 0, 0, 0, 0, 0, 0, 0, 0, 0, 0, 0,
     59, 163, 237, 253, 122, 123, 18, 178, 122, 199, 44, 62, 103, 118, 143, 97, 127, 200, 27, 195, 136, 138,
     81, 50, 58, 159, 184, 170, 75, 30, 94, 74, 218, 229, 73, 77, 255, 255, 127, 32, 2, 0, 0, 0] =
    [109, 112, 246, 149, 111, 183, 3, 89, 237, 131, 70, 198, 94, 244, 80, 190, 69, 156, 173, 167, 84, 69, 228, 54,
     53, 117, 165, 78, 71, 202, 65, 125]"
proof -
  let ?m = "[1, 0, 0, 0, 0, 0, 0, 0, 0, 0, 0, 0, 0, 0, 0, 0, 0, 0, 0, 0, 0, 0, 0, 0, 0, 0, 0, 0, 0, 0, 0, 0, 0, 0, 0, 0,
     59, 163, 237, 253, 122, 123, 18, 178, 122, 199, 44, 62, 103, 118, 143, 97, 127, 200, 27, 195, 136, 138,
     81, 50, 58, 159, 184, 170, 75, 30, 94, 74, 218, 229, 73, 77, 255, 255, 127, 32, 2, 0, 0, 0]"
  let ?cs = "[[1, 0, 0, 0, 0, 0, 0, 0, 0, 0, 0, 0, 0, 0, 0, 0, 0, 0, 0, 0, 0, 0, 0, 0, 0, 0, 0, 0, 0, 0, 0, 0, 0, 0, 0, 0,
     59, 163, 237, 253, 122, 123, 18, 178, 122, 199, 44, 62, 103, 118, 143, 97, 127, 200, 27, 195, 136, 138,
     81, 50, 58, 159, 184, 170],
    [75, 30, 94, 74, 218, 229, 73, 77, 255, 255, 127, 32, 2, 0, 0, 0, 128, 0, 0, 0, 0, 0, 0, 0, 0, 0, 0, 0, 0, 0,
     0, 0, 0, 0, 0, 0, 0, 0, 0, 0, 0, 0, 0, 0, 0, 0, 0, 0, 0, 0, 0, 0, 0, 0, 0, 0, 0, 0, 0, 0, 0, 0, 2, 128]]"
  have len: "length ?m = 80" by simp
  have zeros: "sha256_zeros 80 = 39" by (simp add: sha256_zeros_def)
  have fill: "replicate 39 (0 :: u8) = [0, 0, 0, 0, 0, 0, 0, 0, 0, 0, 0, 0, 0, 0, 0, 0, 0, 0, 0, 0, 0, 0, 0, 0, 0, 0, 0, 0, 0, 0, 0, 0, 0, 0, 0, 0,
     0, 0, 0]" by (simp add: numeral_eq_Suc)
  have size: "WriteBE64 (word_of_nat (8 * 80)) = [0, 0, 0, 0, 0, 0, 2, 128]" by (simp add: WriteBE64_def wdigits_numeral)
  have "sha256_pad ?m = concat ?cs"
    unfolding sha256_pad_def len zeros fill size by simp
  moreover have "list_all (\<lambda>c. length c = 64) ?cs" by simp
  ultimately have "sha256 ?m = concat (map WriteBE32 (fold (\<lambda>c s. fips_compress s c) ?cs sha256_Initialize))"
    by (rule sha256_chunks)
  also have "fold (\<lambda>c s. fips_compress s c) ?cs sha256_Initialize = [1836119701, 1874264921, 3984803526, 1593069758, 1167895975, 1413866550, 896902478, 1204437373]"
    by (simp only: fold_simps id_apply o_apply sha256_genesis_header_block0 sha256_genesis_header_block1)
  finally show ?thesis by (simp add: WriteBE32_def wdigits_numeral)
qed

lemma sha256_genesis_header2_block0:
  "fips_compress sha256_Initialize
    [109, 112, 246, 149, 111, 183, 3, 89, 237, 131, 70, 198, 94, 244, 80, 190, 69, 156, 173, 167, 84, 69, 228, 54,
     53, 117, 165, 78, 71, 202, 65, 125, 128, 0, 0, 0, 0, 0, 0, 0, 0, 0, 0, 0, 0, 0, 0, 0, 0, 0, 0, 0, 0, 0,
     0, 0, 0, 0, 0, 0, 0, 0, 1, 0] =
    [102919750, 286919513, 3400471136, 1139497919, 683888442, 1580411423, 3350378300, 4052259087]"
  unfolding sha256_Initialize_def
  by (rule fips_compress_eval) (simp_all only: sha256_bits_eval, simp)

lemma sha256_genesis_header2:
  "sha256 [109, 112, 246, 149, 111, 183, 3, 89, 237, 131, 70, 198, 94, 244, 80, 190, 69, 156, 173, 167, 84, 69, 228, 54,
     53, 117, 165, 78, 71, 202, 65, 125] =
    [6, 34, 110, 70, 17, 26, 11, 89, 202, 175, 18, 96, 67, 235, 91, 191, 40, 195, 79, 58, 94, 51, 42, 31, 199,
     178, 183, 60, 241, 136, 145, 15]"
proof -
  let ?m = "[109, 112, 246, 149, 111, 183, 3, 89, 237, 131, 70, 198, 94, 244, 80, 190, 69, 156, 173, 167, 84, 69, 228, 54,
     53, 117, 165, 78, 71, 202, 65, 125]"
  let ?cs = "[[109, 112, 246, 149, 111, 183, 3, 89, 237, 131, 70, 198, 94, 244, 80, 190, 69, 156, 173, 167, 84, 69, 228, 54,
     53, 117, 165, 78, 71, 202, 65, 125, 128, 0, 0, 0, 0, 0, 0, 0, 0, 0, 0, 0, 0, 0, 0, 0, 0, 0, 0, 0, 0, 0,
     0, 0, 0, 0, 0, 0, 0, 0, 1, 0]]"
  have len: "length ?m = 32" by simp
  have zeros: "sha256_zeros 32 = 23" by (simp add: sha256_zeros_def)
  have fill: "replicate 23 (0 :: u8) = [0, 0, 0, 0, 0, 0, 0, 0, 0, 0, 0, 0, 0, 0, 0, 0, 0, 0, 0, 0, 0, 0, 0]" by (simp add: numeral_eq_Suc)
  have size: "WriteBE64 (word_of_nat (8 * 32)) = [0, 0, 0, 0, 0, 0, 1, 0]" by (simp add: WriteBE64_def wdigits_numeral)
  have "sha256_pad ?m = concat ?cs"
    unfolding sha256_pad_def len zeros fill size by simp
  moreover have "list_all (\<lambda>c. length c = 64) ?cs" by simp
  ultimately have "sha256 ?m = concat (map WriteBE32 (fold (\<lambda>c s. fips_compress s c) ?cs sha256_Initialize))"
    by (rule sha256_chunks)
  also have "fold (\<lambda>c s. fips_compress s c) ?cs sha256_Initialize = [102919750, 286919513, 3400471136, 1139497919, 683888442, 1580411423, 3350378300, 4052259087]"
    by (simp only: fold_simps id_apply o_apply sha256_genesis_header2_block0)
  finally show ?thesis by (simp add: WriteBE32_def wdigits_numeral)
qed

section \<open>The block\<close>

definition genesis_tx :: NetMessageTransaction where
  "genesis_tx = hd (vtx GetGenesisBlock)"

lemma genesis_scriptSig:
  "push_int64 486604799 @ CScript_push (CScriptNum_serialize 4) @ CScript_push genesis_timestamp =
    [4, 255, 255, 0, 29, 1, 4, 69, 84, 104, 101, 32, 84, 105, 109, 101, 115, 32, 48, 51, 47, 74, 97, 110, 47, 50,
     48, 48, 57, 32, 67, 104, 97, 110, 99, 101, 108, 108, 111, 114, 32, 111, 110, 32, 98, 114, 105, 110, 107,
     32, 111, 102, 32, 115, 101, 99, 111, 110, 100, 32, 98, 97, 105, 108, 111, 117, 116, 32, 102, 111, 114,
     32, 98, 97, 110, 107, 115]"
proof -
  have n: "CScriptNum_serialize 486604799 = [255, 255, 0, 29]" "CScriptNum_serialize 4 = [4]"
    by (simp_all add: CScriptNum_serialize_def Let_def CScriptNum_serialize_loop.simps)
  have t: "genesis_timestamp = [84, 104, 101, 32, 84, 105, 109, 101, 115, 32, 48, 51, 47, 74, 97, 110, 47, 50, 48, 48, 57, 32, 67, 104, 97,
     110, 99, 101, 108, 108, 111, 114, 32, 111, 110, 32, 98, 114, 105, 110, 107, 32, 111, 102, 32, 115, 101,
     99, 111, 110, 100, 32, 98, 97, 105, 108, 111, 117, 116, 32, 102, 111, 114, 32, 98, 97, 110, 107, 115]"
    by (simp add: genesis_timestamp_def)
  show ?thesis unfolding t push_int64_def n CScript_push_def by (simp add: n)
qed

lemma genesis_output: "CScript_push genesis_key @ [OP_CHECKSIG] = [65, 4, 103, 138, 253, 176, 254, 85, 72, 39, 25, 103, 241, 166, 113, 48, 183, 16, 92, 214, 168, 40, 224, 57,
     9, 166, 121, 98, 224, 234, 31, 97, 222, 182, 73, 246, 188, 63, 76, 239, 56, 196, 243, 85, 4, 229, 30,
     193, 18, 222, 92, 56, 77, 247, 186, 11, 141, 87, 138, 76, 112, 43, 107, 241, 29, 95, 172]"
  by (simp add: CScript_push_def genesis_key_def)

lemma genesis_tx_eq: "genesis_tx = NetMessageTransaction_new\<lparr>tx_nVersion := 1,
    vin := [TxIn_new\<lparr>scriptSig := [4, 255, 255, 0, 29, 1, 4, 69, 84, 104, 101, 32, 84, 105, 109, 101, 115, 32, 48, 51, 47, 74, 97, 110, 47, 50,
     48, 48, 57, 32, 67, 104, 97, 110, 99, 101, 108, 108, 111, 114, 32, 111, 110, 32, 98, 114, 105, 110, 107,
     32, 111, 102, 32, 115, 101, 99, 111, 110, 100, 32, 98, 97, 105, 108, 111, 117, 116, 32, 102, 111, 114,
     32, 98, 97, 110, 107, 115]\<rparr>],
    vout := [TxOut_SetNull\<lparr>nValue := 5000000000, scriptPubKey := [65, 4, 103, 138, 253, 176, 254, 85, 72, 39, 25, 103, 241, 166, 113, 48, 183, 16, 92, 214, 168, 40, 224, 57,
     9, 166, 121, 98, 224, 234, 31, 97, 222, 182, 73, 246, 188, 63, 76, 239, 56, 196, 243, 85, 4, 229, 30,
     193, 18, 222, 92, 56, 77, 247, 186, 11, 141, 87, 138, 76, 112, 43, 107, 241, 29, 95, 172]\<rparr>]\<rparr>"
  by (simp add: genesis_tx_def GetGenesisBlock_def CreateGenesisBlock_def CreateGenesisBlock_with_def Let_def genesis_scriptSig
      genesis_output COIN_def Block_SetNull_def BlockHeader.defs BlockHeader_SetNull_def)

lemma genesis_tx_bytes: "ser_bytes (Serialize_tx SERIALIZE_TRANSACTION_NO_WITNESS genesis_tx) = [1, 0, 0, 0, 1, 0, 0, 0, 0, 0, 0, 0, 0, 0, 0, 0, 0, 0, 0, 0, 0, 0, 0, 0, 0, 0, 0, 0, 0, 0, 0, 0, 0, 0, 0, 0,
     0, 255, 255, 255, 255, 77, 4, 255, 255, 0, 29, 1, 4, 69, 84, 104, 101, 32, 84, 105, 109, 101, 115, 32,
     48, 51, 47, 74, 97, 110, 47, 50, 48, 48, 57, 32, 67, 104, 97, 110, 99, 101, 108, 108, 111, 114, 32, 111,
     110, 32, 98, 114, 105, 110, 107, 32, 111, 102, 32, 115, 101, 99, 111, 110, 100, 32, 98, 97, 105, 108,
     111, 117, 116, 32, 102, 111, 114, 32, 98, 97, 110, 107, 115, 255, 255, 255, 255, 1, 0, 242, 5, 42, 1, 0,
     0, 0, 67, 65, 4, 103, 138, 253, 176, 254, 85, 72, 39, 25, 103, 241, 166, 113, 48, 183, 16, 92, 214, 168,
     40, 224, 57, 9, 166, 121, 98, 224, 234, 31, 97, 222, 182, 73, 246, 188, 63, 76, 239, 56, 196, 243, 85,
     4, 229, 30, 193, 18, 222, 92, 56, 77, 247, 186, 11, 141, 87, 138, 76, 112, 43, 107, 241, 29, 95, 172, 0,
     0, 0, 0]"
proof -
  have ones: "WriteLE32 (- 1) = [255, 255, 255, 255]" by (simp add: WriteLE32_def wdigits_numeral unsigned_minus_1_eq_mask mask_eq_exp_minus_1)
  have fill: "replicate 32 (0 :: u8) = [0, 0, 0, 0, 0, 0, 0, 0, 0, 0, 0, 0, 0, 0, 0, 0, 0, 0, 0, 0, 0, 0, 0, 0, 0, 0, 0, 0, 0, 0, 0, 0]" by (simp add: numeral_eq_Suc)
  show ?thesis unfolding genesis_tx_eq Serialize_tx_no_witness
    by (simp add: Serialize_vector_def Serialize_TxIn_def Serialize_TxOut_def Serialize_OutPoint_def
        Serialize_prevector_def Serialize_uint256_def TxIn_new_def OutPoint_SetNull_def NetMessageTransaction_new_def TxOut_SetNull_def
        ser_writedata32_def ser_writedata64_def WriteCompactSize_def uint256_new_def ones fill WriteLE32_def WriteLE64_def wdigits_numeral
        SERIALIZE_TRANSACTION_NO_WITNESS_def SERIALIZE_BLOCK_HASH_def SERIALIZE_TXOUT_ISSPENT_def SEQUENCE_FINAL_def NULL_INDEX_def)
qed

lemma genesis_merkle_root: "bh_hashMerkleRoot GetGenesisBlock = [59, 163, 237, 253, 122, 123, 18, 178, 122, 199, 44, 62, 103, 118, 143, 97, 127, 200, 27, 195, 136, 138, 81,
     50, 58, 159, 184, 170, 75, 30, 94, 74]"
proof -
  have "fst (GetHash genesis_tx) = sha256d (ser_bytes (Serialize_tx SERIALIZE_TRANSACTION_NO_WITNESS genesis_tx))"
    by (rule GetHash_cache_ok) (simp add: genesis_tx_eq tx_cache_ok_def NetMessageTransaction_new_def uint256_IsNull_def uint256_new_def list_all_iff)
  hence h: "fst (GetHash genesis_tx) = [59, 163, 237, 253, 122, 123, 18, 178, 122, 199, 44, 62, 103, 118, 143, 97, 127, 200, 27, 195, 136, 138, 81,
     50, 58, 159, 184, 170, 75, 30, 94, 74]"
    unfolding genesis_tx_bytes sha256d_def sha256_genesis_tx sha256_genesis_tx2 .
  have "vtx GetGenesisBlock = [genesis_tx]"
    by (simp add: genesis_tx_def GetGenesisBlock_def CreateGenesisBlock_def CreateGenesisBlock_with_def Let_def)
  moreover have "bh_hashMerkleRoot GetGenesisBlock = mr_hash (ComputeMerkleRoot (map (\<lambda>tx. fst (GetHash tx)) (vtx GetGenesisBlock)))"
    by (simp add: GetGenesisBlock_def CreateGenesisBlock_def CreateGenesisBlock_with_def Let_def MakeMerkleRoot_def)
  ultimately show ?thesis by (simp add: h ComputeMerkleRoot_tree merkle_root.simps)
qed

lemma genesis_header_bytes: "header_bytes GetGenesisBlock = [1, 0, 0, 0, 0, 0, 0, 0, 0, 0, 0, 0, 0, 0, 0, 0, 0, 0, 0, 0, 0, 0, 0, 0, 0, 0, 0, 0, 0, 0, 0, 0, 0, 0, 0, 0,
     59, 163, 237, 253, 122, 123, 18, 178, 122, 199, 44, 62, 103, 118, 143, 97, 127, 200, 27, 195, 136, 138,
     81, 50, 58, 159, 184, 170, 75, 30, 94, 74, 218, 229, 73, 77, 255, 255, 127, 32, 2, 0, 0, 0]"
proof -
  have fill: "replicate 32 (0 :: u8) = [0, 0, 0, 0, 0, 0, 0, 0, 0, 0, 0, 0, 0, 0, 0, 0, 0, 0, 0, 0, 0, 0, 0, 0, 0, 0, 0, 0, 0, 0, 0, 0]" by (simp add: numeral_eq_Suc)
  have "bh_nVersion GetGenesisBlock = 1" "bh_hashPrevBlock GetGenesisBlock = uint256_new" "bh_nTime GetGenesisBlock = 1296688602"
    "bh_nBits GetGenesisBlock = 0x207fffff" "bh_nNonce GetGenesisBlock = 2"
    by (simp_all add: GetGenesisBlock_def CreateGenesisBlock_def CreateGenesisBlock_with_def Let_def)
  thus ?thesis by (simp add: header_bytes_def genesis_merkle_root uint256_new_def fill WriteLE32_def wdigits_numeral)
qed

lemma genesis_hash: "Block_GetHash GetGenesisBlock = [6, 34, 110, 70, 17, 26, 11, 89, 202, 175, 18, 96, 67, 235, 91, 191, 40, 195, 79, 58, 94, 51, 42, 31, 199,
     178, 183, 60, 241, 136, 145, 15]"
  unfolding BlockHeader_GetHash_bytes genesis_header_bytes sha256d_def sha256_genesis_header sha256_genesis_header2 ..

section \<open>Properties\<close>

text \<open>
  C8. The genesis block that the code builds has the hash and the Merkle root that the parameters of the
  regression-test network name, and it passes the check of its proof of work.
\<close>

theorem GetGenesisBlock_hash:
  "Block_GetHash GetGenesisBlock = p_hashGenesisBlock RegTestParams \<and>
   bh_hashMerkleRoot GetGenesisBlock = p_hashGenesisMerkleRoot RegTestParams \<and>
   CheckProofOfWork RegTestParams (Block_GetHash GetGenesisBlock) (bh_nBits GetGenesisBlock)"
proof -
  have l: "wval (p_powLimit RegTestParams) = 2 ^ 255 - 1" "length (p_powLimit RegTestParams) = 32"
    by (simp_all add: RegTestParams_def wval_append wval_replicate_max)
  have c: "compact_value 0x207fffff = 0x7fffff * 256 ^ 29"
    by (simp add: compact_value_def compact_mantissa_def compact_exponent_def)
  have n: "bh_nBits GetGenesisBlock = 0x207fffff"
    by (simp add: GetGenesisBlock_def CreateGenesisBlock_def CreateGenesisBlock_with_def Let_def)
  have "wval (Block_GetHash GetGenesisBlock) \<le> 0x7fffff * 256 ^ 29" unfolding genesis_hash by simp
  thus ?thesis
    by (simp add: CheckProofOfWork_accepts [OF length_Block_GetHash l(2)] n c l) (simp add: genesis_hash genesis_merkle_root RegTestParams_def)
qed

end
