(* ===== verification/Miner.thy ===== *)
theory Miner
  imports Gpu_Kernel Genesis
begin

text \<open>
  The GPU miner as a state machine: \<^verbatim>\<open>BTC_SHA256_GPU\<close> of \<^verbatim>\<open>src/btc_sha256_gpu.cpp\<close>. The mining thread
  runs \<open>SyncStart\<close>; a second thread runs, in order, the checks of results that \<open>SyncStart\<close> posts to it; any other
  thread may call \<open>Reset\<close> and \<open>Stop\<close>. Shared pointers to blocks are positions in a list of allocated blocks.
\<close>

section \<open>State\<close>

datatype run_state = RUNING | RESTERT | STOP

text \<open>Where the mining thread is: at the switch, before each callback, before a launch of the kernel, or finished.\<close>

datatype host_pc = AtSwitch | AtFound | AtGetBlock | AtLaunch | Returned | Crashed

record check_task =
  ct_result :: "uint256 list"
  ct_nonceOffset :: u32
  ct_block :: "nat option"
  ct_bnTarget :: base_uint

record gpu_state =
  g_runState :: run_state
  g_pc :: host_pc
  g_heap :: "Block list"
  g_block :: "nat option"
  g_nonceOffset :: u32
  g_bnTarget :: base_uint
  g_input :: bytes
  g_output :: bytes
  g_tasks :: "check_task list"
  g_pending :: bool
  g_found :: "Block list"

definition threadCount :: "u32 \<Rightarrow> u64 \<Rightarrow> u32" where
  "threadCount maxComputeUnits maxGourpItems = ucast (ucast maxComputeUnits * maxGourpItems)"

definition HASH_SIZE :: u32 where
  "HASH_SIZE = 32"

definition PADDED_BLOCKHEADER_SIZE :: nat where
  "PADDED_BLOCKHEADER_SIZE = 128"

text \<open>The output buffer is created for all work items of a launch, its size computed in 32 bits.\<close>

definition outputBuffer_size :: "u32 \<Rightarrow> u32" where
  "outputBuffer_size threads = threads * HASH_SIZE"

definition gpu_init :: "u32 \<Rightarrow> gpu_state" where
  "gpu_init threads = \<lparr>g_runState = RESTERT, g_pc = AtSwitch, g_heap = [], g_block = None, g_nonceOffset = 0,
     g_bnTarget = replicate WIDTH256 0, g_input = replicate PADDED_BLOCKHEADER_SIZE 0,
     g_output = replicate (unat (outputBuffer_size threads)) 0, g_tasks = [], g_pending = False, g_found = []\<rparr>"

section \<open>Operations\<close>

definition gpu_Reset :: "gpu_state \<Rightarrow> gpu_state" where
  "gpu_Reset s = s\<lparr>g_runState := RESTERT\<rparr>"

definition gpu_Stop :: "gpu_state \<Rightarrow> gpu_state" where
  "gpu_Stop s = s\<lparr>g_runState := STOP\<rparr>"

definition funcBuildTarget :: "ParamsBase \<Rightarrow> u32 \<Rightarrow> bool \<times> base_uint" where
  "funcBuildTarget params nBits =
     (let (bnTarget, fNegative, fOverflow) = SetCompact nBits
      in (\<not> (fNegative \<or> base_uint_EqualTo bnTarget 0 \<or> fOverflow \<or> 0 < base_uint_CompareTo bnTarget (UintToArith256 (p_powLimit params))),
          bnTarget))"

text \<open>The loop over the results: the first nonce whose hash is at most the target.\<close>

fun CheckResults_loop :: "uint256 list \<Rightarrow> u32 \<Rightarrow> base_uint \<Rightarrow> u32 option" where
  "CheckResults_loop [] nonce bnTarget = None"
| "CheckResults_loop (hash # rest) nonce bnTarget =
     (if base_uint_CompareTo (UintToArith256 hash) bnTarget \<le> 0 then Some nonce
      else CheckResults_loop rest (nonce + 1) bnTarget)"

text \<open>The posted check, up to the call of \<open>Reset\<close>; the nonce is stored into the shared block.\<close>

definition CheckResults :: "check_task \<Rightarrow> gpu_state \<Rightarrow> gpu_state" where
  "CheckResults t s =
     (case CheckResults_loop (ct_result t) (ct_nonceOffset t) (ct_bnTarget t) of
        None \<Rightarrow> s
      | Some nonce \<Rightarrow>
          (case ct_block t of
             None \<Rightarrow> s\<lparr>g_pc := Crashed\<rparr>
           | Some p \<Rightarrow> s\<lparr>g_heap := (g_heap s)[p := (g_heap s ! p)\<lparr>bh_nNonce := nonce\<rparr>], g_pending := True\<rparr>))"

text \<open>The two parts of the restart: reporting the block that was mined, and preparing the next one.\<close>

definition sync_found :: "gpu_state \<Rightarrow> gpu_state" where
  "sync_found s = s\<lparr>g_pc := AtGetBlock, g_found := (case g_block s of None \<Rightarrow> g_found s | Some p \<Rightarrow> g_found s @ [g_heap s ! p])\<rparr>"

definition sync_get_block :: "ParamsBase \<Rightarrow> Block \<Rightarrow> gpu_state \<Rightarrow> gpu_state" where
  "sync_get_block params b s =
     (let headerBytes = replicate PADDED_BLOCKHEADER_SIZE 0;
          header = Block_GetBlockHeader b;
          headerBytes = memcpy headerBytes 0 (ser_bytes (Serialize_BlockHeader True SER_GETHASH header));
          headerBytes = PadBlockHaderData headerBytes;
          (ok, bnTarget) = funcBuildTarget params (bh_nBits b)
      in s\<lparr>g_heap := g_heap s @ [b], g_block := Some (length (g_heap s)), g_input := headerBytes, g_nonceOffset := 0,
           g_bnTarget := bnTarget, g_pc := AtLaunch\<rparr>)"

text \<open>The hashes of an output buffer.\<close>

definition read_results :: "bytes \<Rightarrow> uint256 list" where
  "read_results out = map (\<lambda>i. take 32 (drop (i * 32) out)) [0..<length out div 32]"

text \<open>
  A launch with the work items run in the order \<open>ids\<close>, the read of the results, the posting of their check, and the
  step to the next range of nonces. The sum is compared with the largest 32-bit number at 32 bits.
\<close>

definition sync_launch :: "u32 \<Rightarrow> nat list \<Rightarrow> gpu_state \<Rightarrow> gpu_state" where
  "sync_launch threads ids s =
     (let output = run_kernel (g_input s) (g_nonceOffset s) ids (g_output s);
          task = \<lparr>ct_result = read_results output, ct_nonceOffset = g_nonceOffset s, ct_block = g_block s, ct_bnTarget = g_bnTarget s\<rparr>;
          s = s\<lparr>g_output := output, g_tasks := g_tasks s @ [task]\<rparr>;
          tmp = g_nonceOffset s + threads
      in if 0xffffffff < tmp then s\<lparr>g_pc := Returned\<rparr>
         else s\<lparr>g_nonceOffset := g_nonceOffset s + threads, g_pc := AtSwitch\<rparr>)"

section \<open>Steps\<close>

datatype gpu_label = Host | Checker | External

text \<open>
  Each step is one atomic action of a thread. The block a restart obtains from its callback is any block; the order of
  the work items of a launch is any permutation.
\<close>

inductive gpu_step :: "ParamsBase \<Rightarrow> u32 \<Rightarrow> gpu_state \<Rightarrow> gpu_label \<Rightarrow> gpu_state \<Rightarrow> bool" for params threads where
  restart: "g_pc s = AtSwitch \<Longrightarrow> g_runState s = RESTERT \<Longrightarrow> gpu_step params threads s Host (s\<lparr>g_runState := RUNING, g_pc := AtFound\<rparr>)"
| stop: "g_pc s = AtSwitch \<Longrightarrow> g_runState s = STOP \<Longrightarrow> gpu_step params threads s Host (s\<lparr>g_pc := Returned\<rparr>)"
| run: "g_pc s = AtSwitch \<Longrightarrow> g_runState s = RUNING \<Longrightarrow> gpu_step params threads s Host (s\<lparr>g_pc := AtLaunch\<rparr>)"
| found: "g_pc s = AtFound \<Longrightarrow> gpu_step params threads s Host (sync_found s)"
| get_block: "g_pc s = AtGetBlock \<Longrightarrow> BlockHeader_wf b \<Longrightarrow> gpu_step params threads s Host (sync_get_block params b s)"
| launch: "g_pc s = AtLaunch \<Longrightarrow> distinct ids \<Longrightarrow> set ids = {..<unat threads} \<Longrightarrow> gpu_step params threads s Host (sync_launch threads ids s)"
| check: "g_tasks s = t # ts \<Longrightarrow> \<not> g_pending s \<Longrightarrow> gpu_step params threads s Checker (CheckResults t (s\<lparr>g_tasks := ts\<rparr>))"
| check_reset: "g_pending s \<Longrightarrow> gpu_step params threads s Checker ((gpu_Reset s)\<lparr>g_pending := False\<rparr>)"
| reset: "gpu_step params threads s External (gpu_Reset s)"
| stop_call: "gpu_step params threads s External (gpu_Stop s)"

inductive gpu_reachable :: "ParamsBase \<Rightarrow> u32 \<Rightarrow> gpu_state \<Rightarrow> bool" for params threads where
  init: "gpu_reachable params threads (gpu_init threads)"
| step: "gpu_reachable params threads s \<Longrightarrow> gpu_step params threads s l s' \<Longrightarrow> gpu_reachable params threads s'"

inductive_cases host_stepE: "gpu_step params threads s Host s'"
inductive_cases checker_stepE: "gpu_step params threads s Checker s'"
inductive_cases external_stepE: "gpu_step params threads s External s'"

section \<open>What the kernel computes for a block\<close>

lemma header_with_nonce_bytes:
  "BlockHeader_wf b \<Longrightarrow> header_with_nonce (header_bytes b) nonce = header_bytes (b\<lparr>bh_nNonce := nonce\<rparr>)"
  by (simp add: header_with_nonce_def header_bytes_def BlockHeader_wf_def)

lemma sync_input:
  assumes "BlockHeader_wf b"
  shows "PadBlockHaderData (memcpy (replicate PADDED_BLOCKHEADER_SIZE 0) 0
    (ser_bytes (Serialize_BlockHeader True SER_GETHASH (Block_GetBlockHeader b)))) = sha256_pad (header_bytes b)"
proof -
  have "ser_bytes (Serialize_BlockHeader True SER_GETHASH (Block_GetBlockHeader b)) = header_bytes b"
    by (simp add: Serialize_BlockHeader_def Block_GetBlockHeader_def SER_GETHASH_def header_bytes_def ser_writedata32_def Serialize_uint256_def)
  moreover have "memcpy (replicate 128 0) 0 (header_bytes b) = header_bytes b @ replicate 48 0"
    using length_header_bytes [OF assms] by (simp add: memcpy_def)
  ultimately show ?thesis
    using length_header_bytes [OF assms] by (simp add: PADDED_BLOCKHEADER_SIZE_def PadBlockHaderData_pad)
qed

definition block_with_nonce :: "Block \<Rightarrow> u32 \<Rightarrow> Block" where
  "block_with_nonce b nonce = b\<lparr>bh_nNonce := nonce\<rparr>"

lemma block_with_nonce_simps [simp]:
  "block_with_nonce (block_with_nonce b m) n = block_with_nonce b n" "bh_nBits (block_with_nonce b n) = bh_nBits b"
  "BlockHeader_wf (block_with_nonce b n) = BlockHeader_wf b" "bh_nNonce (block_with_nonce b n) = n"
  "(block_with_nonce b m)\<lparr>bh_nNonce := n\<rparr> = block_with_nonce b n"
  by (simp_all add: block_with_nonce_def BlockHeader_wf_def)

text \<open>The hashes of a launch for a block.\<close>

definition launch_hashes :: "nat \<Rightarrow> Block \<Rightarrow> u32 \<Rightarrow> uint256 list" where
  "launch_hashes n b offset = map (\<lambda>i. Block_GetHash (block_with_nonce b (word_of_nat i + offset))) [0..<n]"

lemma launch_hashes_nonce [simp]: "launch_hashes n (block_with_nonce b k) offset = launch_hashes n b offset"
  by (simp add: launch_hashes_def)

lemma kernel_hashes:
  assumes "BlockHeader_wf b" "length out = 32 * n" "set ids = {..<n}"
  shows "read_results (run_kernel (sha256_pad (header_bytes b)) offset ids out) = launch_hashes n b offset"
    and "length (run_kernel (sha256_pad (header_bytes b)) offset ids out) = 32 * n"
proof -
  note slice = run_kernel_slice [OF length_header_bytes [OF assms(1)] assms(2), of ids _ offset]
  show len: "length (run_kernel (sha256_pad (header_bytes b)) offset ids out) = 32 * n"
  proof (cases n)
    case 0
    with assms show ?thesis by (simp add: run_kernel_def)
  next
    case (Suc m)
    with slice [of 0] assms(3) show ?thesis by simp
  qed
  show "read_results (run_kernel (sha256_pad (header_bytes b)) offset ids out) = launch_hashes n b offset"
    unfolding read_results_def len launch_hashes_def using slice assms
    by (auto simp: header_with_nonce_bytes BlockHeader_GetHash_bytes block_with_nonce_def)
qed

lemma unat_threads: "unat (threads :: u32) < 2 ^ 27 \<Longrightarrow> unat (outputBuffer_size threads) = 32 * unat threads"
  by (simp add: outputBuffer_size_def HASH_SIZE_def unat_word_ariths)

section \<open>The check of the results\<close>

definition nonce_wins :: "Block \<Rightarrow> u32 \<Rightarrow> bool" where
  "nonce_wins b nonce \<longleftrightarrow> wval (Block_GetHash (block_with_nonce b nonce)) \<le> wval (fst (SetCompact (bh_nBits b)))"

lemma nonce_wins_nonce [simp]: "nonce_wins (block_with_nonce b k) = nonce_wins b"
  by (simp add: nonce_wins_def fun_eq_iff)

lemma hash_at_most:
  "length h = 32 \<Longrightarrow> base_uint_CompareTo (UintToArith256 h) (fst (SetCompact c)) \<le> 0 \<longleftrightarrow> wval h \<le> wval (fst (SetCompact c))"
  by (simp add: base_uint_compare_simps fst_SetCompact(2) wval_UintToArith256)

lemma CheckResults_loop_range:
  "CheckResults_loop (map (\<lambda>i. Block_GetHash (block_with_nonce b (word_of_nat i + offset))) [j..<j + n]) (word_of_nat j + offset) (fst (SetCompact (bh_nBits b))) =
     map_option (\<lambda>i. word_of_nat i + offset) (find (\<lambda>i. nonce_wins b (word_of_nat i + offset)) [j..<j + n])"
proof (induction n arbitrary: j)
  case (Suc n)
  have "[j..<j + Suc n] = j # [Suc j..<Suc j + n]" by (simp add: upt_conv_Cons)
  with Suc [of "Suc j"] show ?case
    by (simp add: hash_at_most nonce_wins_def add.commute add.left_commute)
qed simp

lemma CheckResults_loop_find:
  "CheckResults_loop (launch_hashes n b offset) offset (fst (SetCompact (bh_nBits b))) =
     map_option (\<lambda>i. word_of_nat i + offset) (find (\<lambda>i. nonce_wins b (word_of_nat i + offset)) [0..<n])"
  using CheckResults_loop_range [of b offset 0 n] by (simp add: launch_hashes_def)

lemma CheckResults_loop_wins:
  "CheckResults_loop (launch_hashes n b offset) offset (fst (SetCompact (bh_nBits b))) = Some nonce \<Longrightarrow> nonce_wins b nonce"
  by (auto simp: CheckResults_loop_find find_Some_iff)

section \<open>The invariant\<close>

definition task_ok :: "nat \<Rightarrow> Block list \<Rightarrow> check_task \<Rightarrow> bool" where
  "task_ok n heap t \<longleftrightarrow> (\<exists>p < length heap. ct_block t = Some p \<and> ct_result t = launch_hashes n (heap ! p) (ct_nonceOffset t) \<and>
     ct_bnTarget t = fst (SetCompact (bh_nBits (heap ! p))))"

definition host_ok :: "gpu_state \<Rightarrow> bool" where
  "host_ok s \<longleftrightarrow> (case g_block s of
     None \<Rightarrow> g_pc s \<noteq> AtLaunch \<and> (g_runState s = RUNING \<longrightarrow> g_pc s = AtFound \<or> g_pc s = AtGetBlock)
   | Some p \<Rightarrow> p < length (g_heap s) \<and> (\<exists>k. g_input s = sha256_pad (header_bytes (block_with_nonce (g_heap s ! p) k))) \<and>
       g_bnTarget s = fst (SetCompact (bh_nBits (g_heap s ! p))))"

definition gpu_inv :: "u32 \<Rightarrow> gpu_state \<Rightarrow> bool" where
  "gpu_inv threads s \<longleftrightarrow> length (g_output s) = 32 * unat threads \<and> list_all (task_ok (unat threads) (g_heap s)) (g_tasks s) \<and>
     list_all BlockHeader_wf (g_heap s) \<and> g_pc s \<noteq> Crashed \<and> host_ok s"

lemma task_ok_append: "task_ok n heap t \<Longrightarrow> task_ok n (heap @ bs) t"
  by (auto simp: task_ok_def nth_append)

lemma task_ok_nonce: "task_ok n heap t \<Longrightarrow> p < length heap \<Longrightarrow> task_ok n (heap[p := block_with_nonce (heap ! p) k]) t"
  by (auto simp: task_ok_def nth_list_update)

lemma host_ok_nonce:
  "host_ok s \<Longrightarrow> p < length (g_heap s) \<Longrightarrow> host_ok (s\<lparr>g_heap := (g_heap s)[p := block_with_nonce (g_heap s ! p) k], g_pending := True\<rparr>)"
  by (auto simp: host_ok_def nth_list_update split: option.splits)

lemma CheckResults_inv:
  assumes "gpu_inv threads s" "task_ok (unat threads) (g_heap s) t"
  shows "gpu_inv threads (CheckResults t s)"
proof (cases "CheckResults_loop (ct_result t) (ct_nonceOffset t) (ct_bnTarget t)")
  case None
  with assms(1) show ?thesis by (simp add: CheckResults_def)
next
  case (Some nonce)
  from assms(2) obtain p where p: "p < length (g_heap s)" "ct_block t = Some p" by (auto simp: task_ok_def)
  have "CheckResults t s = s\<lparr>g_heap := (g_heap s)[p := block_with_nonce (g_heap s ! p) nonce], g_pending := True\<rparr>"
    using Some p(2) by (simp add: CheckResults_def block_with_nonce_def)
  moreover have "BlockHeader_wf (g_heap s ! p)" using assms(1) p(1) by (simp add: gpu_inv_def list_all_length)
  ultimately show ?thesis using assms(1) p(1) host_ok_nonce [of s p nonce]
    by (auto simp: gpu_inv_def list_all_length task_ok_nonce nth_list_update)
qed

lemma sync_launch_guard: "\<not> (0xffffffff < (tmp :: u32))"
  using unat_u32_less [of tmp] by (simp add: not_less word_le_nat_alt)

lemma sync_launch_eq:
  "sync_launch threads ids s = s\<lparr>g_output := run_kernel (g_input s) (g_nonceOffset s) ids (g_output s),
     g_tasks := g_tasks s @ [\<lparr>ct_result = read_results (run_kernel (g_input s) (g_nonceOffset s) ids (g_output s)),
       ct_nonceOffset = g_nonceOffset s, ct_block = g_block s, ct_bnTarget = g_bnTarget s\<rparr>],
     g_nonceOffset := g_nonceOffset s + threads, g_pc := AtSwitch\<rparr>"
  using sync_launch_guard by (simp add: sync_launch_def Let_def)

lemma sync_launch_inv:
  assumes "gpu_inv threads s" "g_pc s = AtLaunch" "set ids = {..<unat threads}"
  shows "gpu_inv threads (sync_launch threads ids s)"
proof -
  from assms(1,2) obtain p k where p: "g_block s = Some p" "p < length (g_heap s)"
    "g_input s = sha256_pad (header_bytes (block_with_nonce (g_heap s ! p) k))" "g_bnTarget s = fst (SetCompact (bh_nBits (g_heap s ! p)))"
    by (auto simp: gpu_inv_def host_ok_def split: option.splits)
  have wf: "BlockHeader_wf (block_with_nonce (g_heap s ! p) k)" using assms(1) p(2) by (simp add: gpu_inv_def list_all_length)
  have out: "length (g_output s) = 32 * unat threads" using assms(1) by (simp add: gpu_inv_def)
  show ?thesis
    using assms(1) p kernel_hashes [OF wf out assms(3)]
    by (auto simp: sync_launch_eq gpu_inv_def task_ok_def host_ok_def)
qed

lemma gpu_step_inv:
  assumes "gpu_step params threads s l s'" "gpu_inv threads s"
  shows "gpu_inv threads s'"
  using assms
proof (induction rule: gpu_step.induct)
  case (found s)
  thus ?case by (auto simp: sync_found_def gpu_inv_def host_ok_def split: option.splits)
next
  case (get_block s b)
  have "\<exists>k. sha256_pad (header_bytes b) = sha256_pad (header_bytes (block_with_nonce b k))"
    by (rule exI [of _ "bh_nNonce b"]) (simp add: block_with_nonce_def)
  with get_block show ?case
    using task_ok_append [of "unat threads" "g_heap s" _ "[b]"]
    by (auto simp: sync_get_block_def Let_def sync_input funcBuildTarget_def split_beta gpu_inv_def host_ok_def list_all_iff)
next
  case (launch s ids)
  thus ?case by (intro sync_launch_inv)
next
  case (check s t ts)
  hence "gpu_inv threads (s\<lparr>g_tasks := ts\<rparr>)" "task_ok (unat threads) (g_heap (s\<lparr>g_tasks := ts\<rparr>)) t"
    by (auto simp: gpu_inv_def host_ok_def split: option.splits)
  thus ?case by (rule CheckResults_inv)
qed (auto simp: gpu_inv_def host_ok_def gpu_Reset_def gpu_Stop_def split: option.splits)

lemma gpu_reachable_inv:
  assumes "gpu_reachable params threads s" "unat threads < 2 ^ 27"
  shows "gpu_inv threads s"
  using assms(1)
proof induction
  case init
  show ?case using assms(2) by (simp add: gpu_init_def gpu_inv_def host_ok_def unat_threads)
next
  case (step s l s')
  thus ?case by (blast intro: gpu_step_inv)
qed

text \<open>Only a check changes a block, and only by storing a nonce whose hash is at most the target.\<close>

lemma gpu_step_heap:
  assumes "gpu_step params threads s l s'" "gpu_inv threads s" "p < length (g_heap s)"
  shows "g_heap s' ! p = g_heap s ! p \<or> (\<exists>k. g_heap s' ! p = block_with_nonce (g_heap s ! p) k \<and> nonce_wins (g_heap s ! p) k)"
  using assms
proof (induction rule: gpu_step.induct)
  case (check s t ts)
  then obtain q where q: "ct_block t = Some q" "ct_result t = launch_hashes (unat threads) (g_heap s ! q) (ct_nonceOffset t)"
    "ct_bnTarget t = fst (SetCompact (bh_nBits (g_heap s ! q)))" by (auto simp: gpu_inv_def task_ok_def)
  show ?case
    using q check.prems(2) CheckResults_loop_wins [of "unat threads" "g_heap s ! q" "ct_nonceOffset t"]
    by (cases "p = q") (auto simp: CheckResults_def block_with_nonce_def nth_list_update split: option.splits)
qed (auto simp: sync_found_def sync_get_block_def sync_launch_eq gpu_Reset_def gpu_Stop_def nth_append Let_def split_beta)

lemma funcBuildTarget_decides:
  assumes "nonce_wins b k" "length (p_powLimit params) = 32"
  shows "CheckProofOfWork params (Block_GetHash (block_with_nonce b k)) (bh_nBits b) \<longleftrightarrow> fst (funcBuildTarget params (bh_nBits b))"
proof -
  have "\<not> 0 < base_uint_CompareTo (UintToArith256 (Block_GetHash (block_with_nonce b k))) (fst (SetCompact (bh_nBits b)))"
    using assms(1) hash_at_most [of "Block_GetHash (block_with_nonce b k)" "bh_nBits b"] by (simp add: nonce_wins_def not_less)
  thus ?thesis by (simp add: CheckProofOfWork_def funcBuildTarget_def Let_def split_beta)
qed

section \<open>Fair runs\<close>

text \<open>
  A run of a labelled system from state to state, possibly with pauses, in which each of the given labels is taken
  again and again unless it is disabled again and again.
\<close>

definition fair_run :: "('s \<Rightarrow> 'l \<Rightarrow> 's \<Rightarrow> bool) \<Rightarrow> ('l \<Rightarrow> 's \<Rightarrow> bool) \<Rightarrow> 'l set \<Rightarrow> (nat \<Rightarrow> 's) \<Rightarrow> (nat \<Rightarrow> 'l option) \<Rightarrow> bool" where
  "fair_run step enabled ls run act \<longleftrightarrow>
     (\<forall>i. case act i of None \<Rightarrow> run (Suc i) = run i | Some l \<Rightarrow> l \<in> ls \<and> step (run i) l (run (Suc i))) \<and>
     (\<forall>l \<in> ls. \<forall>i. \<exists>j \<ge> i. act j = Some l \<or> \<not> enabled l (run j))"

locale labelled_system =
  fixes step :: "'s \<Rightarrow> 'l \<Rightarrow> 's \<Rightarrow> bool" and enabled :: "'l \<Rightarrow> 's \<Rightarrow> bool" and ls :: "'l set"
  assumes enabled_iff: "l \<in> ls \<Longrightarrow> enabled l s \<longleftrightarrow> (\<exists>s'. step s l s')"
begin

text \<open>
  If no step leaves \<open>P\<close> except to \<open>Q\<close>, and the steps of one label, enabled throughout \<open>P\<close>, lead to \<open>Q\<close>, then a fair
  run in \<open>P\<close> reaches \<open>Q\<close>.
\<close>

lemma ensures:
  assumes run: "fair_run step enabled ls run act" and P: "P (run i)" and l: "l \<in> ls"
    and keep: "\<And>s l s'. P s \<Longrightarrow> l \<in> ls \<Longrightarrow> step s l s' \<Longrightarrow> P s' \<or> Q s'"
    and move: "\<And>s s'. P s \<Longrightarrow> step s l s' \<Longrightarrow> Q s'"
    and en: "\<And>s. P s \<Longrightarrow> \<exists>s'. step s l s'"
  shows "\<exists>j \<ge> i. Q (run j)"
proof (rule ccontr)
  assume no: "\<not> ?thesis"
  have stays: "P (run (i + k))" for k
  proof (induction k)
    case (Suc k)
    show ?case
    proof (cases "act (i + k)")
      case None
      hence "run (Suc (i + k)) = run (i + k)" using run by (auto simp: fair_run_def dest: spec [of _ "i + k"])
      with Suc show ?thesis by simp
    next
      case (Some l')
      hence "l' \<in> ls" "step (run (i + k)) l' (run (Suc (i + k)))" using run by (auto simp: fair_run_def dest: spec [of _ "i + k"])
      with keep [OF Suc] have "P (run (Suc (i + k))) \<or> Q (run (Suc (i + k)))" by blast
      with no show ?thesis by (metis add_Suc_right le_add1)
    qed
  qed (simp add: P)
  obtain j where j: "j \<ge> i" "act j = Some l \<or> \<not> enabled l (run j)" using run l unfolding fair_run_def by blast
  have Pj: "P (run j)" using stays [of "j - i"] j(1) by simp
  with j(2) en enabled_iff [OF l] have "act j = Some l" by blast
  hence "step (run j) l (run (Suc j))" using run by (auto simp: fair_run_def dest: spec [of _ j])
  with move [OF Pj] no j(1) show False by (metis le_SucI)
qed

end

definition gpu_enabled :: "gpu_label \<Rightarrow> gpu_state \<Rightarrow> bool" where
  "gpu_enabled l s = (case l of Host \<Rightarrow> g_pc s \<noteq> Returned \<and> g_pc s \<noteq> Crashed | Checker \<Rightarrow> g_tasks s \<noteq> [] \<or> g_pending s | External \<Rightarrow> True)"

text \<open>One step of a thread, with the given block where the thread asks for one.\<close>

definition gpu_next :: "ParamsBase \<Rightarrow> u32 \<Rightarrow> Block \<Rightarrow> gpu_label \<Rightarrow> gpu_state \<Rightarrow> gpu_state" where
  "gpu_next params threads b l s = (case l of
     Host \<Rightarrow> (case g_pc s of
         AtSwitch \<Rightarrow> (case g_runState s of RESTERT \<Rightarrow> s\<lparr>g_runState := RUNING, g_pc := AtFound\<rparr> | STOP \<Rightarrow> s\<lparr>g_pc := Returned\<rparr> | RUNING \<Rightarrow> s\<lparr>g_pc := AtLaunch\<rparr>)
       | AtFound \<Rightarrow> sync_found s
       | AtGetBlock \<Rightarrow> sync_get_block params b s
       | AtLaunch \<Rightarrow> sync_launch threads [0..<unat threads] s
       | _ \<Rightarrow> s)
   | Checker \<Rightarrow> (if g_pending s then (gpu_Reset s)\<lparr>g_pending := False\<rparr>
       else case g_tasks s of [] \<Rightarrow> s | t # ts \<Rightarrow> CheckResults t (s\<lparr>g_tasks := ts\<rparr>))
   | External \<Rightarrow> gpu_Reset s)"

lemma gpu_next_step: "BlockHeader_wf b \<Longrightarrow> gpu_enabled l s \<Longrightarrow> gpu_step params threads s l (gpu_next params threads b l s)"
  by (auto simp: gpu_enabled_def gpu_next_def intro: gpu_step.intros split: gpu_label.splits host_pc.splits run_state.splits list.splits)

lemma BlockHeader_wf_SetNull: "BlockHeader_wf Block_SetNull"
  by (simp add: BlockHeader_wf_def Block_SetNull_def BlockHeader.defs BlockHeader_SetNull_def)

lemma gpu_enabled_iff: "gpu_enabled l s \<longleftrightarrow> (\<exists>s'. gpu_step params threads s l s')"
proof
  assume "gpu_enabled l s"
  thus "\<exists>s'. gpu_step params threads s l s'" using gpu_next_step [OF BlockHeader_wf_SetNull] by blast
next
  assume "\<exists>s'. gpu_step params threads s l s'"
  thus "gpu_enabled l s" by (auto elim: gpu_step.cases simp: gpu_enabled_def)
qed

interpretation gpu: labelled_system "gpu_step params threads" gpu_enabled "{Host, Checker}"
  by unfold_locales (rule gpu_enabled_iff)

section \<open>Progress of a search\<close>

definition search_task :: "u32 \<Rightarrow> nat \<Rightarrow> Block \<Rightarrow> nat \<Rightarrow> check_task" where
  "search_task threads p b k = \<lparr>ct_result = launch_hashes (unat threads) b (word_of_nat (k * unat threads)),
     ct_nonceOffset = word_of_nat (k * unat threads), ct_block = Some p, ct_bnTarget = fst (SetCompact (bh_nBits b))\<rparr>"

text \<open>The block is searched, and the results of the first \<open>k\<close> launches have been checked without success.\<close>

definition searching :: "u32 \<Rightarrow> nat \<Rightarrow> Block \<Rightarrow> Block list \<Rightarrow> nat \<Rightarrow> gpu_state \<Rightarrow> bool" where
  "searching threads p b found k s \<longleftrightarrow> gpu_inv threads s \<and> (g_pc s = AtLaunch \<or> g_pc s = AtSwitch) \<and> g_runState s = RUNING \<and>
     \<not> g_pending s \<and> g_block s = Some p \<and> g_heap s ! p = b \<and> g_found s = found \<and>
     (\<exists>m \<ge> k. g_nonceOffset s = word_of_nat (m * unat threads) \<and> g_tasks s = map (search_task threads p b) [k..<m])"

text \<open>A winning nonce has been stored and the restart that reports the block is due.\<close>

definition reporting :: "u32 \<Rightarrow> nat \<Rightarrow> Block \<Rightarrow> Block list \<Rightarrow> gpu_state \<Rightarrow> bool" where
  "reporting threads p b found s \<longleftrightarrow> gpu_inv threads s \<and> (g_pc s = AtLaunch \<or> g_pc s = AtSwitch \<or> g_pc s = AtFound) \<and>
     (g_pending s \<or> g_runState s = RESTERT \<or> g_pc s = AtFound) \<and> g_runState s \<noteq> STOP \<and> g_block s = Some p \<and>
     (\<exists>k. g_heap s ! p = block_with_nonce b k \<and> nonce_wins b k) \<and> g_found s = found"

definition reported :: "Block \<Rightarrow> Block list \<Rightarrow> gpu_state \<Rightarrow> bool" where
  "reported b found s \<longleftrightarrow> (\<exists>k. g_found s = found @ [block_with_nonce b k] \<and> nonce_wins b k)"

lemma searching_host:
  assumes "searching threads p b found k s" "gpu_step params threads s Host s'"
  shows "searching threads p b found k s'"
    and "g_pc s = AtLaunch \<Longrightarrow> g_tasks s' \<noteq> []" "g_pc s = AtSwitch \<Longrightarrow> g_pc s' = AtLaunch"
proof -
  have inv: "gpu_inv threads s'" using gpu_step_inv [OF assms(2)] assms(1) by (simp add: searching_def)
  from assms(1) obtain m where m: "k \<le> m" "g_nonceOffset s = word_of_nat (m * unat threads)"
      "g_tasks s = map (search_task threads p b) [k..<m]" by (auto simp: searching_def)
  have post: "searching threads p b found k (sync_launch threads ids s)"
    if ids: "set ids = {..<unat threads}" and inv': "gpu_inv threads (sync_launch threads ids s)" for ids
  proof -
    from assms(1) obtain c where c: "g_input s = sha256_pad (header_bytes (block_with_nonce b c))"
      "g_bnTarget s = fst (SetCompact (bh_nBits b))" and wf: "BlockHeader_wf (block_with_nonce b c)"
      by (auto simp: searching_def gpu_inv_def host_ok_def list_all_length)
    have out: "length (g_output s) = 32 * unat threads" using assms(1) by (simp add: searching_def gpu_inv_def)
    have "g_nonceOffset (sync_launch threads ids s) = word_of_nat (Suc m * unat threads)"
      by (simp add: sync_launch_eq m(2) distrib_right)
    moreover have "g_tasks (sync_launch threads ids s) = map (search_task threads p b) [k..<Suc m]"
      using m assms(1) kernel_hashes(1) [OF wf out ids] by (simp add: sync_launch_eq c search_task_def searching_def)
    ultimately have "\<exists>m \<ge> k. g_nonceOffset (sync_launch threads ids s) = word_of_nat (m * unat threads) \<and>
        g_tasks (sync_launch threads ids s) = map (search_task threads p b) [k..<m]"
      using m(1) by (intro exI [of _ "Suc m"]) simp
    moreover have "g_pc (sync_launch threads ids s) = AtSwitch" "g_runState (sync_launch threads ids s) = RUNING"
      "\<not> g_pending (sync_launch threads ids s)" "g_block (sync_launch threads ids s) = Some p"
      "g_heap (sync_launch threads ids s) ! p = b" "g_found (sync_launch threads ids s) = found"
      using assms(1) by (simp_all add: sync_launch_eq searching_def)
    ultimately show ?thesis using inv' by (simp only: searching_def simp_thms)
  qed
  show "searching threads p b found k s'"
    using assms(2)
  proof cases
    case (launch ids)
    thus ?thesis using post inv by blast
  qed (use assms(1) inv in \<open>simp_all add: searching_def\<close>)
  have run: "g_runState s = RUNING" using assms(1) by (simp add: searching_def)
  show "g_pc s = AtLaunch \<Longrightarrow> g_tasks s' \<noteq> []"
    using assms(2) by cases (simp_all add: sync_launch_eq)
  show "g_pc s = AtSwitch \<Longrightarrow> g_pc s' = AtLaunch"
    using assms(2) run by cases simp_all
qed

lemma searching_checker:
  assumes "searching threads p b found k s" "gpu_step params threads s Checker s'"
  shows "searching threads p b found (Suc k) s' \<and> \<not> list_ex (\<lambda>i. nonce_wins b (word_of_nat (k * unat threads + i))) [0..<unat threads]
    \<or> reporting threads p b found s'"
proof -
  have inv: "gpu_inv threads s'" using gpu_step_inv [OF assms(2)] assms(1) by (simp add: searching_def)
  from assms(1) obtain m where m: "k \<le> m" "g_nonceOffset s = word_of_nat (m * unat threads)"
      "g_tasks s = map (search_task threads p b) [k..<m]" by (auto simp: searching_def)
  from assms have tasks: "g_tasks s \<noteq> []" and s': "s' = CheckResults (hd (g_tasks s)) (s\<lparr>g_tasks := tl (g_tasks s)\<rparr>)"
    by (auto elim!: checker_stepE simp: searching_def)
  from tasks m(1,3) have km: "k < m" by (cases "k = m") auto
  hence split: "[k..<m] = k # [Suc k..<m]" by (simp add: upt_conv_Cons)
  let ?w = "\<lambda>i. nonce_wins b (word_of_nat (k * unat threads + i))"
  have p: "p < length (g_heap s)" using assms(1) by (auto simp: searching_def gpu_inv_def host_ok_def)
  have loop: "CheckResults_loop (ct_result (search_task threads p b k)) (ct_nonceOffset (search_task threads p b k))
      (ct_bnTarget (search_task threads p b k)) = map_option (\<lambda>i. word_of_nat (k * unat threads + i)) (find ?w [0..<unat threads])"
    using CheckResults_loop_find [of "unat threads" b "word_of_nat (k * unat threads)"] by (simp add: search_task_def add.commute)
  show ?thesis
  proof (cases "find ?w [0..<unat threads]")
    case None
    hence "s' = s\<lparr>g_tasks := map (search_task threads p b) [Suc k..<m]\<rparr>"
      using loop by (simp add: s' m(3) split CheckResults_def)
    moreover have "\<not> list_ex ?w [0..<unat threads]" using None by (simp add: find_None_iff list_ex_iff)
    ultimately show ?thesis using assms(1) inv km m(2) by (auto simp: searching_def intro!: exI [of _ m])
  next
    case (Some i)
    hence "nonce_wins b (word_of_nat (k * unat threads + i))" by (auto simp: find_Some_iff)
    moreover have "s' = s\<lparr>g_tasks := map (search_task threads p b) [Suc k..<m],
        g_heap := (g_heap s)[p := block_with_nonce b (word_of_nat (k * unat threads + i))], g_pending := True\<rparr>"
      using loop Some assms(1) by (simp add: s' m(3) split CheckResults_def search_task_def block_with_nonce_def searching_def)
    ultimately show ?thesis using assms(1) inv p by (auto simp: searching_def reporting_def)
  qed
qed

lemma reporting_step:
  assumes "reporting threads p b found s" "l \<in> {Host, Checker}" "gpu_step params threads s l s'"
  shows "reporting threads p b found s' \<or> reported b found s'"
proof -
  have inv: "gpu_inv threads s" "gpu_inv threads s'" using gpu_step_inv [OF assms(3)] assms(1) by (simp_all add: reporting_def)
  have p: "p < length (g_heap s)" using assms(1) inv(1) by (auto simp: reporting_def gpu_inv_def host_ok_def)
  obtain k where k: "g_heap s ! p = block_with_nonce b k" "nonce_wins b k" using assms(1) by (auto simp: reporting_def)
  have heap: "\<exists>k. g_heap s' ! p = block_with_nonce b k \<and> nonce_wins b k"
    using gpu_step_heap [OF assms(3) inv(1) p] k by auto
  from assms(2) consider "l = Host" | "l = Checker" by blast
  thus ?thesis
  proof cases
    case 1
    with assms(3) have "gpu_step params threads s Host s'" by simp
    thus ?thesis
    proof cases
      case found
      thus ?thesis using k assms(1) by (auto simp: reported_def reporting_def sync_found_def)
    qed (use assms(1) inv heap in \<open>auto simp: reporting_def sync_launch_eq\<close>)
  next
    case 2
    with assms(3) have "gpu_step params threads s Checker s'" by simp
    thus ?thesis
      by (cases rule: checker_stepE)
        (use assms(1) inv heap in \<open>auto simp: reporting_def gpu_Reset_def CheckResults_def gpu_inv_def split: option.splits\<close>)
  qed
qed

lemma host_enabled:
  "g_pc s = AtLaunch \<or> g_pc s = AtSwitch \<or> g_pc s = AtFound \<Longrightarrow> \<exists>s'. gpu_step params threads s Host s'"
  by (rule gpu_enabled_iff [THEN iffD1]) (auto simp: gpu_enabled_def)

lemma checker_enabled: "g_tasks s \<noteq> [] \<or> g_pending s \<Longrightarrow> \<exists>s'. gpu_step params threads s Checker s'"
  by (rule gpu_enabled_iff [THEN iffD1]) (simp add: gpu_enabled_def)

lemma host_keeps_tasks:
  assumes "gpu_step params threads s Host s'" "g_tasks s \<noteq> []"
  shows "g_tasks s' \<noteq> []"
  using assms(1) by cases (use assms(2) in \<open>auto simp: sync_found_def sync_get_block_def sync_launch_eq Let_def split_beta\<close>)

lemma checker_idle: "searching threads p b found k s \<Longrightarrow> g_tasks s = [] \<Longrightarrow> \<not> gpu_step params threads s Checker s'"
  by (auto simp: searching_def elim!: checker_stepE)

abbreviation gpu_fair_run :: "ParamsBase \<Rightarrow> u32 \<Rightarrow> (nat \<Rightarrow> gpu_state) \<Rightarrow> (nat \<Rightarrow> gpu_label option) \<Rightarrow> bool" where
  "gpu_fair_run params threads \<equiv> fair_run (gpu_step params threads) gpu_enabled {Host, Checker}"

lemma gpu_ensures_host:
  assumes "gpu_fair_run params threads run act" "P (run i)"
    and "\<And>s s'. P s \<Longrightarrow> gpu_step params threads s Host s' \<Longrightarrow> Q s'"
    and "\<And>s s'. P s \<Longrightarrow> gpu_step params threads s Checker s' \<Longrightarrow> P s' \<or> Q s'"
    and "\<And>s. P s \<Longrightarrow> g_pc s = AtLaunch \<or> g_pc s = AtSwitch \<or> g_pc s = AtFound"
  shows "\<exists>j \<ge> i. Q (run j)"
  by (rule gpu.ensures [OF assms(1), where P = P and l = Host]) (use assms(2-5) host_enabled in blast)+

lemma gpu_ensures_checker:
  assumes "gpu_fair_run params threads run act" "P (run i)"
    and "\<And>s s'. P s \<Longrightarrow> gpu_step params threads s Checker s' \<Longrightarrow> Q s'"
    and "\<And>s s'. P s \<Longrightarrow> gpu_step params threads s Host s' \<Longrightarrow> P s' \<or> Q s'"
    and "\<And>s. P s \<Longrightarrow> g_tasks s \<noteq> [] \<or> g_pending s"
  shows "\<exists>j \<ge> i. Q (run j)"
  by (rule gpu.ensures [OF assms(1), where P = P and l = Checker]) (use assms(2-5) checker_enabled in blast)+

lemma searching_posts:
  assumes run: "gpu_fair_run params threads run act" and i: "searching threads p b found k (run i)"
  shows "\<exists>j \<ge> i. searching threads p b found k (run j) \<and> g_tasks (run j) \<noteq> []"
proof -
  let ?S = "searching threads p b found k"
  let ?Q = "\<lambda>s. ?S s \<and> g_tasks s \<noteq> []"
  let ?P = "\<lambda>pc s. ?S s \<and> g_tasks s = [] \<and> g_pc s = pc"
  have pc: "g_pc s = AtLaunch \<or> g_pc s = AtSwitch" if "?S s" for s using that by (simp add: searching_def)
  have launch: "\<exists>j \<ge> i. ?Q (run j)" if "?P AtLaunch (run i)" for i
  proof (rule gpu_ensures_host [OF run, where P = "?P AtLaunch", OF that])
    show "?Q s'" if "?P AtLaunch s" "gpu_step params threads s Host s'" for s s'
      using that searching_host(1,2) [of threads p b found k s params s'] by blast
    show "?P AtLaunch s' \<or> ?Q s'" if "?P AtLaunch s" "gpu_step params threads s Checker s'" for s s'
      using that checker_idle [of threads p b found k s params s'] by blast
  qed simp
  have switch: "\<exists>j \<ge> i. ?P AtLaunch (run j) \<or> ?Q (run j)" if "?P AtSwitch (run i)"
  proof (rule gpu_ensures_host [OF run, where P = "?P AtSwitch", OF that])
    show "?P AtLaunch s' \<or> ?Q s'" if "?P AtSwitch s" "gpu_step params threads s Host s'" for s s'
      using that searching_host(1,3) [of threads p b found k s params s'] by blast
    show "?P AtSwitch s' \<or> ?P AtLaunch s' \<or> ?Q s'" if "?P AtSwitch s" "gpu_step params threads s Checker s'" for s s'
      using that checker_idle [of threads p b found k s params s'] by blast
  qed simp
  consider "?Q (run i)" | "?P AtLaunch (run i)" | "?P AtSwitch (run i)" using i pc [OF i] by blast
  thus ?thesis
  proof cases
    case 3
    then obtain j where "i \<le> j" "?P AtLaunch (run j) \<or> ?Q (run j)" using switch by blast
    with launch [of j] show ?thesis by (meson le_trans)
  qed (use launch in blast)+
qed

lemma searching_advances:
  assumes run: "gpu_fair_run params threads run act" and i: "searching threads p b found k (run i)"
  shows "\<exists>j \<ge> i. searching threads p b found (Suc k) (run j) \<and>
      \<not> list_ex (\<lambda>i. nonce_wins b (word_of_nat (k * unat threads + i))) [0..<unat threads] \<or> reporting threads p b found (run j)"
    (is "\<exists>j \<ge> i. ?Q (run j)")
proof -
  let ?P = "\<lambda>s. searching threads p b found k s \<and> g_tasks s \<noteq> []"
  obtain i' where i': "i \<le> i'" "?P (run i')" using searching_posts [OF run i] by blast
  have "\<exists>j \<ge> i'. ?Q (run j)"
  proof (rule gpu_ensures_checker [OF run, where P = ?P, OF i'(2)])
    show "?Q s'" if "?P s" "gpu_step params threads s Checker s'" for s s'
      using that searching_checker [of threads p b found k s params s'] by blast
    show "?P s' \<or> ?Q s'" if "?P s" "gpu_step params threads s Host s'" for s s'
      using that searching_host(1) [of threads p b found k s params s'] host_keeps_tasks [of params threads s s'] by blast
  qed simp
  with i'(1) show ?thesis by (meson le_trans)
qed

lemma searching_reports:
  assumes run: "gpu_fair_run params threads run act" and threads: "0 < threads" and N: "nonce_wins b (word_of_nat N)"
  shows "searching threads p b found k (run i) \<Longrightarrow> k \<le> N div unat threads \<Longrightarrow> \<exists>j \<ge> i. reporting threads p b found (run j)"
proof (induction "N div unat threads - k" arbitrary: k i)
  case 0
  have "0 < unat threads" using threads by (simp add: word_gt_0 unat_gt_0)
  hence "N = k * unat threads + N mod unat threads" "N mod unat threads < unat threads" using 0 by auto
  hence "list_ex (\<lambda>i. nonce_wins b (word_of_nat (k * unat threads + i))) [0..<unat threads]"
    using N by (auto simp: list_ex_iff intro!: bexI [of _ "N mod unat threads"] simp del: of_nat_add of_nat_mult)
  thus ?case using searching_advances [OF run 0(2)] by blast
next
  case (Suc m)
  obtain j where j: "i \<le> j" "searching threads p b found (Suc k) (run j) \<or> reporting threads p b found (run j)"
    using searching_advances [OF run Suc.prems(1)] by blast
  have "\<exists>j' \<ge> j. reporting threads p b found (run j')" if "searching threads p b found (Suc k) (run j)"
    using Suc.hyps(1) [OF _ that] Suc.hyps(2) by simp
  with j show ?case by (meson le_trans order_refl)
qed

lemma checker_keeps_host:
  assumes "gpu_step params threads s Checker s'" "gpu_inv threads s"
  shows "g_pc s' = g_pc s" "g_runState s = RESTERT \<Longrightarrow> g_runState s' = RESTERT" "g_pending s \<Longrightarrow> g_runState s' = RESTERT"
  using assms(1) by (cases, use assms(2) in \<open>auto simp: gpu_Reset_def CheckResults_def gpu_inv_def task_ok_def split: option.splits\<close>)+

lemma reporting_reports:
  assumes run: "gpu_fair_run params threads run act" and i: "reporting threads p b found (run i)"
  shows "\<exists>j \<ge> i. reported b found (run j)"
proof -
  let ?R = "reporting threads p b found" and ?Q = "reported b found"
  let ?due = "\<lambda>pc s. ?R s \<and> g_runState s = RESTERT \<and> g_pc s = pc" and ?at = "\<lambda>s. ?R s \<and> g_pc s = AtFound"
  have inv: "gpu_inv threads s" if "?R s" for s using that by (simp add: reporting_def)
  have checker: "?R s' \<or> ?Q s'" if "?R s" "gpu_step params threads s Checker s'" for s s'
    using reporting_step [OF that(1) _ that(2)] by blast
  have host: "?R s' \<or> ?Q s'" if "?R s" "gpu_step params threads s Host s'" for s s'
    using reporting_step [OF that(1) _ that(2)] by blast
  have found: "\<exists>j \<ge> i. ?Q (run j)" if "?at (run i)" for i
  proof (rule gpu_ensures_host [OF run, where P = ?at, OF that])
    show "?Q s'" if "?at s" "gpu_step params threads s Host s'" for s s'
      using that(2) host [OF _ that(2)] that(1) by cases (auto simp: sync_found_def reporting_def)
    show "?at s' \<or> ?Q s'" if "?at s" "gpu_step params threads s Checker s'" for s s'
      using checker [OF _ that(2)] checker_keeps_host(1) [OF that(2)] inv that(1) by auto
  qed simp
  have switch: "\<exists>j \<ge> i. ?at (run j) \<or> ?Q (run j)" if "?due AtSwitch (run i)" for i
  proof (rule gpu_ensures_host [OF run, where P = "?due AtSwitch", OF that])
    show "?at s' \<or> ?Q s'" if "?due AtSwitch s" "gpu_step params threads s Host s'" for s s'
      using that(2) host [OF _ that(2)] that(1) by cases auto
    show "?due AtSwitch s' \<or> ?at s' \<or> ?Q s'" if "?due AtSwitch s" "gpu_step params threads s Checker s'" for s s'
      using checker [OF _ that(2)] checker_keeps_host [OF that(2)] inv that(1) by auto
  qed simp
  have launch: "\<exists>j \<ge> i. ?due AtSwitch (run j) \<or> ?Q (run j)" if "?due AtLaunch (run i)" for i
  proof (rule gpu_ensures_host [OF run, where P = "?due AtLaunch", OF that])
    show "?due AtSwitch s' \<or> ?Q s'" if "?due AtLaunch s" "gpu_step params threads s Host s'" for s s'
      using that(2) host [OF _ that(2)] that(1) by cases (auto simp: sync_launch_eq)
    show "?due AtLaunch s' \<or> ?due AtSwitch s' \<or> ?Q s'" if "?due AtLaunch s" "gpu_step params threads s Checker s'" for s s'
      using checker [OF _ that(2)] checker_keeps_host [OF that(2)] inv that(1) by auto
  qed simp
  let ?any = "\<lambda>s. ?due AtLaunch s \<or> ?due AtSwitch s \<or> ?at s \<or> ?Q s"
  have found': "\<exists>j \<ge> i. ?Q (run j)" if "?at (run i) \<or> ?Q (run i)" for i
    using that found [of i] by blast
  have switch': "\<exists>j \<ge> i. ?Q (run j)" if "?due AtSwitch (run i) \<or> ?Q (run i)" for i
    using that switch [of i] found' le_trans by blast
  have launch': "\<exists>j \<ge> i. ?Q (run j)" if "?due AtLaunch (run i)" for i
    using launch [OF that] switch' le_trans by blast
  have any: "\<exists>j \<ge> i. ?Q (run j)" if "?any (run i)" for i
    using that found' [of i] switch' [of i] launch' [of i] by blast
  have pc: "?any s \<or> (?R s \<and> g_pending s \<and> \<not> ?any s)" if "?R s" for s using that by (auto simp: reporting_def)
  have "\<exists>j \<ge> i. ?any (run j)" if "?R (run i) \<and> g_pending (run i) \<and> \<not> ?any (run i)"
  proof (rule gpu_ensures_checker [OF run, where P = "\<lambda>s. ?R s \<and> g_pending s \<and> \<not> ?any s", OF that])
    show "?any s'" if "?R s \<and> g_pending s \<and> \<not> ?any s" "gpu_step params threads s Checker s'" for s s'
      using checker [OF _ that(2)] checker_keeps_host [OF that(2)] inv that(1) by (auto simp: reporting_def)
    show "(?R s' \<and> g_pending s' \<and> \<not> ?any s') \<or> ?any s'" if "?R s \<and> g_pending s \<and> \<not> ?any s" "gpu_step params threads s Host s'" for s s'
      using host [OF _ that(2)] pc that(1) by blast
  qed simp
  with any pc [OF i] show ?thesis using le_trans by blast
qed

text \<open>The start of the search for a block.\<close>

definition search_start :: "nat \<Rightarrow> Block \<Rightarrow> gpu_state \<Rightarrow> bool" where
  "search_start p b s \<longleftrightarrow> g_pc s = AtLaunch \<and> g_runState s = RUNING \<and> \<not> g_pending s \<and> g_tasks s = [] \<and> g_block s = Some p \<and>
     g_heap s ! p = b \<and> g_nonceOffset s = 0"

lemma search_starts:
  assumes "BlockHeader_wf b"
  shows "\<exists>s. gpu_reachable params threads s \<and> search_start 0 b s \<and> g_heap s = [b] \<and> g_found s = []"
proof -
  let ?s1 = "(gpu_init threads)\<lparr>g_runState := RUNING, g_pc := AtFound\<rparr>"
  have "gpu_reachable params threads ?s1"
    by (rule gpu_reachable.step [OF gpu_reachable.init gpu_step.restart]) (simp_all add: gpu_init_def)
  hence "gpu_reachable params threads (sync_found ?s1)"
    by (rule gpu_reachable.step [OF _ gpu_step.found]) simp
  hence "gpu_reachable params threads (sync_get_block params b (sync_found ?s1))"
    by (rule gpu_reachable.step [OF _ gpu_step.get_block]) (simp_all add: sync_found_def assms)
  moreover have "search_start 0 b (sync_get_block params b (sync_found ?s1))" "g_heap (sync_get_block params b (sync_found ?s1)) = [b]"
    "g_found (sync_get_block params b (sync_found ?s1)) = []"
    by (simp_all add: search_start_def gpu_init_def sync_found_def sync_get_block_def Let_def split_beta)
  ultimately show ?thesis by blast
qed

section \<open>Properties\<close>




section \<open>Witnesses\<close>

text \<open>The genesis block with a nonce that does not win.\<close>

lemma sha256_losing_header_block0:
  "fips_compress sha256_Initialize
    [1, 0, 0, 0, 0, 0, 0, 0, 0, 0, 0, 0, 0, 0, 0, 0, 0, 0, 0, 0, 0, 0, 0, 0, 0, 0, 0, 0, 0, 0, 0, 0, 0, 0, 0, 0,
     59, 163, 237, 253, 122, 123, 18, 178, 122, 199, 44, 62, 103, 118, 143, 97, 127, 200, 27, 195, 136, 138,
     81, 50, 58, 159, 184, 170] =
    [3163593267, 1666760688, 2429332605, 509201064, 3284719849, 1325466568, 2528216886, 1192884507]"
  unfolding sha256_Initialize_def
  by (rule fips_compress_eval) (simp_all only: sha256_bits_eval, simp)

lemma sha256_losing_header_block1:
  "fips_compress [3163593267, 1666760688, 2429332605, 509201064, 3284719849, 1325466568, 2528216886, 1192884507]
    [75, 30, 94, 74, 218, 229, 73, 77, 255, 255, 127, 32, 7, 0, 0, 0, 128, 0, 0, 0, 0, 0, 0, 0, 0, 0, 0, 0, 0, 0,
     0, 0, 0, 0, 0, 0, 0, 0, 0, 0, 0, 0, 0, 0, 0, 0, 0, 0, 0, 0, 0, 0, 0, 0, 0, 0, 0, 0, 0, 0, 0, 0, 2, 128] =
    [2262205357, 1766730371, 2741874053, 372009639, 4045813228, 1192547744, 2436056438, 3779239609]"
  by (rule fips_compress_eval) (simp_all only: sha256_bits_eval, simp)

lemma sha256_losing_header:
  "sha256 [1, 0, 0, 0, 0, 0, 0, 0, 0, 0, 0, 0, 0, 0, 0, 0, 0, 0, 0, 0, 0, 0, 0, 0, 0, 0, 0, 0, 0, 0, 0, 0, 0, 0, 0, 0,
     59, 163, 237, 253, 122, 123, 18, 178, 122, 199, 44, 62, 103, 118, 143, 97, 127, 200, 27, 195, 136, 138,
     81, 50, 58, 159, 184, 170, 75, 30, 94, 74, 218, 229, 73, 77, 255, 255, 127, 32, 7, 0, 0, 0] =
    [134, 214, 131, 173, 105, 78, 42, 131, 163, 109, 173, 133, 22, 44, 106, 167, 241, 38, 53, 236, 71, 20, 213,
     160, 145, 51, 69, 118, 225, 66, 158, 185]"
proof -
  let ?m = "[1, 0, 0, 0, 0, 0, 0, 0, 0, 0, 0, 0, 0, 0, 0, 0, 0, 0, 0, 0, 0, 0, 0, 0, 0, 0, 0, 0, 0, 0, 0, 0, 0, 0, 0, 0,
     59, 163, 237, 253, 122, 123, 18, 178, 122, 199, 44, 62, 103, 118, 143, 97, 127, 200, 27, 195, 136, 138,
     81, 50, 58, 159, 184, 170, 75, 30, 94, 74, 218, 229, 73, 77, 255, 255, 127, 32, 7, 0, 0, 0]"
  let ?cs = "[[1, 0, 0, 0, 0, 0, 0, 0, 0, 0, 0, 0, 0, 0, 0, 0, 0, 0, 0, 0, 0, 0, 0, 0, 0, 0, 0, 0, 0, 0, 0, 0, 0, 0, 0, 0,
     59, 163, 237, 253, 122, 123, 18, 178, 122, 199, 44, 62, 103, 118, 143, 97, 127, 200, 27, 195, 136, 138,
     81, 50, 58, 159, 184, 170],
    [75, 30, 94, 74, 218, 229, 73, 77, 255, 255, 127, 32, 7, 0, 0, 0, 128, 0, 0, 0, 0, 0, 0, 0, 0, 0, 0, 0, 0, 0,
     0, 0, 0, 0, 0, 0, 0, 0, 0, 0, 0, 0, 0, 0, 0, 0, 0, 0, 0, 0, 0, 0, 0, 0, 0, 0, 0, 0, 0, 0, 0, 0, 2, 128]]"
  have len: "length ?m = 80" by simp
  have zeros: "sha256_zeros 80 = 39" by (simp add: sha256_zeros_def)
  have fill: "replicate 39 (0 :: u8) = [0, 0, 0, 0, 0, 0, 0, 0, 0, 0, 0, 0, 0, 0, 0, 0, 0, 0, 0, 0, 0, 0, 0, 0, 0, 0, 0, 0, 0, 0, 0, 0, 0, 0, 0, 0,
     0, 0, 0]" by (simp add: numeral_eq_Suc)
  have size: "WriteBE64 (word_of_nat (8 * 80)) = [0, 0, 0, 0, 0, 0, 2, 128]" by (simp add: WriteBE64_def wdigits_numeral)
  have "sha256_pad ?m = concat ?cs"
    unfolding sha256_pad_def len zeros fill size by simp
  moreover have "list_all (\<lambda>c. length c = 64) ?cs" by simp
  ultimately have "sha256 ?m = concat (map WriteBE32 (fold (\<lambda>c s. fips_compress s c) ?cs sha256_Initialize))"
    by (rule sha256_chunks)
  also have "fold (\<lambda>c s. fips_compress s c) ?cs sha256_Initialize = [2262205357, 1766730371, 2741874053, 372009639, 4045813228, 1192547744, 2436056438, 3779239609]"
    by (simp only: fold_simps id_apply o_apply sha256_losing_header_block0 sha256_losing_header_block1)
  finally show ?thesis by (simp add: WriteBE32_def wdigits_numeral)
qed

lemma sha256_losing_header2_block0:
  "fips_compress sha256_Initialize
    [134, 214, 131, 173, 105, 78, 42, 131, 163, 109, 173, 133, 22, 44, 106, 167, 241, 38, 53, 236, 71, 20, 213,
     160, 145, 51, 69, 118, 225, 66, 158, 185, 128, 0, 0, 0, 0, 0, 0, 0, 0, 0, 0, 0, 0, 0, 0, 0, 0, 0, 0, 0,
     0, 0, 0, 0, 0, 0, 0, 0, 0, 0, 1, 0] =
    [2336639394, 4234260821, 3927054682, 3735402589, 2248552998, 1939507734, 4150953581, 2535704775]"
  unfolding sha256_Initialize_def
  by (rule fips_compress_eval) (simp_all only: sha256_bits_eval, simp)

lemma sha256_losing_header2:
  "sha256 [134, 214, 131, 173, 105, 78, 42, 131, 163, 109, 173, 133, 22, 44, 106, 167, 241, 38, 53, 236, 71, 20, 213,
     160, 145, 51, 69, 118, 225, 66, 158, 185] =
    [139, 70, 73, 162, 252, 97, 177, 85, 234, 18, 25, 90, 222, 165, 184, 93, 134, 6, 50, 38, 115, 154, 138, 22,
     247, 106, 134, 109, 151, 35, 200, 199]"
proof -
  let ?m = "[134, 214, 131, 173, 105, 78, 42, 131, 163, 109, 173, 133, 22, 44, 106, 167, 241, 38, 53, 236, 71, 20, 213,
     160, 145, 51, 69, 118, 225, 66, 158, 185]"
  let ?cs = "[[134, 214, 131, 173, 105, 78, 42, 131, 163, 109, 173, 133, 22, 44, 106, 167, 241, 38, 53, 236, 71, 20, 213,
     160, 145, 51, 69, 118, 225, 66, 158, 185, 128, 0, 0, 0, 0, 0, 0, 0, 0, 0, 0, 0, 0, 0, 0, 0, 0, 0, 0, 0,
     0, 0, 0, 0, 0, 0, 0, 0, 0, 0, 1, 0]]"
  have len: "length ?m = 32" by simp
  have zeros: "sha256_zeros 32 = 23" by (simp add: sha256_zeros_def)
  have fill: "replicate 23 (0 :: u8) = [0, 0, 0, 0, 0, 0, 0, 0, 0, 0, 0, 0, 0, 0, 0, 0, 0, 0, 0, 0, 0, 0, 0]" by (simp add: numeral_eq_Suc)
  have size: "WriteBE64 (word_of_nat (8 * 32)) = [0, 0, 0, 0, 0, 0, 1, 0]" by (simp add: WriteBE64_def wdigits_numeral)
  have "sha256_pad ?m = concat ?cs"
    unfolding sha256_pad_def len zeros fill size by simp
  moreover have "list_all (\<lambda>c. length c = 64) ?cs" by simp
  ultimately have "sha256 ?m = concat (map WriteBE32 (fold (\<lambda>c s. fips_compress s c) ?cs sha256_Initialize))"
    by (rule sha256_chunks)
  also have "fold (\<lambda>c s. fips_compress s c) ?cs sha256_Initialize = [2336639394, 4234260821, 3927054682, 3735402589, 2248552998, 1939507734, 4150953581, 2535704775]"
    by (simp only: fold_simps id_apply o_apply sha256_losing_header2_block0)
  finally show ?thesis by (simp add: WriteBE32_def wdigits_numeral)
qed

definition sample_block :: Block where
  "sample_block = block_with_nonce GetGenesisBlock 7"

lemma sample_block_wf: "BlockHeader_wf sample_block" "bh_nBits sample_block = 0x207fffff"
proof -
  have "bh_hashPrevBlock GetGenesisBlock = uint256_new" "bh_nBits GetGenesisBlock = 0x207fffff"
    by (simp_all add: GetGenesisBlock_def CreateGenesisBlock_def CreateGenesisBlock_with_def Let_def)
  thus "BlockHeader_wf sample_block" "bh_nBits sample_block = 0x207fffff"
    by (simp_all add: sample_block_def BlockHeader_wf_def genesis_merkle_root block_with_nonce_def)
qed

lemma sample_target: "wval (fst (SetCompact (bh_nBits sample_block))) = 0x7fffff * 256 ^ 29"
  unfolding sample_block_wf fst_SetCompact by (simp add: compact_value_def compact_mantissa_def compact_exponent_def)

lemma sample_nonces: "nonce_wins sample_block 2" "\<not> nonce_wins sample_block 7"
proof -
  have "block_with_nonce sample_block 2 = GetGenesisBlock"
    by (simp add: sample_block_def block_with_nonce_def GetGenesisBlock_def CreateGenesisBlock_def CreateGenesisBlock_with_def Let_def)
  thus "nonce_wins sample_block 2" unfolding nonce_wins_def sample_target by (simp add: genesis_hash)
  have "header_bytes sample_block = take 76 (header_bytes GetGenesisBlock) @ WriteLE32 7"
    using header_with_nonce_bytes [of GetGenesisBlock 7] sample_block_wf(1)
    by (simp add: sample_block_def header_with_nonce_def block_with_nonce_def [symmetric])
  hence "header_bytes sample_block = [1, 0, 0, 0, 0, 0, 0, 0, 0, 0, 0, 0, 0, 0, 0, 0, 0, 0, 0, 0, 0, 0, 0, 0, 0, 0, 0, 0, 0, 0, 0, 0, 0, 0, 0, 0,
     59, 163, 237, 253, 122, 123, 18, 178, 122, 199, 44, 62, 103, 118, 143, 97, 127, 200, 27, 195, 136, 138,
     81, 50, 58, 159, 184, 170, 75, 30, 94, 74, 218, 229, 73, 77, 255, 255, 127, 32, 7, 0, 0, 0]"
    unfolding genesis_header_bytes by (simp add: WriteLE32_def wdigits_numeral)
  hence "Block_GetHash sample_block = [139, 70, 73, 162, 252, 97, 177, 85, 234, 18, 25, 90, 222, 165, 184, 93, 134, 6, 50, 38, 115, 154, 138, 22,
     247, 106, 134, 109, 151, 35, 200, 199]"
    by (simp only: BlockHeader_GetHash_bytes sha256d_def sha256_losing_header sha256_losing_header2)
  moreover have "block_with_nonce sample_block 7 = sample_block" by (simp add: sample_block_def)
  ultimately show "\<not> nonce_wins sample_block 7" unfolding nonce_wins_def sample_target by simp
qed

lemma sample_in_range: "fst (funcBuildTarget RegTestParams (bh_nBits sample_block))"
proof -
  have l: "wval (p_powLimit RegTestParams) = 2 ^ 255 - 1" "length (p_powLimit RegTestParams) = 32"
    by (simp_all add: RegTestParams_def wval_append wval_replicate_max)
  have c: "compact_value (bh_nBits sample_block) = 0x7fffff * 256 ^ 29"
    unfolding sample_block_wf by (simp add: compact_value_def compact_mantissa_def compact_exponent_def)
  have "wval (Block_GetHash (block_with_nonce sample_block 2)) \<le> 0x7fffff * 256 ^ 29"
    using sample_nonces(1) unfolding nonce_wins_def sample_target .
  hence "CheckProofOfWork RegTestParams (Block_GetHash (block_with_nonce sample_block 2)) (bh_nBits sample_block)"
    unfolding CheckProofOfWork_accepts [OF length_Block_GetHash l(2)] c l by (simp add: sample_block_wf)
  thus ?thesis using funcBuildTarget_decides [OF sample_nonces(1) l(2)] by simp
qed


text \<open>A run in which the two threads take turns.\<close>

primrec turns :: "gpu_state \<Rightarrow> nat \<Rightarrow> gpu_state" where
  "turns s 0 = s"
| "turns s (Suc i) = (let l = (if even i then Host else Checker)
     in if gpu_enabled l (turns s i) then gpu_next RegTestParams 4 sample_block l (turns s i) else turns s i)"

definition turn_labels :: "gpu_state \<Rightarrow> nat \<Rightarrow> gpu_label option" where
  "turn_labels s i = (let l = (if even i then Host else Checker) in if gpu_enabled l (turns s i) then Some l else None)"

lemma turns_fair: "gpu_fair_run RegTestParams 4 (turns s) (turn_labels s)"
  unfolding fair_run_def
proof (intro conjI allI ballI)
  fix i
  show "case turn_labels s i of None \<Rightarrow> turns s (Suc i) = turns s i
    | Some l \<Rightarrow> l \<in> {Host, Checker} \<and> gpu_step RegTestParams 4 (turns s i) l (turns s (Suc i))"
    using gpu_next_step [OF sample_block_wf(1)] by (simp add: turn_labels_def Let_def)
next
  fix l i assume l: "l \<in> {Host, Checker}"
  let ?j = "if l = Host then 2 * i else Suc (2 * i)"
  have "?j \<ge> i" "turn_labels s ?j = Some l \<or> \<not> gpu_enabled l (turns s ?j)" using l by (auto simp: turn_labels_def Let_def)
  thus "\<exists>j \<ge> i. turn_labels s j = Some l \<or> \<not> gpu_enabled l (turns s j)" by blast
qed



end
