(* ===== verification/Chain_State.thy ===== *)
theory Chain_State
  imports Store Pow
begin

text \<open>
  The state of the node's block chain, the tips of its branches (\<open>BlockTipManager\<close>), the blocks behind index entries
  (\<open>BlockIndex\<close> of \<^verbatim>\<open>src/block.cpp\<close>) and the required target of the next block
  (\<^verbatim>\<open>src/blockchain.h\<close>).
\<close>

section \<open>State\<close>

text \<open>The singletons that do not change: the parameters and the key-value library.\<close>

record 'db node =
  n_params :: ParamsBase
  n_ldb :: "'db leveldb"

text \<open>
  The databases of the blocks and of their index, and the tips held in memory. A \<^verbatim>\<open>std::map\<close> is the list of
  its entries in key order.
\<close>

record 'db chain =
  c_blocks :: 'db
  c_index :: 'db
  c_tipMap :: "(uint256 \<times> BlockIndex) list"

text \<open>\<^verbatim>\<open>map::operator[]\<close> with an assignment, and \<^verbatim>\<open>map::erase\<close>.\<close>

fun map_assign :: "'k::linorder \<Rightarrow> 'v \<Rightarrow> ('k \<times> 'v) list \<Rightarrow> ('k \<times> 'v) list" where
  "map_assign k v [] = [(k, v)]"
| "map_assign k v (e # m) = (if k < fst e then (k, v) # e # m else if k = fst e then (k, v) # m else e # map_assign k v m)"

definition map_erase :: "'k \<Rightarrow> ('k \<times> 'v) list \<Rightarrow> ('k \<times> 'v) list" where
  "map_erase k m = filter (\<lambda>e. fst e \<noteq> k) m"

section \<open>Tips\<close>

definition TIP_ALL_KEY_KEY :: bytes where
  "TIP_ALL_KEY_KEY = map of_char ''TIP_ALL_KEY_KEY''"

definition Serialize_tipMap :: "(uint256 \<times> BlockIndex) list \<Rightarrow> ser_op list" where
  "Serialize_tipMap m = Serialize_map (Serialize_pair Serialize_uint256 Serialize_BlockIndex) m"

text \<open>A shared pointer is read into a new object.\<close>

definition Unserialize_tipMap :: "(uint256 \<times> BlockIndex) list unser" where
  "Unserialize_tipMap = Unserialize_map (uint256_new, BlockIndex_new) (Unserialize_pair Unserialize_uint256 (\<lambda>_. Unserialize_BlockIndex BlockIndex_new))"

definition UpdateBlockTipMap :: "'db node \<Rightarrow> 'db chain \<Rightarrow> bool \<times> 'db chain" where
  "UpdateBlockTipMap N c =
     (let (ok, db) = PutData (n_ldb N) (c_index c) TIP_ALL_KEY_KEY (ser_bytes (Serialize_tipMap (c_tipMap c))) in (ok, c\<lparr>c_index := db\<rparr>))"

text \<open>The map is loaded when it is used the first time.\<close>

definition GetBlockTipMap :: "'db node \<Rightarrow> 'db chain \<Rightarrow> chain_fault + 'db chain" where
  "GetBlockTipMap N c =
     (if c_tipMap c \<noteq> [] then Inr c
      else case GetData (n_ldb N) (c_index c) TIP_ALL_KEY_KEY of
             None \<Rightarrow> Inr c
           | Some buf \<Rightarrow> andThen (read_object Unserialize_tipMap 0 buf) (\<lambda>m. Inr (c\<lparr>c_tipMap := m\<rparr>)))"

definition AddTip :: "'db node \<Rightarrow> BlockIndex \<Rightarrow> 'db chain \<Rightarrow> chain_fault + bool \<times> 'db chain" where
  "AddTip N index c = andThen (GetBlockTipMap N c) (\<lambda>c. Inr (UpdateBlockTipMap N (c\<lparr>c_tipMap := map_assign (bi_hash index) index (c_tipMap c)\<rparr>)))"

text \<open>The old tip is erased from a copy of the map, which is then discarded. A null tip is \<open>None\<close>.\<close>

definition UpdateTip :: "'db node \<Rightarrow> BlockIndex option \<Rightarrow> 'db chain \<Rightarrow> chain_fault + bool \<times> 'db chain" where
  "UpdateTip N tip c = andThen (GetBlockTipMap N c) (\<lambda>c.
     case tip of
       None \<Rightarrow> Inl NullDeref
     | Some tip \<Rightarrow> let map = map_erase (bi_hashPrevBlock tip) (c_tipMap c) in AddTip N tip c)"

definition GetTip :: "'db node \<Rightarrow> uint256 \<Rightarrow> 'db chain \<Rightarrow> chain_fault + BlockIndex option \<times> 'db chain" where
  "GetTip N hash c = andThen (GetBlockTipMap N c) (\<lambda>c. Inr (map_of (c_tipMap c) hash, c))"

primrec active_loop :: "BlockIndex option \<Rightarrow> (uint256 \<times> BlockIndex) list \<Rightarrow> BlockIndex option" where
  "active_loop active [] = active"
| "active_loop active (v # m) =
     active_loop (case active of None \<Rightarrow> Some (snd v) | Some a \<Rightarrow> if bi_height a < bi_height (snd v) then Some (snd v) else active) m"

definition GetActiveTip :: "'db node \<Rightarrow> 'db chain \<Rightarrow> chain_fault + BlockIndex option \<times> 'db chain" where
  "GetActiveTip N c = andThen (GetBlockTipMap N c) (\<lambda>c. Inr (active_loop None (c_tipMap c), c))"

section \<open>Blocks behind index entries\<close>

text \<open>The block is kept in the entry after the first read; a failed read leaves the null block there.\<close>

definition BlockIndex_GetBlock :: "'db node \<Rightarrow> 'db chain \<Rightarrow> BlockIndex \<Rightarrow> chain_fault + Block \<times> BlockIndex" where
  "BlockIndex_GetBlock N c index =
     (if \<not> BlockHeader_IsNull (bi_block index) then Inr (bi_block index, index)
      else andThen (GetBlock (n_ldb N) (c_blocks c) (bi_hash index) (bi_block index)) (\<lambda>r.
        case r of None \<Rightarrow> Inr (bi_block index, index) | Some b \<Rightarrow> Inr (b, index\<lparr>bi_block := b\<rparr>)))"

definition BlockIndex_GetBlockHeader :: "'db node \<Rightarrow> 'db chain \<Rightarrow> BlockIndex \<Rightarrow> chain_fault + BlockHeader \<times> BlockIndex" where
  "BlockIndex_GetBlockHeader N c index =
     andThen (if BlockHeader_IsNull (bi_block index) then andThen (BlockIndex_GetBlock N c index) (\<lambda>(b, index). Inr index) else Inr index) (\<lambda>index.
       if BlockHeader_IsNull (bi_blockHeader index) then Inr (bi_blockHeader index, index)
       else let index = index\<lparr>bi_blockHeader := Block_GetBlockHeader (bi_block index)\<rparr> in Inr (bi_blockHeader index, index))"

text \<open>
  The loop writes the time of each block to the first place of the array; the ten other places are uninitialised and
  are the argument \<open>junk\<close>.
\<close>

primrec median_loop :: "'db node \<Rightarrow> 'db chain \<Rightarrow> nat \<Rightarrow> Block \<Rightarrow> int \<Rightarrow> chain_fault + int" where
  "median_loop N c 0 it first = Inr first"
| "median_loop N c (Suc n) it first =
     andThen (GetBlock (n_ldb N) (c_blocks c) (bh_hashPrevBlock it) it) (\<lambda>r.
       case r of None \<Rightarrow> Inr (GetBlockTime it) | Some it' \<Rightarrow> median_loop N c n it' (GetBlockTime it))"

definition GetMedianTimePast :: "'db node \<Rightarrow> 'db chain \<Rightarrow> int list \<Rightarrow> BlockIndex \<Rightarrow> chain_fault + int \<times> BlockIndex" where
  "GetMedianTimePast N c junk index =
     andThen (BlockIndex_GetBlock N c index) (\<lambda>(it, index).
     andThen (median_loop N c 11 it 0) (\<lambda>first. Inr (sort (first # take 10 junk) ! (11 div 2), index)))"

section \<open>The target of the next block\<close>

text \<open>
  The walk back to the last block with a target of its own. When a block is missing in the database, the object is left
  unchanged and the loop does not end: \<open>None\<close>.
\<close>

partial_function (option) work_walk :: "'db node \<Rightarrow> 'db chain \<Rightarrow> u32 \<Rightarrow> Block \<Rightarrow> (chain_fault + u32) option" where
  "work_walk N c limit tmpBlock =
     (if \<not> uint256_IsNull (bh_hashPrevBlock tmpBlock) \<and> bh_nBits tmpBlock = limit
      then case GetBlock (n_ldb N) (c_blocks c) (bh_hashPrevBlock tmpBlock) tmpBlock of
             Inl e \<Rightarrow> Some (Inl e)
           | Inr r \<Rightarrow> work_walk N c limit (case r of None \<Rightarrow> tmpBlock | Some b \<Rightarrow> b)
      else Some (Inr (bh_nBits tmpBlock)))"

definition GetNextWorkRequired :: "'db node \<Rightarrow> 'db chain \<Rightarrow> Block \<Rightarrow> Block \<Rightarrow> chain_fault + u32 \<times> 'db chain" where
  "GetNextWorkRequired N c lastBlock block =
     (case GetCompact (UintToArith256 (p_powLimit (n_params N))) False of
        None \<Rightarrow> Inl AssertFailed
      | Some nProofOfWorkLimit \<Rightarrow>
     andThen (GetActiveTip N c) (\<lambda>(tip, c).
     case tip of None \<Rightarrow> Inl NullDeref | Some tip \<Rightarrow>
       if (bi_height tip + 1) mod DifficultyAdjustmentInterval \<noteq> 0
       then if s_PowAllowMinDifficultyBlocks
            then if ucast (bh_nTime lastBlock) + s_PowTargetSpacing * 2 < ucast (bh_nTime block) then Inr (nProofOfWorkLimit, c)
                 else case work_walk N c nProofOfWorkLimit lastBlock of
                        None \<Rightarrow> Inl NoReturn
                      | Some r \<Rightarrow> andThen r (\<lambda>bits. Inr (bits, c))
            else Inr (bh_nBits lastBlock, c)
       else andThen (foldE (\<lambda>_ first. andThen (GetBlock (n_ldb N) (c_blocks c) (bh_hashPrevBlock first) first)
                (\<lambda>r. Inr (case r of None \<Rightarrow> first | Some b \<Rightarrow> b))) [0..<2016 - 1] lastBlock) (\<lambda>firstBlock.
            case CalculateNextWorkRequired (n_params N) lastBlock (ucast (bh_nTime firstBlock)) of
              None \<Rightarrow> Inl AssertFailed
            | Some bits \<Rightarrow> Inr (bits, c))))"

section \<open>Maps in key order\<close>

lemma set_map_assign: "map_sorted m \<Longrightarrow> set (map_assign k v m) = insert (k, v) {e \<in> set m. fst e \<noteq> k}"
  by (induction m) (auto simp: map_sorted_def)

lemma map_sorted_assign: "map_sorted m \<Longrightarrow> map_sorted (map_assign k v m)"
proof (induction m)
  case (Cons e m)
  hence m: "map_sorted m" "\<forall>x \<in> set m. fst e < fst x" by (simp_all add: map_sorted_def)
  show ?case
  proof (cases "k < fst e \<or> k = fst e")
    case True
    thus ?thesis using m by (auto simp: map_sorted_def dest: less_trans)
  next
    case False
    hence "fst e < k" by auto
    with m have "\<forall>x \<in> set (map_assign k v m). fst e < fst x" by (auto simp: set_map_assign)
    with False Cons.IH [OF m(1)] show ?thesis by (simp add: map_sorted_def)
  qed
qed (simp add: map_sorted_def)

lemma map_of_assign [simp]: "map_of (map_assign k v m) = (map_of m)(k \<mapsto> v)" if "map_sorted m"
  using that
proof (induction m)
  case (Cons e m)
  hence "map_sorted m" "\<forall>x \<in> set m. fst e < fst x" by (simp_all add: map_sorted_def)
  with Cons.IH show ?case by (cases e) (auto simp: fun_eq_iff)
qed simp

lemma length_map_assign: "length (map_assign k v m) \<le> Suc (length m)"
  by (induction m) auto

section \<open>Tips on disk\<close>

definition tips_wf :: "(uint256 \<times> BlockIndex) list \<Rightarrow> bool" where
  "tips_wf m \<longleftrightarrow> map_sorted m \<and> list_all (\<lambda>(k, index). k = bi_hash index \<and> BlockIndex_wf index) m"

definition without_cache :: "uint256 \<times> BlockIndex \<Rightarrow> uint256 \<times> BlockIndex" where
  "without_cache e = (fst e, BlockIndex_merge BlockIndex_new (snd e))"

interpretation tip_entry: codec_pair 0 Serialize_uint256 Unserialize_uint256 "\<lambda>old x. x" "\<lambda>x. length x = 32" "\<lambda>old. length old = 32"
    Serialize_BlockIndex "\<lambda>_. Unserialize_BlockIndex BlockIndex_new" "\<lambda>_. BlockIndex_merge BlockIndex_new" BlockIndex_wf "\<lambda>_. True"
  by unfold_locales (simp_all add: decodes_uint256 decodes_BlockIndex Serialize_uint256_def)

interpretation tip_map: codec_map 0 "Serialize_pair Serialize_uint256 Serialize_BlockIndex"
    "Unserialize_pair Unserialize_uint256 (\<lambda>_. Unserialize_BlockIndex BlockIndex_new)"
    "\<lambda>old x. (fst x, BlockIndex_merge BlockIndex_new (snd x))" "\<lambda>x. length (fst x) = 32 \<and> BlockIndex_wf (snd x)"
    "\<lambda>old. length (fst old) = 32 \<and> True" "(uint256_new, BlockIndex_new)"
  by unfold_locales (use tip_entry.pair.decodes_un in \<open>auto simp: length_uint256_new\<close>)

lemma tips_length: "tips_wf m \<Longrightarrow> length (ser_bytes (concat (map (Serialize_pair Serialize_uint256 Serialize_BlockIndex) m))) = 136 * length m"
  by (induction m) (auto simp: tips_wf_def map_sorted_def Serialize_pair_def Serialize_uint256_def Serialize_BlockIndex_def BlockIndex_wf_def ser_writedata64_def)

lemma read_tipMap:
  assumes "tips_wf m" "length m \<le> 2 ^ 24"
  shows "read_object Unserialize_tipMap 0 (ser_bytes (Serialize_tipMap m)) = Inr (map without_cache m)"
proof (rule read_object_decodes)
  have "list_all (\<lambda>x. length (fst x) = 32 \<and> BlockIndex_wf (snd x)) m"
    using assms(1) by (auto simp: tips_wf_def list_all_iff BlockIndex_wf_def)
  moreover have "map_sorted m" "length m \<le> MAX_SIZE" using assms by (simp_all add: tips_wf_def MAX_SIZE_def)
  ultimately show "decodes 0 Unserialize_tipMap (ser_bytes (Serialize_tipMap m)) (map without_cache m)"
    unfolding Unserialize_tipMap_def Serialize_tipMap_def without_cache_def by (rule tip_map.decodes_map)
  have "length (WriteCompactSize (word_of_nat (length m))) \<le> 9" by (simp add: length_WriteCompactSize GetSizeOfCompactSize_def)
  thus "length (ser_bytes (Serialize_tipMap m)) < 2 ^ 32"
    using tips_length [OF assms(1)] assms(2) by (simp add: Serialize_tipMap_def Serialize_map_def)
qed

lemma tips_wf_assign:
  assumes "tips_wf m" "BlockIndex_wf index"
  shows "tips_wf (map_assign (bi_hash index) index m)"
  using assms by (auto simp: tips_wf_def map_sorted_assign set_map_assign list_all_iff)

section \<open>The active tip\<close>

lemma active_loop_max:
  "active_loop (Some a) m = Some b \<Longrightarrow>
     (b = a \<or> (\<exists>k. (k, b) \<in> set m \<and> bi_height a < bi_height b)) \<and> bi_height a \<le> bi_height b \<and> (\<forall>e \<in> set m. bi_height (snd e) \<le> bi_height b)"
proof (induction m arbitrary: a)
  case (Cons e m)
  show ?case
  proof (cases "bi_height a < bi_height (snd e)")
    case True
    with Cons.prems have "active_loop (Some (snd e)) m = Some b" by simp
    from Cons.IH [OF this] True show ?thesis by (cases e) auto
  next
    case False
    with Cons.prems have "active_loop (Some a) m = Some b" by simp
    from Cons.IH [OF this] False show ?thesis by (cases e) auto
  qed
qed simp

lemma active_loop_Some: "\<exists>b. active_loop (Some a) m = Some b"
  by (induction m arbitrary: a) (auto split: if_splits)

lemma active_loop_first:
  "active_loop (Some a) m = Some b \<Longrightarrow> b = a \<or> (\<exists>m1 k m2. m = m1 @ (k, b) # m2 \<and> bi_height a < bi_height b \<and> (\<forall>e \<in> set m1. bi_height (snd e) < bi_height b))"
proof (induction m arbitrary: a)
  case (Cons e m)
  let ?a = "if bi_height a < bi_height (snd e) then snd e else a"
  have step: "active_loop (Some ?a) m = Some b" using Cons.prems by (simp split: if_splits)
  from Cons.IH [OF this] show ?case
  proof
    assume b: "b = ?a"
    show ?thesis
    proof (cases "bi_height a < bi_height (snd e)")
      case True
      with b have "e # m = [] @ (fst e, b) # m" by simp
      with True b show ?thesis by (metis empty_iff empty_set if_P)
    qed (use b in simp)
  next
    assume "\<exists>m1 k m2. m = m1 @ (k, b) # m2 \<and> bi_height ?a < bi_height b \<and> (\<forall>e \<in> set m1. bi_height (snd e) < bi_height b)"
    then obtain m1 k m2 where m: "m = m1 @ (k, b) # m2" "bi_height ?a < bi_height b" "\<forall>e \<in> set m1. bi_height (snd e) < bi_height b" by blast
    hence "e # m = (e # m1) @ (k, b) # m2" "bi_height a < bi_height b" "\<forall>x \<in> set (e # m1). bi_height (snd x) < bi_height b"
      by (auto split: if_splits)
    thus ?thesis by blast
  qed
qed simp

section \<open>The walk back over stored blocks\<close>

text \<open>\<open>bs\<close> are the ancestors of \<open>b\<close>, down to a block without a parent, as the database returns them.\<close>

fun stored_chain :: "'db node \<Rightarrow> 'db chain \<Rightarrow> Block \<Rightarrow> Block list \<Rightarrow> bool" where
  "stored_chain N c b [] \<longleftrightarrow> uint256_IsNull (bh_hashPrevBlock b)"
| "stored_chain N c b (b' # bs) \<longleftrightarrow> \<not> uint256_IsNull (bh_hashPrevBlock b) \<and>
     GetBlock (n_ldb N) (c_blocks c) (bh_hashPrevBlock b) b = Inr (Some b') \<and> stored_chain N c b' bs"

fun work_target :: "u32 \<Rightarrow> Block \<Rightarrow> Block list \<Rightarrow> u32" where
  "work_target limit b [] = bh_nBits b"
| "work_target limit b (b' # bs) = (if bh_nBits b = limit then work_target limit b' bs else bh_nBits b)"

lemma work_walk_stored: "stored_chain N c b bs \<Longrightarrow> work_walk N c limit b = Some (Inr (work_target limit b bs))"
proof (induction bs arbitrary: b)
  case Nil
  thus ?case by (subst work_walk.simps) simp
next
  case (Cons b' bs)
  thus ?case by (subst work_walk.simps) simp
qed

lemma work_walk_missing:
  assumes "\<not> uint256_IsNull (bh_hashPrevBlock b)" "bh_nBits b = limit" "GetBlock (n_ldb N) (c_blocks c) (bh_hashPrevBlock b) b = Inr None"
  shows "work_walk N c limit b = None"
proof -
  have "work_walk N c limit b = Some y \<Longrightarrow> \<not> (\<not> uint256_IsNull (bh_hashPrevBlock b) \<and> bh_nBits b = limit \<and>
      GetBlock (n_ldb N) (c_blocks c) (bh_hashPrevBlock b) b = Inr None)" for y
    by (erule work_walk.raw_induct [rotated, where P = "\<lambda>N c limit b y. \<not> (\<not> uint256_IsNull (bh_hashPrevBlock b) \<and> bh_nBits b = limit \<and>
      GetBlock (n_ldb N) (c_blocks c) (bh_hashPrevBlock b) b = Inr None)"]) (auto split: if_splits sum.splits option.splits, blast)
  with assms show ?thesis by (cases "work_walk N c limit b") auto
qed

lemma GetCompact_limit: "\<exists>l. GetCompact (UintToArith256 limit) False = Some l"
  using GetCompact_SetCompact [of "UintToArith256 limit"] by (auto simp: WIDTH256_def)

lemma GetActiveTip_loaded: "c_tipMap c \<noteq> [] \<Longrightarrow> GetActiveTip N c = Inr (active_loop None (c_tipMap c), c)"
  by (simp add: GetActiveTip_def GetBlockTipMap_def andThen_def)

lemma active_tip_exists: "c_tipMap c \<noteq> [] \<Longrightarrow> \<exists>a. active_loop None (c_tipMap c) = Some a"
  by (cases "c_tipMap c") (auto simp: active_loop_Some)

lemma GetNextWorkRequired_between:
  assumes "GetActiveTip N c = Inr (Some tip, c)" "(bi_height tip + 1) mod DifficultyAdjustmentInterval \<noteq> 0"
    and "GetCompact (UintToArith256 (p_powLimit (n_params N))) False = Some limit"
  shows "GetNextWorkRequired N c lastBlock block =
    (if uint (bh_nTime lastBlock) + 1200 < uint (bh_nTime block) then Inr (limit, c)
     else case work_walk N c limit lastBlock of None \<Rightarrow> Inl NoReturn | Some r \<Rightarrow> andThen r (\<lambda>bits. Inr (bits, c)))"
proof -
  have b: "unat (bh_nTime lastBlock) < 2 ^ 32" by (rule unat_u32_less)
  have "unat (ucast (bh_nTime lastBlock) + 1200 :: u64) = unat (bh_nTime lastBlock) + 1200"
    using b by (subst unat_word_ariths) simp
  moreover have "uint (bh_nTime lastBlock) + 1200 < uint (bh_nTime block) \<longleftrightarrow> unat (bh_nTime lastBlock) + 1200 < unat (bh_nTime block)"
    unfolding uint_nat by linarith
  ultimately have "ucast (bh_nTime lastBlock) + s_PowTargetSpacing * 2 < (ucast (bh_nTime block) :: u64) \<longleftrightarrow>
      uint (bh_nTime lastBlock) + 1200 < uint (bh_nTime block)"
    by (simp add: s_PowTargetSpacing_def word_less_nat_alt)
  with assms(2) show ?thesis
    by (simp only: GetNextWorkRequired_def assms(1,3) andThen_def s_PowAllowMinDifficultyBlocks_def option.case sum.case prod.case
        not_False_eq_True if_True simp_thms)
qed

section \<open>Properties\<close>


text \<open>
  C11. Tips survive a restart: after the map of tips has been written, a node whose memory is empty reads the same tips
  from the database, without the blocks that were cached in them.
\<close>

theorem tips_persist:
  assumes "leveldb_reliable (n_ldb N)" "tips_wf (c_tipMap c)" "length (c_tipMap c) \<le> 2 ^ 24"
  shows "fst (UpdateBlockTipMap N c) \<and>
    GetBlockTipMap N ((snd (UpdateBlockTipMap N c))\<lparr>c_tipMap := []\<rparr>) =
      Inr ((snd (UpdateBlockTipMap N c))\<lparr>c_tipMap := map without_cache (c_tipMap c)\<rparr>)"
proof -
  let ?p = "ldb_Put (n_ldb N) (c_index c) TIP_ALL_KEY_KEY (ser_bytes (Serialize_tipMap (c_tipMap c)))"
  have put: "fst ?p" and get: "ldb_Get (n_ldb N) (snd ?p) = (ldb_Get (n_ldb N) (c_index c))(TIP_ALL_KEY_KEY \<mapsto> ser_bytes (Serialize_tipMap (c_tipMap c)))"
    using assms(1) unfolding leveldb_reliable_def by blast+
  have update: "UpdateBlockTipMap N c = (fst ?p, c\<lparr>c_index := snd ?p\<rparr>)"
    by (simp add: UpdateBlockTipMap_def PutData_def split_beta)
  show ?thesis
    using put get read_tipMap [OF assms(2,3)] unfolding update by (simp add: GetBlockTipMap_def GetData_def andThen_def)
qed

text \<open>
  C31. Replacing a tip by its child leaves the old tip in place: after the update the map has the new tip and every tip
  it had before, the parent of the new tip included.
\<close>

theorem UpdateTip_keeps_old:
  assumes "leveldb_reliable (n_ldb N)" "c_tipMap c \<noteq> []" "tips_wf (c_tipMap c)" "bi_hashPrevBlock t \<noteq> bi_hash t"
  shows "\<exists>c'. UpdateTip N (Some t) c = Inr (True, c') \<and> map_of (c_tipMap c') = (map_of (c_tipMap c))(bi_hash t \<mapsto> t) \<and>
    map_of (c_tipMap c') (bi_hashPrevBlock t) = map_of (c_tipMap c) (bi_hashPrevBlock t)"
proof -
  let ?m = "map_assign (bi_hash t) t (c_tipMap c)"
  have "fst (ldb_Put (n_ldb N) db k v)" for db k v using assms(1) by (simp add: leveldb_reliable_def)
  moreover have "map_of ?m = (map_of (c_tipMap c))(bi_hash t \<mapsto> t)" using assms(3) by (simp add: tips_wf_def)
  ultimately show ?thesis
    using assms(2,4)
    by (auto simp: UpdateTip_def AddTip_def GetBlockTipMap_def andThen_def UpdateBlockTipMap_def PutData_def Let_def split_beta)
qed

text \<open>
  C12. Between retargets, when all ancestors of the last block are stored, the required target is computed: it is the
  limit if the new block is more than twenty minutes younger, and otherwise the target of the nearest ancestor that does
  not have the limit, or of the first block.
\<close>

theorem GetNextWorkRequired_returns:
  assumes "stored_chain N c lastBlock bs" "GetActiveTip N c = Inr (Some tip, c)" "(bi_height tip + 1) mod DifficultyAdjustmentInterval \<noteq> 0"
  shows "\<exists>limit. GetCompact (UintToArith256 (p_powLimit (n_params N))) False = Some limit \<and>
    GetNextWorkRequired N c lastBlock block =
      Inr (if uint (bh_nTime lastBlock) + 1200 < uint (bh_nTime block) then limit else work_target limit lastBlock bs, c)"
proof -
  obtain limit where l: "GetCompact (UintToArith256 (p_powLimit (n_params N))) False = Some limit" using GetCompact_limit by blast
  with assms show ?thesis by (auto simp: GetNextWorkRequired_between work_walk_stored andThen_def)
qed

text \<open>
  When the parent of a last block with the limit as its target is missing in the database, the computation of the
  required target does not end.
\<close>

theorem GetNextWorkRequired_loops:
  assumes "GetActiveTip N c = Inr (Some tip, c)" "(bi_height tip + 1) mod DifficultyAdjustmentInterval \<noteq> 0"
    and "bh_nTime block \<le> bh_nTime lastBlock" "\<not> uint256_IsNull (bh_hashPrevBlock lastBlock)"
    and "GetCompact (UintToArith256 (p_powLimit (n_params N))) False = Some (bh_nBits lastBlock)"
    and "GetBlock (n_ldb N) (c_blocks c) (bh_hashPrevBlock lastBlock) lastBlock = Inr None"
  shows "GetNextWorkRequired N c lastBlock block = Inl NoReturn"
  using assms work_walk_missing [OF assms(4) refl assms(6)] by (auto simp: GetNextWorkRequired_between word_le_def)

section \<open>Witnesses\<close>

definition sample_tip :: "int \<Rightarrow> u8 \<Rightarrow> u8 \<Rightarrow> BlockIndex" where
  "sample_tip height hash prev = BlockIndex_of height (replicate 32 hash) (replicate 32 prev)"

definition sample_node :: "(bytes \<Rightarrow> bytes option) node" where
  "sample_node = \<lparr>n_params = RegTestParams, n_ldb = memory_db\<rparr>"

text \<open>Two tips of different heights, and a first block that is stored.\<close>

definition sample_chain :: "(bytes \<Rightarrow> bytes option) chain" where
  "sample_chain = \<lparr>c_blocks = [replicate 32 5 \<mapsto> ser_bytes (Serialize_Block 0 Block_SetNull)], c_index = (\<lambda>_. None),
     c_tipMap = [(replicate 32 1, sample_tip 6 1 9), (replicate 32 2, sample_tip 7 2 5)]\<rparr>"

definition sample_last :: Block where
  "sample_last = Block_SetNull\<lparr>bh_hashPrevBlock := replicate 32 5, bh_nBits := 0x207fffff, bh_nTime := 100\<rparr>"

lemma sample_tips: "tips_wf (c_tipMap sample_chain)" "c_tipMap sample_chain \<noteq> []" "length (c_tipMap sample_chain) = 2"
  by (simp_all add: tips_wf_def map_sorted_def sample_chain_def sample_tip_def BlockIndex_of_def BlockIndex_wf_def BlockIndex_new_def
      uint256_new_def numeral_eq_Suc)

lemma sample_reliable: "leveldb_reliable (n_ldb sample_node)"
  by (simp add: sample_node_def sample_spend_facts(1))

lemma sample_active: "GetActiveTip sample_node sample_chain = Inr (Some (sample_tip 7 2 5), sample_chain)"
  using GetActiveTip_loaded [OF sample_tips(2)] by (simp add: sample_chain_def sample_tip_def BlockIndex_of_def)


theorem tips_persist_witness:
  "fst (UpdateBlockTipMap sample_node sample_chain) \<and>
    GetBlockTipMap sample_node ((snd (UpdateBlockTipMap sample_node sample_chain))\<lparr>c_tipMap := []\<rparr>) =
      Inr ((snd (UpdateBlockTipMap sample_node sample_chain))\<lparr>c_tipMap := map without_cache (c_tipMap sample_chain)\<rparr>)"
  by (rule tips_persist [OF sample_reliable sample_tips(1)]) (simp add: sample_tips(3))

theorem UpdateTip_keeps_old_witness:
  "\<exists>c'. UpdateTip sample_node (Some (sample_tip 8 3 2)) sample_chain = Inr (True, c') \<and>
    map_of (c_tipMap c') (replicate 32 2) = Some (sample_tip 7 2 5)"
proof -
  have "bi_hashPrevBlock (sample_tip 8 3 2) \<noteq> bi_hash (sample_tip 8 3 2)" "bi_hashPrevBlock (sample_tip 8 3 2) = replicate 32 2"
    by (simp_all add: sample_tip_def BlockIndex_of_def numeral_eq_Suc)
  moreover have "map_of (c_tipMap sample_chain) (replicate 32 2) = Some (sample_tip 7 2 5)"
    by (simp add: sample_chain_def numeral_eq_Suc)
  ultimately show ?thesis
    using UpdateTip_keeps_old [OF sample_reliable sample_tips(2,1), of "sample_tip 8 3 2"] by auto
qed

lemma sample_stored: "stored_chain sample_node sample_chain sample_last [Block_merge 0 sample_last Block_SetNull]"
proof -
  have wf: "Block_wf 0 Block_SetNull" "BlockHeader_wf sample_last"
    by (simp_all add: Block_wf_def BlockHeader_wf_def sample_last_def Block_SetNull_def BlockHeader_SetNull_def BlockHeader.defs Block.defs MAX_SIZE_def)
  have len: "length (ser_bytes (Serialize_Block 0 Block_SetNull)) < 2 ^ 32"
    by (simp add: Serialize_Block_def Serialize_BlockHeader_def Serialize_uint256_def Serialize_vector_def
        Block_SetNull_def BlockHeader_SetNull_def BlockHeader.defs Block.defs WriteCompactSize_def)
  have "ldb_Get memory_db (c_blocks sample_chain) (replicate 32 5) = Some (ser_bytes (Serialize_Block 0 Block_SetNull))"
    by (simp add: memory_db_def sample_chain_def)
  hence "GetBlock memory_db (c_blocks sample_chain) (replicate 32 5) sample_last = Inr (Some (Block_merge 0 sample_last Block_SetNull))"
    by (rule GetBlock_stored [OF _ wf len])
  moreover have "uint256_IsNull (bh_hashPrevBlock (Block_merge 0 sample_last Block_SetNull))"
    by (simp add: Block_merge_def Block_SetNull_def BlockHeader_SetNull_def BlockHeader.defs Block.defs uint256_IsNull_def uint256_new_def list_all_iff)
  moreover have "bh_hashPrevBlock sample_last = replicate 32 5" "\<not> uint256_IsNull (replicate 32 5)"
    by (simp_all add: sample_last_def uint256_IsNull_def list_all_iff)
  ultimately show ?thesis by (simp add: sample_node_def)
qed

theorem GetNextWorkRequired_returns_witness:
  "\<exists>limit. GetCompact (UintToArith256 (p_powLimit (n_params sample_node))) False = Some limit \<and>
    GetNextWorkRequired sample_node sample_chain sample_last sample_last =
      Inr (work_target limit sample_last [Block_merge 0 sample_last Block_SetNull], sample_chain)"
proof -
  have "(bi_height (sample_tip 7 2 5) + 1) mod DifficultyAdjustmentInterval \<noteq> 0"
    by (simp add: sample_tip_def BlockIndex_of_def DifficultyAdjustmentInterval_def s_PowTargetTimespan_def s_PowTargetSpacing_def)
  from GetNextWorkRequired_returns [OF sample_stored sample_active this, of sample_last] show ?thesis by simp
qed

end
