(* ===== verification/Spec2Isabelle.thy ===== *)
theory Spec2Isabelle
  imports Arith_Uint256 Gpu_Kernel Serialize Tx Script Script_Error Verify Block Store Sha256_Eval Pow Genesis Miner Chain_State
begin

text \<open>
  Verification of a bitcoin node that mines on a graphics processor.

  \<^bold>\<open>The program.\<close> The node keeps a block chain in key-value databases (\<^verbatim>\<open>src/blockchain.h\<close>), validates
  scripts (\<^verbatim>\<open>src/script\<close>), serialises its objects with stream templates (\<^verbatim>\<open>src/serialize.h\<close>,
  \<^verbatim>\<open>src/net.h\<close>), and searches nonces with an OpenCL kernel (\<^verbatim>\<open>src/btc_sha256_gpu.cl\<close>) driven by two
  threads of the host (\<^verbatim>\<open>src/btc_sha256_gpu.cpp\<close>). Hash functions and 256-bit integers underlie all of it.

  \<^bold>\<open>Conventions.\<close> Machine integers are words of their width. Arrays are lists, and an iterator is the rest of the
  list. Classes are records. Exceptions, failed assertions and undefined behaviour are values of option or sum types.
  Operations keep the names of the source; where overloads or classes share a name the class is a prefix or suffix.
  Singletons, the key-value library and the elliptic-curve library are arguments; what is relied on is a named
  predicate (\<open>leveldb_reliable\<close>), and each witness gives a concrete instance.

  \<^bold>\<open>Theories.\<close>

  \<^item> \<open>Prelude\<close>: word types, the positional value \<open>wval\<close> of word lists, the byte-order helpers of
    \<^verbatim>\<open>src/common.h\<close>.

  \<^item> \<open>Arith_Uint256\<close>: \<^verbatim>\<open>src/arith_uint256.h\<close> and \<^verbatim>\<open>.cpp\<close> on limbs. Arithmetic, shifts,
    comparison and long division compute the operations on numbers modulo the width; the compact encoding of targets
    is characterised, rounds down and never fails its assertions.

  \<^item> \<open>Sha256\<close>, \<open>Hash_Stream\<close>, \<open>Sha256_Cpu\<close>, \<open>Sha1\<close>, \<open>Ripemd160\<close>: the unrolled transformations and streaming
    classes. Each class computes its published digest for every division of the input into writes. The
    locales \<open>block_function\<close>, \<open>stream_hash\<close> and \<open>md_hash\<close> are the interface of a hash class.

  \<^item> \<open>Sha256_Eval\<close>: digests of concrete messages as theorems, by evaluation on bit lists.

  \<^item> \<open>Gpu_Kernel\<close>: the kernel and its CPU twin. A launch writes, in any order of its work items, the double hash of
    the header with each nonce.

  \<^item> \<open>Serialize\<close>: a serialiser is the list of stream calls it makes, a deserialiser a state transformer with errors.
    The locales \<open>codec\<close>, \<open>codec_vector\<close>, \<open>codec_pair\<close> and \<open>codec_map\<close> state the round-trip law and derive it
    for containers.

  \<^item> \<open>Tx\<close>, \<open>Block\<close>: transactions, headers, blocks, index entries, Merkle roots. Round trips, identifiers, value bounds;
    the in-place Merkle computation equals the tree, is binding up to a collision, and does not report a repeated tail.

  \<^item> \<open>Script\<close>, \<open>Script_Error\<close>, \<open>Interpreter\<close>, \<open>Interpreter_Safety\<close>, \<open>Pubkey\<close>, \<open>Der\<close>, \<open>Verify\<close>: script numbers,
    pushes and parsing; the interpreter with every opcode; its limits and the absence of aborts; signature encodings;
    signature hashes; \<open>VerifyScript\<close>.

  \<^item> \<open>Store\<close>: the databases and the set of unspent outputs. Caching a transaction refines spending its inputs and adding
    its outputs in an abstract set, and undoing it restores the set.

  \<^item> \<open>Pow\<close>, \<open>Genesis\<close>: parameters, proof of work, retargeting, rewards, script flags; the genesis block evaluated.

  \<^item> \<open>Chain_State\<close>: the tips of the chain (\<open>BlockTipManager\<close>) and the required target of the next block. The active tip
    is the highest; tips survive a restart; a replaced tip is kept.

  \<^item> \<open>Miner\<close>: the mining thread, the checking thread and outside calls as the step relation \<open>gpu_step\<close>, one rule for
    each atomic action. Only winning nonces are stored, in all interleavings; under weak fairness a winning nonce
    is found if there is one (locale \<open>labelled_system\<close>, interpreted on \<open>gpu_step\<close>); an outside reset reports an unmined
    block.

  \<^bold>\<open>Bounds and termination.\<close> No fuel is used. Loops are total functions, with one exception: the walk back over the
  ancestors in \<open>GetNextWorkRequired\<close> may not end and is a partial function, shown to return when the ancestors are
  stored and not to return when one is missing. The miner is considered for fewer than \<open>2 ^ 27\<close> work items, since the
  size of the output buffer, 32 bytes for each, is a 32-bit number. Buffers that are read have fewer than \<open>2 ^ 32\<close> bytes,
  the range of the cursor. The maps of tips that are read back have at most \<open>2 ^ 24\<close> entries, which is within the limit
  on serialised sizes.

  \<^bold>\<open>Not modelled.\<close> Transaction pools, acceptance of blocks and transactions and the assembly of new blocks
  (\<^verbatim>\<open>src/blockchain.cpp\<close> and the rest of \<^verbatim>\<open>src/blockchain.h\<close>); connections and queues
  (\<^verbatim>\<open>src/peer_logic_man.*\<close>, \<^verbatim>\<open>src/net.cpp\<close>), which are asynchronous I/O; OpenCL set-up and its
  error returns, which end the program; private keys, addresses and the signature cache; SHA-512 and the random
  generator; text output, logging, clocks, locks and the command line; the key-value and elliptic-curve libraries.
  Locks of the modelled classes are not modelled: their operations are run one at a time.
\<close>

end
